(* ===== verification/Prelude.thy ===== *)
theory Prelude
  imports Main "HOL-Library.Multiset" "HOL-Library.Word"
begin

text \<open>
  Shared vocabulary of the development: the machine types of the 32-bit target, the named
  collections the component theories fill, and generic lemmas on pairs, options, multisets
  and words that several components use.
\<close>

unbundle bit_operations_syntax

section \<open>Machine types of the target (ARMv7, ILP32)\<close>

type_synonym u8 = "8 word"
type_synonym u32 = "32 word"

text \<open>A C \<open>int\<close> result of an arithmetic expression, wrapped to 32 bits two's complement.\<close>

definition c_int :: "int \<Rightarrow> int" where
  "c_int i = sint (word_of_int i :: u32)"

lemma c_int_id: "- (2 ^ 31) \<le> i \<Longrightarrow> i < 2 ^ 31 \<Longrightarrow> c_int i = i"
  by (simp add: c_int_def signed_of_int signed_take_bit_int_eq_self)

text \<open>Error numbers of the kernel.\<close>

definition EINVAL :: int where
  "EINVAL = 22"

definition ENOMEM :: int where
  "ENOMEM = 12"

text \<open>Time differences of 31-bit values do not wrap.\<close>

lemma sint_diff_31:
  fixes a b :: u32
  assumes "uint a < 2 ^ 31" and "uint b < 2 ^ 31"
  shows "sint (a - b) = uint a - uint b"
proof -
  have "0 \<le> uint a" "0 \<le> uint b" by simp_all
  then have bounds: "- (2 ^ 31) \<le> uint a - uint b" "uint a - uint b < 2 ^ 31"
    using assms by linarith+
  have "sint (a - b) = sint (word_of_int (uint a - uint b) :: u32)"
    by simp
  also have "\<dots> = signed_take_bit 31 (uint a - uint b)"
    by (simp only: signed_of_int) simp
  also have "\<dots> = uint a - uint b"
    using bounds by (rule signed_take_bit_int_eq_self)
  finally show ?thesis .
qed

section \<open>Generic lemmas\<close>

lemma mset_remove1_add: "x \<in># A \<Longrightarrow> A - {#x#} + B = A + B - {#x#}"
  by (simp add: add.commute)

lemma in_diff_other: "x \<noteq> y \<Longrightarrow> x \<in># A - {#y#} \<longleftrightarrow> x \<in># A"
  by (simp add: count_greater_zero_iff [symmetric] del: count_greater_zero_iff)

text \<open>A list of contributions after one element is replaced or removed.\<close>

lemma sum_list_map_update:
  fixes f :: "'a \<Rightarrow> 'b :: comm_monoid_add"
  shows "i < length xs \<Longrightarrow> sum_list (map f (xs[i := t])) + f (xs ! i) = sum_list (map f xs) + f t"
proof (induction xs arbitrary: i)
  case (Cons x xs)
  then show ?case by (cases i) (simp_all add: ac_simps)
qed simp

lemma sum_list_map_remove:
  fixes f :: "'a \<Rightarrow> 'b :: comm_monoid_add"
  shows "i < length xs \<Longrightarrow> sum_list (map f (take i xs @ drop (i + 1) xs)) + f (xs ! i) = sum_list (map f xs)"
proof (induction xs arbitrary: i)
  case (Cons x xs)
  then show ?case by (cases i) (simp_all add: ac_simps)
qed simp

lemma in_set_update_other: "x \<in> set xs \<Longrightarrow> x \<noteq> xs ! i \<Longrightarrow> x \<in> set (xs[i := t])"
  by (metis in_set_conv_nth length_list_update nth_list_update_neq)

lemma in_set_remove_other: "x \<in> set xs \<Longrightarrow> x \<noteq> xs ! i \<Longrightarrow> x \<in> set (take i xs @ drop (i + 1) xs)"
proof (cases "i < length xs")
  case True
  assume "x \<in> set xs" "x \<noteq> xs ! i"
  with id_take_nth_drop [OF True] show ?thesis by (metis Un_iff set_ConsD set_append Suc_eq_plus1)
qed simp

end
