(* ===== verification/Loc_Heap.thy ===== *)
theory Loc_Heap
  imports Prelude
begin

text \<open>
  The heap of \<^verbatim>\<open>gps/utils/LocHeap.cpp\<close>: a binary tree of container nodes, sorted by rank from
  parent to child only.  A node holds the size of its subtree, two child pointers and a pointer to
  client data; the model keeps the tree of nodes and identifies client data with its address, so
  that equality of data is equality of pointers, as in \<^verbatim>\<open>LocHeapNode::remove\<close>.
  The virtual method \<open>ranks\<close> of the client class is a parameter; its laws are the locale
  \<open>loc_rankable\<close>.
\<close>

section \<open>Nodes and operations\<close>

datatype 'a loc_heap_node =
  NullNode
| HeapNode int "'a loc_heap_node" 'a "'a loc_heap_node"

definition outRanks :: "('a \<Rightarrow> 'a \<Rightarrow> int) \<Rightarrow> 'a \<Rightarrow> 'a \<Rightarrow> bool" where
  "outRanks ranks a b \<longleftrightarrow> ranks a b > 0"

definition new_node :: "'a \<Rightarrow> 'a loc_heap_node" where
  "new_node x = HeapNode 1 NullNode x NullNode"

text \<open>
  \<^verbatim>\<open>LocHeapNode::push\<close>: keep the higher ranked datum here, drop the other one into a missing
  child or into the smaller subtree.  The method is only called on nodes that exist; on the
  null pointer the model hands out the new node, which is what the callers do there.
\<close>

fun node_push :: "('a \<Rightarrow> 'a \<Rightarrow> int) \<Rightarrow> 'a loc_heap_node \<Rightarrow> 'a \<Rightarrow> 'a loc_heap_node" where
  "node_push ranks NullNode x = new_node x"
| "node_push ranks (HeapNode n l d r) x =
     (let d' = (if outRanks ranks x d then x else d);
          x' = (if outRanks ranks x d then d else x)
      in case l of
           NullNode \<Rightarrow> HeapNode (n + 1) (new_node x') d' r
         | HeapNode nl _ _ _ \<Rightarrow>
             (case r of
                NullNode \<Rightarrow> HeapNode (n + 1) l d' (new_node x')
              | HeapNode nr _ _ _ \<Rightarrow>
                  if nl \<le> nr then HeapNode (n + 1) (node_push ranks l x') d' r
                  else HeapNode (n + 1) l d' (node_push ranks r x')))"

text \<open>
  \<^verbatim>\<open>LocHeapNode::pop\<close>: the datum of the top is swapped down along the higher ranked children
  to a leaf, and the leaf is unlinked.  The result is the datum the unlinked leaf carries, with
  the tree that is left; \<open>None\<close> stands for the null pointer.
\<close>

fun node_pop :: "('a \<Rightarrow> 'a \<Rightarrow> int) \<Rightarrow> 'a loc_heap_node \<Rightarrow> 'a option \<times> 'a loc_heap_node" where
  "node_pop ranks NullNode = (None, NullNode)"
| "node_pop ranks (HeapNode n NullNode d NullNode) = (Some d, NullNode)"
| "node_pop ranks (HeapNode n (HeapNode nl ll dl rl) d NullNode) =
     (let (p, l') = node_pop ranks (HeapNode nl ll d rl)
      in (p, HeapNode (n - 1) l' dl NullNode))"
| "node_pop ranks (HeapNode n NullNode d (HeapNode nr lr dr rr)) =
     (let (p, r') = node_pop ranks (HeapNode nr lr d rr)
      in (p, HeapNode (n - 1) NullNode dr r'))"
| "node_pop ranks (HeapNode n (HeapNode nl ll dl rl) d (HeapNode nr lr dr rr)) =
     (if outRanks ranks dl dr
      then (let (p, l') = node_pop ranks (HeapNode nl ll d rl)
            in (p, HeapNode (n - 1) l' dl (HeapNode nr lr dr rr)))
      else (let (p, r') = node_pop ranks (HeapNode nr lr d rr)
            in (p, HeapNode (n - 1) (HeapNode nl ll dl rl) dr r')))"

text \<open>
  \<^verbatim>\<open>LocHeapNode::remove\<close>: linear search by address, left subtree first, skipping a subtree
  whose top is outranked by the datum that is looked for.
\<close>

fun node_remove :: "('a \<Rightarrow> 'a \<Rightarrow> int) \<Rightarrow> 'a loc_heap_node \<Rightarrow> 'a \<Rightarrow> 'a option \<times> 'a loc_heap_node" where
  "node_remove ranks NullNode x = (None, NullNode)"
| "node_remove ranks (HeapNode n l d r) x =
     (if x = d then node_pop ranks (HeapNode n l d r)
      else if \<not> outRanks ranks x d then
        (case node_remove ranks l x of
           (Some p, l') \<Rightarrow> (Some p, HeapNode (n - 1) l' d r)
         | (None, l') \<Rightarrow>
             (case node_remove ranks r x of
                (Some p, r') \<Rightarrow> (Some p, HeapNode (n - 1) l' d r')
              | (None, r') \<Rightarrow> (None, HeapNode n l' d r')))
      else (None, HeapNode n l d r))"

text \<open>\<^verbatim>\<open>LocHeapNode::checkNodes\<close>: the code's own consistency check, of direct children only.\<close>

fun check_nodes :: "('a \<Rightarrow> 'a \<Rightarrow> int) \<Rightarrow> 'a loc_heap_node \<Rightarrow> bool" where
  "check_nodes ranks NullNode = True"
| "check_nodes ranks (HeapNode n l d r) =
     ((case l of NullNode \<Rightarrow> True
       | HeapNode _ _ dl _ \<Rightarrow> \<not> outRanks ranks dl d \<and> check_nodes ranks l) \<and>
      (case r of NullNode \<Rightarrow> True
       | HeapNode _ _ dr _ \<Rightarrow> \<not> outRanks ranks dr d \<and> check_nodes ranks r) \<and>
      n - (case l of NullNode \<Rightarrow> 0 | HeapNode nl _ _ _ \<Rightarrow> nl)
        - (case r of NullNode \<Rightarrow> 0 | HeapNode nr _ _ _ \<Rightarrow> nr) = 1)"

text \<open>The methods of \<^verbatim>\<open>LocHeap\<close>, on the tree \<open>mTree\<close>.\<close>

definition heap_push :: "('a \<Rightarrow> 'a \<Rightarrow> int) \<Rightarrow> 'a loc_heap_node \<Rightarrow> 'a \<Rightarrow> 'a loc_heap_node" where
  "heap_push ranks mTree x =
     (case mTree of NullNode \<Rightarrow> new_node x | HeapNode _ _ _ _ \<Rightarrow> node_push ranks mTree x)"

definition heap_peek :: "'a loc_heap_node \<Rightarrow> 'a option" where
  "heap_peek mTree = (case mTree of NullNode \<Rightarrow> None | HeapNode _ _ d _ \<Rightarrow> Some d)"

definition heap_pop :: "('a \<Rightarrow> 'a \<Rightarrow> int) \<Rightarrow> 'a loc_heap_node \<Rightarrow> 'a option \<times> 'a loc_heap_node" where
  "heap_pop ranks mTree =
     (case mTree of NullNode \<Rightarrow> (None, NullNode) | HeapNode _ _ _ _ \<Rightarrow> node_pop ranks mTree)"

definition heap_remove :: "('a \<Rightarrow> 'a \<Rightarrow> int) \<Rightarrow> 'a loc_heap_node \<Rightarrow> 'a \<Rightarrow> 'a option \<times> 'a loc_heap_node" where
  "heap_remove ranks mTree x =
     (case mTree of NullNode \<Rightarrow> (None, NullNode) | HeapNode _ _ _ _ \<Rightarrow> node_remove ranks mTree x)"

definition check_tree :: "('a \<Rightarrow> 'a \<Rightarrow> int) \<Rightarrow> 'a loc_heap_node \<Rightarrow> bool" where
  "check_tree ranks mTree = (case mTree of NullNode \<Rightarrow> True | HeapNode _ _ _ _ \<Rightarrow> check_nodes ranks mTree)"

definition get_tree_size :: "'a loc_heap_node \<Rightarrow> int" where
  "get_tree_size mTree = (case mTree of NullNode \<Rightarrow> 0 | HeapNode n _ _ _ \<Rightarrow> n)"

section \<open>Abstraction: the multiset of data\<close>

fun node_mset :: "'a loc_heap_node \<Rightarrow> 'a multiset" where
  "node_mset NullNode = {#}"
| "node_mset (HeapNode n l d r) = add_mset d (node_mset l + node_mset r)"

fun sizes_ok :: "'a loc_heap_node \<Rightarrow> bool" where
  "sizes_ok NullNode = True"
| "sizes_ok (HeapNode n l d r) =
     (n = int (size (node_mset l) + size (node_mset r)) + 1 \<and> sizes_ok l \<and> sizes_ok r)"

fun heap_ord :: "('a \<Rightarrow> 'a \<Rightarrow> int) \<Rightarrow> 'a loc_heap_node \<Rightarrow> bool" where
  "heap_ord ranks NullNode = True"
| "heap_ord ranks (HeapNode n l d r) =
     ((\<forall>x \<in># node_mset l. \<not> outRanks ranks x d) \<and> (\<forall>x \<in># node_mset r. \<not> outRanks ranks x d) \<and>
      heap_ord ranks l \<and> heap_ord ranks r)"

lemma node_mset_empty [simp]: "node_mset t = {#} \<longleftrightarrow> t = NullNode"
  by (cases t) auto

lemma new_node_simps [simp]:
  "node_mset (new_node x) = {#x#}" "sizes_ok (new_node x)" "heap_ord ranks (new_node x)"
  "new_node x \<noteq> NullNode"
  by (simp_all add: new_node_def)

text \<open>The null checks around the recursive calls collapse: a missing child is a null subtree.\<close>

lemma node_push_HeapNode:
  "node_push ranks (HeapNode n l d r) x =
     (let d' = (if outRanks ranks x d then x else d);
          x' = (if outRanks ranks x d then d else x)
      in if l = NullNode \<or> r \<noteq> NullNode \<and> get_tree_size l \<le> get_tree_size r
         then HeapNode (n + 1) (node_push ranks l x') d' r
         else HeapNode (n + 1) l d' (node_push ranks r x'))"
  by (auto simp: Let_def get_tree_size_def split: loc_heap_node.split)

lemma heap_push_eq: "heap_push ranks t x = node_push ranks t x"
  by (cases t) (simp_all add: heap_push_def)

lemma heap_pop_eq: "heap_pop ranks t = node_pop ranks t"
  by (cases t) (simp_all add: heap_pop_def)

lemma heap_remove_eq: "heap_remove ranks t x = node_remove ranks t x"
  by (cases t) (simp_all add: heap_remove_def)

lemma check_tree_eq: "check_tree ranks t = check_nodes ranks t"
  by (cases t) (simp_all add: check_tree_def)

lemmas heap_op_eqs = heap_push_eq heap_pop_eq heap_remove_eq check_tree_eq

declare node_push.simps(2) [simp del]

lemma sizes_ok_get_tree_size: "sizes_ok t \<Longrightarrow> get_tree_size t = int (size (node_mset t))"
  by (cases t) (simp_all add: get_tree_size_def)

subsection \<open>Contents and sizes\<close>

lemma node_mset_push [simp]: "node_mset (node_push ranks t x) = add_mset x (node_mset t)"
  by (induction t arbitrary: x) (simp_all add: node_push_HeapNode Let_def)

lemma sizes_ok_push: "sizes_ok t \<Longrightarrow> sizes_ok (node_push ranks t x)"
  by (induction t arbitrary: x) (simp_all add: node_push_HeapNode Let_def)

text \<open>What \<^verbatim>\<open>pop\<close> hands out is the datum of the top, and nothing else leaves the tree.\<close>

lemma node_pop_fst: "fst (node_pop ranks t) = heap_peek t"
  by (induction ranks t rule: node_pop.induct) (auto simp: heap_peek_def split_beta)

lemma node_mset_pop:
  "node_mset (snd (node_pop ranks (HeapNode n l d r))) = node_mset l + node_mset r"
proof (induction ranks "HeapNode n l d r" arbitrary: n l d r rule: node_pop.induct)
qed (auto simp: split_beta)

lemma node_mset_pop_diff:
  "node_mset (snd (node_pop ranks t)) = node_mset t - (case heap_peek t of None \<Rightarrow> {#} | Some d \<Rightarrow> {#d#})"
  by (cases t) (simp_all add: node_mset_pop heap_peek_def)

lemma sizes_ok_pop: "sizes_ok t \<Longrightarrow> sizes_ok (snd (node_pop ranks t))"
  by (induction ranks t rule: node_pop.induct) (auto simp: split_beta node_mset_pop)

lemma node_remove_mset:
  "node_mset (snd (node_remove ranks t x)) =
     node_mset t - (if fst (node_remove ranks t x) = None then {#} else {#x#}) \<and>
   (fst (node_remove ranks t x) \<noteq> None \<longrightarrow> fst (node_remove ranks t x) = Some x \<and> x \<in># node_mset t)"
proof (induction t)
  case NullNode
  then show ?case by simp
next
  case (HeapNode n l d r)
  then show ?case
    by (auto simp: node_mset_pop node_pop_fst heap_peek_def split: prod.splits option.splits)
qed

lemma sizes_ok_remove: "sizes_ok t \<Longrightarrow> sizes_ok (snd (node_remove ranks t x))"
proof (induction t)
  case NullNode
  then show ?case by simp
next
  case (HeapNode n l d r)
  then show ?case
    using node_remove_mset [of ranks l x] node_remove_mset [of ranks r x]
    by (auto simp: sizes_ok_pop size_Diff_singleton of_nat_diff
        split: prod.splits option.splits dest: multi_member_split)
qed


section \<open>Heap order, under the laws of ranking\<close>

text \<open>
  What a client class promises of \<open>ranks\<close> on the data it puts into the heap: on valid data
  \<open>outRanks\<close> is asymmetric and its negation is transitive (a strict weak order).
\<close>

definition all_valid :: "('a \<Rightarrow> bool) \<Rightarrow> 'a loc_heap_node \<Rightarrow> bool" where
  "all_valid valid t \<longleftrightarrow> (\<forall>x \<in># node_mset t. valid x)"

definition heap_inv :: "('a \<Rightarrow> 'a \<Rightarrow> int) \<Rightarrow> ('a \<Rightarrow> bool) \<Rightarrow> 'a loc_heap_node \<Rightarrow> bool" where
  "heap_inv ranks valid t \<longleftrightarrow> sizes_ok t \<and> heap_ord ranks t \<and> all_valid valid t"

lemma all_valid_simps [simp]:
  "all_valid valid NullNode"
  "all_valid valid (HeapNode n l d r) \<longleftrightarrow> valid d \<and> all_valid valid l \<and> all_valid valid r"
  by (auto simp: all_valid_def)

lemma all_validD: "all_valid valid t \<Longrightarrow> x \<in># node_mset t \<Longrightarrow> valid x"
  by (simp add: all_valid_def)

locale loc_rankable =
  fixes ranks :: "'a \<Rightarrow> 'a \<Rightarrow> int" and valid :: "'a \<Rightarrow> bool"
  assumes outRanks_asym: "valid a \<Longrightarrow> valid b \<Longrightarrow> outRanks ranks a b \<Longrightarrow> \<not> outRanks ranks b a"
    and not_outRanks_trans: "valid a \<Longrightarrow> valid b \<Longrightarrow> valid c \<Longrightarrow>
      \<not> outRanks ranks a b \<Longrightarrow> \<not> outRanks ranks b c \<Longrightarrow> \<not> outRanks ranks a c"
begin

lemma not_outRanks_refl: "valid a \<Longrightarrow> \<not> outRanks ranks a a"
  using outRanks_asym [of a a] by blast

lemma below_subtree:
  assumes "\<not> outRanks ranks e d" and "\<forall>y \<in># node_mset t. \<not> outRanks ranks y e"
    and "valid e" and "valid d" and "all_valid valid t"
  shows "\<forall>y \<in># node_mset t. \<not> outRanks ranks y d"
  using assms not_outRanks_trans by (meson all_validD)

lemma heap_ord_push:
  "heap_ord ranks t \<Longrightarrow> all_valid valid t \<Longrightarrow> valid x \<Longrightarrow> heap_ord ranks (node_push ranks t x)"
proof (induction t arbitrary: x)
  case NullNode
  then show ?case by simp
next
  case (HeapNode n l d r)
  show ?case
  proof (cases "outRanks ranks x d")
    case True
    then have dx: "\<not> outRanks ranks d x"
      using HeapNode.prems outRanks_asym by simp
    have below: "\<forall>y \<in># node_mset s. \<not> outRanks ranks y x" if "s = l \<or> s = r" for s
      by (rule below_subtree [of d]) (use that dx HeapNode.prems in auto)
    then show ?thesis
      using True dx HeapNode.prems below [of l] below [of r] HeapNode.IH [of d] by (simp add: node_push_HeapNode)
  next
    case False
    then show ?thesis
      using HeapNode by (simp add: node_push_HeapNode)
  qed
qed

text \<open>Pop swaps the top datum, which nothing outranks, down the higher ranked children.\<close>

lemma heap_ord_pop: "heap_ord ranks t \<Longrightarrow> all_valid valid t \<Longrightarrow> heap_ord ranks (snd (node_pop ranks t))"
proof (induction rk \<equiv> ranks t rule: node_pop.induct)
  case (5 n nl ll dl rl d nr lr dr rr)
  show ?case
  proof (cases "outRanks ranks dl dr")
    case True
    then have lr: "\<not> outRanks ranks dr dl"
      using "5.prems" outRanks_asym by simp
    have below: "\<forall>y \<in># node_mset s. \<not> outRanks ranks y dl" if "s = lr \<or> s = rr" for s
      by (rule below_subtree [of dr]) (use that lr "5.prems" in auto)
    from this [of lr] this [of rr] show ?thesis
      using True lr "5.prems" "5.hyps"(1) by (simp add: split_beta node_mset_pop ball_Un)
  next
    case False
    have below: "\<forall>y \<in># node_mset s. \<not> outRanks ranks y dr" if "s = ll \<or> s = rl" for s
      by (rule below_subtree [of dl]) (use that False "5.prems" in auto)
    from this [of ll] this [of rl] show ?thesis
      using False "5.prems" "5.hyps"(2) by (simp add: split_beta node_mset_pop ball_Un)
  qed
qed (simp_all add: split_beta node_mset_pop ball_Un)

lemma heap_ord_remove:
  "heap_ord ranks t \<Longrightarrow> all_valid valid t \<Longrightarrow> heap_ord ranks (snd (node_remove ranks t x))"
proof (induction t)
  case NullNode
  then show ?case by simp
next
  case (HeapNode n l d r)
  have sub: "\<forall>y \<in># node_mset (snd (node_remove ranks s x)). \<not> outRanks ranks y d"
    if "\<forall>y \<in># node_mset s. \<not> outRanks ranks y d" for s
    using that node_remove_mset [of ranks s x] by (auto dest: in_diffD split: if_splits)
  show ?case
  proof (cases "x = d \<or> outRanks ranks x d")
    case True
    then show ?thesis
      using HeapNode.prems heap_ord_pop [of "HeapNode n l d r"] by auto
  next
    case False
    obtain p l' q r' where eqs: "node_remove ranks l x = (p, l')" "node_remove ranks r x = (q, r')"
      by fastforce
    have "heap_ord ranks (snd (node_remove ranks s x)) \<and>
        (\<forall>y \<in># node_mset (snd (node_remove ranks s x)). \<not> outRanks ranks y d)"
      if "s = l \<or> s = r" for s
      using that HeapNode.prems HeapNode.IH sub by auto
    from this [of l] this [of r] show ?thesis
      using False eqs HeapNode.prems by (simp split: option.split)
  qed
qed

text \<open>The search prunes by rank, and yet finds every datum that is in the heap.\<close>

lemma remove_finds:
  "heap_ord ranks t \<Longrightarrow> all_valid valid t \<Longrightarrow> x \<in># node_mset t \<Longrightarrow> fst (node_remove ranks t x) = Some x"
proof (induction t)
  case NullNode
  then show ?case by simp
next
  case (HeapNode n l d r)
  show ?case
  proof (cases "x = d")
    case True
    then show ?thesis by (simp add: node_pop_fst heap_peek_def)
  next
    case False
    obtain p l' q r' where eqs: "node_remove ranks l x = (p, l')" "node_remove ranks r x = (q, r')"
      by fastforce
    have "\<not> outRanks ranks x d" "p = None \<or> p = Some x" "p = Some x \<or> q = Some x"
      using HeapNode False eqs node_remove_mset [of ranks l x] by auto
    then show ?thesis
      using False eqs by (auto split: option.split)
  qed
qed

lemma heap_inv_push: "heap_inv ranks valid t \<Longrightarrow> valid x \<Longrightarrow> heap_inv ranks valid (heap_push ranks t x)"
  by (auto simp: heap_inv_def heap_push_eq sizes_ok_push heap_ord_push all_valid_def)

lemma heap_inv_pop: "heap_inv ranks valid t \<Longrightarrow> heap_inv ranks valid (snd (heap_pop ranks t))"
  by (auto simp: heap_inv_def heap_pop_eq sizes_ok_pop heap_ord_pop all_valid_def
      node_mset_pop_diff dest: in_diffD split: option.splits)

lemma heap_inv_remove: "heap_inv ranks valid t \<Longrightarrow> heap_inv ranks valid (snd (heap_remove ranks t x))"
  using node_remove_mset [of ranks t x]
  by (auto simp: heap_inv_def heap_remove_eq sizes_ok_remove heap_ord_remove all_valid_def
      dest: in_diffD split: if_splits)

lemma peek_highest:
  "heap_inv ranks valid t \<Longrightarrow> heap_peek t = Some d \<Longrightarrow> x \<in># node_mset t \<Longrightarrow> \<not> outRanks ranks x d"
  by (cases t) (auto simp: heap_inv_def heap_peek_def not_outRanks_refl)

text \<open>The code's local check decides the global invariant.\<close>

lemma check_nodes_ord: "check_nodes ranks t \<Longrightarrow> all_valid valid t \<Longrightarrow> heap_ord ranks t"
proof (induction t)
  case NullNode
  then show ?case by simp
next
  case (HeapNode n l d r)
  note IH = HeapNode.IH and prems = HeapNode.prems
  have side: "heap_ord ranks s \<and> (\<forall>y \<in># node_mset s. \<not> outRanks ranks y d)"
    if s: "s = l \<or> s = r" for s
  proof (cases s)
    case NullNode
    then show ?thesis by simp
  next
    case (HeapNode m sl e sr)
    then have e: "\<not> outRanks ranks e d" "check_nodes ranks s" "all_valid valid s" "valid d"
      using s prems by (auto simp del: check_nodes.simps(1))
    have ord: "heap_ord ranks s"
      using s e IH by blast
    with e HeapNode have parts: "valid e" "all_valid valid sl" "all_valid valid sr"
      "\<forall>y \<in># node_mset sl. \<not> outRanks ranks y e" "\<forall>y \<in># node_mset sr. \<not> outRanks ranks y e"
      by simp_all
    have "\<forall>y \<in># node_mset t. \<not> outRanks ranks y d" if "t = sl \<or> t = sr" for t
      by (rule below_subtree [of e]) (use that e(1,4) parts in auto)
    from this [of sl] this [of sr] show ?thesis
      using HeapNode e(1) ord by (simp add: ball_Un)
  qed
  show ?case
    using side [of l] side [of r] by simp
qed


lemma check_nodes_of_inv: "sizes_ok t \<Longrightarrow> heap_ord ranks t \<Longrightarrow> check_nodes ranks t"
proof (induction t)
  case NullNode
  then show ?case by simp
next
  case (HeapNode n l d r)
  then have "check_nodes ranks l" "check_nodes ranks r" by simp_all
  with HeapNode.prems show ?case by (cases l; cases r) auto
qed

lemma check_nodes_imp_sizes: "check_nodes ranks t \<Longrightarrow> sizes_ok t"
proof (induction t)
  case NullNode
  then show ?case by simp
next
  case (HeapNode n l d r)
  then show ?case by (cases l; cases r) auto
qed

lemma check_nodes_iff:
  "all_valid valid t \<Longrightarrow> check_nodes ranks t \<longleftrightarrow> heap_inv ranks valid t"
  unfolding heap_inv_def
  using check_nodes_ord check_nodes_of_inv check_nodes_imp_sizes by blast

end

subsection \<open>Balance of pushes\<close>

text \<open>
  A tree that only pushes have built is balanced: the sizes of two sibling subtrees differ by at
  most one, the left one never being the smaller of the two.
\<close>

fun balanced :: "'a loc_heap_node \<Rightarrow> bool" where
  "balanced NullNode = True"
| "balanced (HeapNode n l d r) =
     (size (node_mset r) \<le> size (node_mset l) \<and> size (node_mset l) \<le> size (node_mset r) + 1 \<and>
      balanced l \<and> balanced r)"

fun node_height :: "'a loc_heap_node \<Rightarrow> nat" where
  "node_height NullNode = 0"
| "node_height (HeapNode n l d r) = Suc (max (node_height l) (node_height r))"

lemma balanced_push: "balanced t \<Longrightarrow> sizes_ok t \<Longrightarrow> balanced (node_push ranks t x)"
proof (induction t arbitrary: x)
  case NullNode
  then show ?case by (simp add: new_node_def)
next
  case (HeapNode n l d r)
  then have "get_tree_size l = int (size (node_mset l))" "get_tree_size r = int (size (node_mset r))"
    by (simp_all add: sizes_ok_get_tree_size)
  moreover have "l \<noteq> NullNode \<Longrightarrow> size (node_mset l) > 0"
    by (simp add: nonempty_has_size [symmetric])
  ultimately show ?case
    using HeapNode
    by (auto simp: node_push_HeapNode Let_def)
qed

text \<open>Hence the height is logarithmic: a tree of height \<open>h + 1\<close> holds at least \<open>2 ^ h\<close> nodes.\<close>

lemma balanced_size: "balanced t \<Longrightarrow> t \<noteq> NullNode \<Longrightarrow> 2 ^ node_height t \<le> 2 * size (node_mset t)"
proof (induction "size (node_mset t)" arbitrary: t rule: less_induct)
  case less
  then obtain n l d r where t: "t = HeapNode n l d r"
    by (cases t) auto
  let ?sl = "size (node_mset l)" and ?sr = "size (node_mset r)"
  have l: "l = NullNode \<or> 2 ^ node_height l \<le> 2 * ?sl"
    using less.hyps [of l] less.prems t by auto
  have r: "r = NullNode \<or> 2 ^ node_height r \<le> 2 * ?sr"
    using less.hyps [of r] less.prems t by auto
  have bal: "?sr \<le> ?sl" "?sl \<le> ?sr + 1"
    using less.prems t by auto
  show ?case
  proof (cases "node_height r \<le> node_height l")
    case True
    then show ?thesis
      using t l bal by (auto simp: max_def)
  next
    case False
    then show ?thesis
      using t r bal by (auto simp: max_def)
  qed
qed

subsection \<open>Draining the heap\<close>

lemma heap_pop_smaller:
  assumes "heap_pop ranks t = (Some d, t')"
  shows "size (node_mset t') < size (node_mset t)"
proof (cases t)
  case NullNode
  with assms show ?thesis by (simp add: heap_pop_def)
next
  case (HeapNode n l e r)
  then have "node_mset t' = node_mset l + node_mset r"
    using assms node_mset_pop [of ranks n l e r] by (simp add: heap_pop_eq)
  with HeapNode show ?thesis by simp
qed

text \<open>
  The loop \<^verbatim>\<open>for (data = heap.pop(); NULL != data; data = heap.pop())\<close>: pop until the heap
  is empty, here collecting what comes out.
\<close>

function heap_drain :: "('a \<Rightarrow> 'a \<Rightarrow> int) \<Rightarrow> 'a loc_heap_node \<Rightarrow> 'a list" where
  "heap_drain ranks t =
     (case heap_pop ranks t of (None, t') \<Rightarrow> [] | (Some d, t') \<Rightarrow> d # heap_drain ranks t')"
  by pat_completeness auto
termination
  by (relation "measure (\<lambda>(ranks, t). size (node_mset t))") (auto dest: heap_pop_smaller [OF sym])

declare heap_drain.simps [simp del]

lemma heap_drain_NullNode [simp]: "heap_drain ranks NullNode = []"
  by (simp add: heap_drain.simps [of ranks NullNode] heap_pop_def)

lemma heap_drain_HeapNode:
  "heap_drain ranks (HeapNode n l d r) = d # heap_drain ranks (snd (node_pop ranks (HeapNode n l d r)))"
  using node_pop_fst [of ranks "HeapNode n l d r"]
  by (simp add: heap_drain.simps [of ranks "HeapNode n l d r"] heap_pop_eq heap_peek_def split_beta
      split: option.split)

lemma mset_heap_drain: "mset (heap_drain ranks t) = node_mset t"
proof (induction "size (node_mset t)" arbitrary: t rule: less_induct)
  case less
  then show ?case
    by (cases t) (simp_all add: heap_drain_HeapNode node_mset_pop)
qed

context loc_rankable
begin

text \<open>What is drained comes out in rank order: no later datum outranks an earlier one.\<close>

lemma heap_drain_ordered:
  "heap_inv ranks valid t \<Longrightarrow> sorted_wrt (\<lambda>a b. \<not> outRanks ranks b a) (heap_drain ranks t)"
proof (induction "size (node_mset t)" arbitrary: t rule: less_induct)
  case less
  show ?case
  proof (cases t)
    case NullNode
    then show ?thesis by simp
  next
    case (HeapNode n l d r)
    let ?t' = "snd (node_pop ranks t)"
    have m: "node_mset ?t' = node_mset l + node_mset r"
      by (simp add: HeapNode node_mset_pop)
    have "heap_inv ranks valid ?t'"
      using heap_inv_pop [OF less.prems] by (simp add: heap_pop_eq)
    then have "sorted_wrt (\<lambda>a b. \<not> outRanks ranks b a) (heap_drain ranks ?t')"
      using less.hyps m HeapNode by simp
    moreover have "set (heap_drain ranks ?t') = set_mset (node_mset ?t')"
      by (metis mset_heap_drain set_mset_mset)
    ultimately show ?thesis
      using less.prems m HeapNode by (auto simp: heap_drain_HeapNode heap_inv_def)
  qed
qed

end


section \<open>The self test of the heap\<close>

text \<open>
  \<^verbatim>\<open>LocHeapDebugData\<close> ranks by \<open>mID\<close>, a smaller one higher; the model adds the address.  The
  test program pushes or pops at random; the model takes the list of the \<open>rand\<close> results and
  counts the failures it reports.
\<close>

record heap_debug_data =
  addr :: nat
  mID :: int

definition debug_ranks :: "heap_debug_data \<Rightarrow> heap_debug_data \<Rightarrow> int" where
  "debug_ranks this testData = c_int (mID testData - mID this)"

definition debug_valid :: "heap_debug_data \<Rightarrow> bool" where
  "debug_valid x \<longleftrightarrow> 0 \<le> mID x \<and> mID x < 2 ^ 31"

lemma outRanks_debug:
  "debug_valid a \<Longrightarrow> debug_valid b \<Longrightarrow> outRanks debug_ranks a b \<longleftrightarrow> mID a < mID b"
  by (simp add: outRanks_def debug_ranks_def debug_valid_def c_int_id)

interpretation debug_rank: loc_rankable debug_ranks debug_valid
  by unfold_locales (auto simp: outRanks_debug)

record heap_test =
  test_heap :: "heap_debug_data loc_heap_node"
  treeSize :: int
  next_addr :: nat
  reports :: nat

definition debug_op :: "int \<Rightarrow> heap_test \<Rightarrow> heap_test" where
  "debug_op r s =
     (if r mod 2 = 1
      then s\<lparr>test_heap := heap_push debug_ranks (test_heap s) \<lparr>addr = next_addr s, mID = r div 2\<rparr>,
             treeSize := treeSize s + 1, next_addr := next_addr s + 1\<rparr>
      else s\<lparr>test_heap := snd (heap_pop debug_ranks (test_heap s)),
             treeSize := (if treeSize s \<noteq> 0 then treeSize s - 1 else 0)\<rparr>)"

fun debug_loop :: "nat \<Rightarrow> nat \<Rightarrow> int list \<Rightarrow> heap_test \<Rightarrow> heap_test" where
  "debug_loop checks i [] s = s"
| "debug_loop checks i (r # rs) s =
     (let s1 = (if i mod checks = 0 \<and> \<not> check_tree debug_ranks (test_heap s)
                then s\<lparr>reports := reports s + 1\<rparr> else s);
          s2 = debug_op r s1
      in if treeSize s2 \<noteq> get_tree_size (test_heap s2) then s2\<lparr>reports := reports s2 + 1\<rparr>
         else debug_loop checks (i + 1) rs s2)"

definition debug_main :: "int list \<Rightarrow> nat" where
  "debug_main rs =
     (let s = debug_loop (length rs div 8) 0 rs
            \<lparr>test_heap = NullNode, treeSize = 0, next_addr = 0, reports = 0\<rparr>
      in if check_tree debug_ranks (test_heap s) then reports s else reports s + 1)"

definition debug_inv :: "heap_test \<Rightarrow> bool" where
  "debug_inv s \<longleftrightarrow> heap_inv debug_ranks debug_valid (test_heap s) \<and>
     treeSize s = int (size (node_mset (test_heap s))) \<and> reports s = 0"

lemma heap_inv_check: "heap_inv debug_ranks debug_valid t \<Longrightarrow> check_tree debug_ranks t"
  using debug_rank.check_nodes_iff [of t] by (simp add: check_tree_eq heap_inv_def)

lemma debug_op_inv:
  assumes "debug_inv s" and "0 \<le> r" and "r < 2 ^ 31"
  shows "debug_inv (debug_op r s)"
proof (cases "r mod 2 = 1")
  case True
  have "debug_valid \<lparr>addr = next_addr s, mID = r div 2\<rparr>"
    using assms(2,3) by (auto simp: debug_valid_def)
  with True assms(1) show ?thesis
    using debug_rank.heap_inv_push by (simp add: debug_op_def debug_inv_def) (simp add: heap_push_eq)
next
  case False
  have "size (node_mset (snd (heap_pop debug_ranks (test_heap s)))) = size (node_mset (test_heap s)) - 1"
    by (cases "test_heap s") (simp_all add: heap_pop_eq node_mset_pop)
  moreover have "size (node_mset (test_heap s)) = 0 \<or> 0 < size (node_mset (test_heap s))" by blast
  ultimately show ?thesis
    using False assms(1) debug_rank.heap_inv_pop [of "test_heap s"]
    by (auto simp add: debug_op_def debug_inv_def of_nat_diff)
qed

lemma debug_loop_inv:
  "debug_inv s \<Longrightarrow> \<forall>r \<in> set rs. 0 \<le> r \<and> r < 2 ^ 31 \<Longrightarrow> debug_inv (debug_loop checks i rs s)"
proof (induction checks i rs s rule: debug_loop.induct)
  case (2 checks i r rs s)
  have check: "check_tree debug_ranks (test_heap s)"
    using "2.prems"(1) by (simp add: debug_inv_def heap_inv_check)
  have inv: "debug_inv (debug_op r s)"
    using "2.prems" by (intro debug_op_inv) simp_all
  then have "treeSize (debug_op r s) = get_tree_size (test_heap (debug_op r s))"
    by (simp add: debug_inv_def heap_inv_def sizes_ok_get_tree_size)
  then show ?case
    using "2.IH" [of s "debug_op r s"] "2.prems" check inv by simp
qed simp

section \<open>Properties\<close>

text \<open>A push into a heap adds exactly the new datum and keeps the heap well-formed: subtree sizes,
  order by rank and the validity of the data, whatever the ranking of the client class is.\<close>

theorem heap_push_correct:
  assumes "loc_rankable ranks valid" and "heap_inv ranks valid t" and "valid x"
  shows "heap_inv ranks valid (heap_push ranks t x) \<and>
    node_mset (heap_push ranks t x) = add_mset x (node_mset t)"
  using loc_rankable.heap_inv_push [OF assms] by (simp add: heap_push_eq)

definition debug_heap :: "heap_debug_data loc_heap_node" where
  "debug_heap = HeapNode 2 (HeapNode 1 NullNode \<lparr>addr = 1, mID = 9\<rparr> NullNode) \<lparr>addr = 0, mID = 4\<rparr> NullNode"

lemma debug_heap_inv: "heap_inv debug_ranks debug_valid debug_heap"
  by (simp add: heap_inv_def debug_heap_def outRanks_debug debug_valid_def)

lemma heap_push_correct_witness:
  "heap_inv debug_ranks debug_valid (heap_push debug_ranks debug_heap \<lparr>addr = 2, mID = 3\<rparr>)"
  using heap_push_correct [OF debug_rank.loc_rankable_axioms debug_heap_inv, of "\<lparr>addr = 2, mID = 3\<rparr>"]
  by (simp add: debug_valid_def)

text \<open>Pop hands out the datum of the top, which no datum of the heap outranks, removes exactly it
  and keeps the heap well-formed; on an empty heap it returns the null pointer.\<close>

theorem heap_pop_correct:
  assumes "loc_rankable ranks valid" and "heap_inv ranks valid t"
  shows "case heap_pop ranks t of
      (None, t') \<Rightarrow> t = NullNode \<and> t' = NullNode
    | (Some d, t') \<Rightarrow> heap_peek t = Some d \<and> (\<forall>x \<in># node_mset t. \<not> outRanks ranks x d) \<and>
        node_mset t = add_mset d (node_mset t') \<and> heap_inv ranks valid t'"
proof -
  obtain p t' where pop: "heap_pop ranks t = (p, t')" by fastforce
  have p: "p = heap_peek t" using node_pop_fst [of ranks t] pop by (simp add: heap_pop_eq)
  show ?thesis
  proof (cases t)
    case NullNode
    with pop p show ?thesis by (simp add: heap_pop_def)
  next
    case (HeapNode n l d r)
    with p have pk: "heap_peek t = Some d" "p = Some d" by (simp_all add: heap_peek_def)
    have "node_mset t = add_mset d (node_mset t')"
      using pop HeapNode node_mset_pop [of ranks n l d r] by (simp add: heap_pop_eq)
    with pk pop assms loc_rankable.heap_inv_pop [OF assms] loc_rankable.peek_highest [OF assms pk(1)]
    show ?thesis by simp
  qed
qed

lemma heap_pop_correct_witness:
  "\<not> outRanks debug_ranks \<lparr>addr = 1, mID = 9\<rparr> \<lparr>addr = 0, mID = 4\<rparr>"
  using heap_pop_correct [OF debug_rank.loc_rankable_axioms debug_heap_inv]
  by (simp add: debug_heap_def heap_pop_def split_beta Let_def)



text \<open>Popping until the heap is empty yields a permutation of its contents in rank order: no datum
  outranks one that came out before it.\<close>

theorem heap_drain_sorted:
  assumes "loc_rankable ranks valid" and "heap_inv ranks valid t"
  shows "mset (heap_drain ranks t) = node_mset t \<and>
    sorted_wrt (\<lambda>a b. \<not> outRanks ranks b a) (heap_drain ranks t)"
  using loc_rankable.heap_drain_ordered [OF assms] mset_heap_drain by blast

lemma heap_drain_sorted_witness:
  "mset (heap_drain debug_ranks debug_heap) = {#\<lparr>addr = 0, mID = 4\<rparr>, \<lparr>addr = 1, mID = 9\<rparr>#}"
  using heap_drain_sorted [OF debug_rank.loc_rankable_axioms debug_heap_inv] by (simp add: debug_heap_def)

text \<open>The code's own check, which compares only a node with its direct children, decides the
  well-formedness of the whole tree.\<close>

theorem check_tree_decides:
  assumes "loc_rankable ranks valid" and "all_valid valid t"
  shows "check_tree ranks t \<longleftrightarrow> heap_inv ranks valid t"
  using loc_rankable.check_nodes_iff [OF assms] by (simp add: check_tree_eq)

lemma check_tree_decides_witness:
  "check_tree debug_ranks debug_heap"
  using check_tree_decides [OF debug_rank.loc_rankable_axioms, of debug_heap] debug_heap_inv
  by (simp add: heap_inv_def)

text \<open>Pushing into the smaller subtree balances the tree: a heap built by \<open>n\<close> pushes has a height
  \<open>h\<close> with \<open>2 ^ h \<le> 2 * n\<close>, so a push visits at most logarithmically many nodes.\<close>

theorem heap_height_logarithmic:
  assumes "xs \<noteq> []"
  shows "2 ^ node_height (fold (\<lambda>x t. heap_push ranks t x) xs NullNode) \<le> 2 * length xs"
proof -
  let ?f = "\<lambda>x t. heap_push ranks t x"
  have "balanced (fold ?f xs t) \<and> sizes_ok (fold ?f xs t) \<and>
      node_mset (fold ?f xs t) = mset xs + node_mset t" if "balanced t" "sizes_ok t" for t
    using that by (induction xs arbitrary: t) (simp_all add: heap_push_eq balanced_push sizes_ok_push)
  from this [of NullNode] have "balanced (fold ?f xs NullNode)" "node_mset (fold ?f xs NullNode) = mset xs"
    by simp_all
  moreover from this(2) assms have "fold ?f xs NullNode \<noteq> NullNode" by (metis mset_zero_iff node_mset_empty)
  ultimately show ?thesis using balanced_size by (metis size_mset)
qed

lemma heap_height_logarithmic_witness:
  "2 ^ node_height (fold (\<lambda>x t. heap_push debug_ranks t x)
     [\<lparr>addr = 0, mID = 5\<rparr>, \<lparr>addr = 1, mID = 2\<rparr>, \<lparr>addr = 2, mID = 8\<rparr>] NullNode) \<le> 2 * (3 :: nat)"
  using heap_height_logarithmic [of "[\<lparr>addr = 0, mID = 5\<rparr>, \<lparr>addr = 1, mID = 2\<rparr>, \<lparr>addr = 2, mID = 8\<rparr>]" debug_ranks]
  by simp

text \<open>The self test of the heap reports no failure, whatever the random numbers are: the recorded
  size always equals the number of pushes minus effective pops, and every check succeeds.\<close>

theorem heap_self_test_passes:
  assumes "8 \<le> length rs" and "\<forall>r \<in> set rs. 0 \<le> r \<and> r < 2 ^ 31"
  shows "debug_main rs = 0"
proof -
  have "debug_inv (debug_loop (length rs div 8) 0 rs \<lparr>test_heap = NullNode, treeSize = 0, next_addr = 0, reports = 0\<rparr>)"
    using assms(2) by (intro debug_loop_inv) (simp_all add: debug_inv_def heap_inv_def)
  then show ?thesis
    by (simp add: debug_main_def Let_def debug_inv_def heap_inv_check)
qed

lemma heap_self_test_passes_witness:
  "debug_main [11, 7, 8, 3, 15, 2, 4, 6, 8] = 0"
  by (rule heap_self_test_passes) simp_all

end
