(* ===== verification/Loc_Timer.thy ===== *)
theory Loc_Timer
  imports Loc_Heap
begin

text \<open>
  The timer service of \<^verbatim>\<open>gps/utils/LocTimer.cpp\<close>: clients (\<open>LocTimer\<close>) own at most one running
  delegate (\<open>LocTimerDelegate\<close>); the delegates of a container live in a heap ranked by expiry
  second; all heap changes are messages of one message task, processed one at a time; one kernel
  timer per container is armed for the top of its heap and polled by the poll task.
  A use of a deleted delegate, or a second deletion, is recorded in the field \<open>uaf\<close>.
\<close>

section \<open>Times and ranks\<close>

text \<open>\<^verbatim>\<open>struct timespec\<close>: \<open>time_t\<close> and \<open>long\<close> are 32-bit signed on the target.\<close>

record timespec =
  tv_sec :: u32
  tv_nsec :: u32

text \<open>The expiry time that \<^verbatim>\<open>LocTimer::start\<close> computes from the boot time and the delay.\<close>

definition future_time :: "timespec \<Rightarrow> u32 \<Rightarrow> timespec" where
  "future_time now timeOutInMs =
     (let sec = tv_sec now + timeOutInMs div 1000;
          nsec = tv_nsec now + (timeOutInMs mod 1000) * 1000000
      in if 1000000000 \<le> sint nsec
         then \<lparr>tv_sec = sec + word_of_int (sint nsec div 1000000000),
               tv_nsec = word_of_int (sint nsec mod 1000000000)\<rparr>
         else \<lparr>tv_sec = sec, tv_nsec = nsec\<rparr>)"

definition timespec_ns :: "timespec \<Rightarrow> int" where
  "timespec_ns t = uint (tv_sec t) * 1000000000 + uint (tv_nsec t)"

text \<open>A delegate in the heap: its address, and the expiry time, which never changes.\<close>

record timer_ref =
  ref_id :: nat
  mFutureTime :: timespec

text \<open>\<^verbatim>\<open>LocTimerDelegate::ranks\<close>: only whole seconds count, a later second ranks lower.\<close>

definition delegate_ranks :: "timer_ref \<Rightarrow> timer_ref \<Rightarrow> int" where
  "delegate_ranks this rankable = sint (tv_sec (mFutureTime rankable) - tv_sec (mFutureTime this))"

text \<open>Expiry seconds are positive as \<open>time_t\<close>.\<close>

definition ref_valid :: "timer_ref \<Rightarrow> bool" where
  "ref_valid r \<longleftrightarrow> 0 < uint (tv_sec (mFutureTime r)) \<and> uint (tv_sec (mFutureTime r)) < 2 ^ 31"

lemma outRanks_delegate:
  "ref_valid a \<Longrightarrow> ref_valid b \<Longrightarrow>
   outRanks delegate_ranks a b \<longleftrightarrow> tv_sec (mFutureTime a) < tv_sec (mFutureTime b)"
  by (simp add: outRanks_def delegate_ranks_def ref_valid_def sint_diff_31 word_less_def)

interpretation timer_rank: loc_rankable delegate_ranks ref_valid
  by unfold_locales (auto simp: outRanks_delegate)

section \<open>State\<close>

record timer_container =
  mTree :: "timer_ref loc_heap_node"
  dev_armed :: "timespec option"  \<comment> \<open>the timerfd: \<open>None\<close> when disarmed\<close>
  polled :: bool                  \<comment> \<open>the timerfd is in the epoll set\<close>

record delegate_obj =
  mClient :: "nat option"
  mContainer :: "bool option"

text \<open>The messages of the timer's message task; the container is the alarm one when \<open>True\<close>.\<close>

datatype timer_msg =
  MsgTimerPush bool timer_ref
| MsgTimerRemove bool timer_ref
| MsgTimerExpire bool

record timer_sys =
  conts :: "bool \<Rightarrow> timer_container"
  mTimer :: "nat \<Rightarrow> timer_ref option"     \<comment> \<open>\<open>LocTimer::mTimer\<close> of each client\<close>
  delegs :: "nat \<rightharpoonup> delegate_obj"          \<comment> \<open>the live delegates\<close>
  timer_q :: "timer_msg list"
  next_id :: nat
  fired :: "nat list"                      \<comment> \<open>calls of \<open>timeOutCallback\<close>\<close>
  uaf :: bool

definition empty_container :: timer_container where
  "empty_container = \<lparr>mTree = NullNode, dev_armed = None, polled = False\<rparr>"

definition init_timers :: timer_sys where
  "init_timers = \<lparr>conts = (\<lambda>_. empty_container), mTimer = (\<lambda>_. None), delegs = Map.empty,
     timer_q = [], next_id = 0, fired = [], uaf = False\<rparr>"

definition send_timer_msg :: "timer_msg \<Rightarrow> timer_sys \<Rightarrow> timer_sys" where
  "send_timer_msg m s = s\<lparr>timer_q := timer_q s @ [m]\<rparr>"

definition set_cont :: "bool \<Rightarrow> timer_container \<Rightarrow> timer_sys \<Rightarrow> timer_sys" where
  "set_cont k c s = s\<lparr>conts := (conts s)(k := c)\<rparr>"

section \<open>Clients and delegates\<close>

text \<open>
  \<^verbatim>\<open>LocTimer::start\<close> with the constructor of \<^verbatim>\<open>LocTimerDelegate\<close>: refuse when a timer runs,
  otherwise create the delegate and have it pushed by the message task.
\<close>

definition timer_start :: "nat \<Rightarrow> u32 \<Rightarrow> bool \<Rightarrow> timespec \<Rightarrow> timer_sys \<Rightarrow> bool \<times> timer_sys" where
  "timer_start c timeOutInMs wakeOnExpire now s =
     (case mTimer s c of
        Some _ \<Rightarrow> (False, s)
      | None \<Rightarrow>
          (let r = \<lparr>ref_id = next_id s, mFutureTime = future_time now timeOutInMs\<rparr>
           in (True, send_timer_msg (MsgTimerPush wakeOnExpire r)
                (s\<lparr>delegs := (delegs s)(next_id s \<mapsto>
                      \<lparr>mClient = Some c, mContainer = Some wakeOnExpire\<rparr>),
                   mTimer := (mTimer s)(c := Some r),
                   next_id := next_id s + 1\<rparr>))))"

text \<open>\<^verbatim>\<open>LocTimerDelegate::destroyLocked\<close>.\<close>

definition destroy_locked :: "timer_ref \<Rightarrow> timer_sys \<Rightarrow> timer_sys" where
  "destroy_locked r s =
     (case delegs s (ref_id r) of
        None \<Rightarrow> s\<lparr>uaf := True\<rparr>
      | Some d \<Rightarrow>
          (case mContainer d of
             None \<Rightarrow> s\<lparr>delegs := (delegs s)(ref_id r \<mapsto> d\<lparr>mClient := None\<rparr>)\<rparr>
           | Some k \<Rightarrow> send_timer_msg (MsgTimerRemove k r)
               (s\<lparr>delegs := (delegs s)(ref_id r \<mapsto> d\<lparr>mClient := None, mContainer := None\<rparr>)\<rparr>)))"

text \<open>\<^verbatim>\<open>LocTimer::stop\<close>.\<close>

definition timer_stop :: "nat \<Rightarrow> timer_sys \<Rightarrow> bool \<times> timer_sys" where
  "timer_stop c s =
     (case mTimer s c of
        None \<Rightarrow> (False, s)
      | Some r \<Rightarrow> (True, destroy_locked r (s\<lparr>mTimer := (mTimer s)(c := None)\<rparr>)))"

text \<open>\<^verbatim>\<open>LocTimerDelegate::expire\<close>: stop the client first, call it back only if it was running.\<close>

definition delegate_expire :: "timer_ref \<Rightarrow> timer_sys \<Rightarrow> timer_sys" where
  "delegate_expire r s =
     (case delegs s (ref_id r) of
        None \<Rightarrow> s\<lparr>uaf := True\<rparr>
      | Some d \<Rightarrow>
          (case mClient d of
             None \<Rightarrow> s
           | Some c \<Rightarrow>
               (case timer_stop c s of
                  (True, s') \<Rightarrow> s'\<lparr>fired := fired s' @ [c]\<rparr>
                | (False, s') \<Rightarrow> s')))"

section \<open>Containers\<close>

definition get_soonest_timer :: "bool \<Rightarrow> timer_sys \<Rightarrow> timer_ref option" where
  "get_soonest_timer k s = heap_peek (mTree (conts s k))"

text \<open>\<open>timerfd_settime\<close> with an absolute time: a zero value disarms.\<close>

definition settime_value :: "timespec \<Rightarrow> timespec option" where
  "settime_value t = (if tv_sec t = 0 \<and> tv_nsec t = 0 then None else Some t)"

text \<open>\<^verbatim>\<open>LocTimerContainer::updateSoonestTime\<close>.\<close>

definition update_soonest_time :: "bool \<Rightarrow> timer_ref option \<Rightarrow> timer_sys \<Rightarrow> timer_sys" where
  "update_soonest_time k priorTop s =
     (let curTop = get_soonest_timer k s
      in if curTop \<noteq> priorTop then
           (case curTop of
              None \<Rightarrow> set_cont k ((conts s k)\<lparr>polled := False, dev_armed := None\<rparr>) s
            | Some cur \<Rightarrow>
                if (case priorTop of None \<Rightarrow> True | Some p \<Rightarrow> outRanks delegate_ranks cur p)
                then set_cont k ((conts s k)\<lparr>polled := True,
                       dev_armed := settime_value (mFutureTime cur)\<rparr>) s
                else s)
         else s)"

text \<open>\<^verbatim>\<open>LocTimerContainer::popIfOutRanks\<close>: pop unless the given timer outranks the top.\<close>

definition pop_if_outranks :: "timer_ref \<Rightarrow> bool \<Rightarrow> timer_sys \<Rightarrow> timer_ref option \<times> timer_sys" where
  "pop_if_outranks timer k s =
     (case heap_peek (mTree (conts s k)) of
        None \<Rightarrow> (None, s)
      | Some tp \<Rightarrow>
          if \<not> outRanks delegate_ranks timer tp
          then (let (p, t') = heap_pop delegate_ranks (mTree (conts s k))
                in (p, set_cont k ((conts s k)\<lparr>mTree := t'\<rparr>) s))
          else (None, s))"

text \<open>\<^verbatim>\<open>LocTimerContainer::expire\<close>, run by the poll task when the kernel timer fires.\<close>

definition container_expire :: "bool \<Rightarrow> timer_sys \<Rightarrow> timer_sys" where
  "container_expire k s =
     send_timer_msg (MsgTimerExpire k) (set_cont k ((conts s k)\<lparr>dev_armed := None, polled := False\<rparr>) s)"


subsection \<open>Frames\<close>

lemma conts_send [simp]: "conts (send_timer_msg m s) = conts s"
  by (simp add: send_timer_msg_def)

lemma conts_destroy_locked [simp]: "conts (destroy_locked r s) = conts s"
  by (simp add: destroy_locked_def split: option.split)

lemma conts_delegate_expire [simp]: "conts (delegate_expire r s) = conts s"
  by (simp add: delegate_expire_def timer_stop_def split: option.split)

lemma set_cont_simps [simp]:
  "conts (set_cont k c s) = (conts s)(k := c)"
  "mTimer (set_cont k c s) = mTimer s" "delegs (set_cont k c s) = delegs s"
  "timer_q (set_cont k c s) = timer_q s" "next_id (set_cont k c s) = next_id s"
  "fired (set_cont k c s) = fired s" "uaf (set_cont k c s) = uaf s"
  by (simp_all add: set_cont_def)

lemma send_simps [simp]:
  "mTimer (send_timer_msg m s) = mTimer s" "delegs (send_timer_msg m s) = delegs s"
  "timer_q (send_timer_msg m s) = timer_q s @ [m]" "next_id (send_timer_msg m s) = next_id s"
  "fired (send_timer_msg m s) = fired s" "uaf (send_timer_msg m s) = uaf s"
  by (simp_all add: send_timer_msg_def)

lemma update_soonest_simps [simp]:
  "mTimer (update_soonest_time k p s) = mTimer s" "delegs (update_soonest_time k p s) = delegs s"
  "timer_q (update_soonest_time k p s) = timer_q s" "next_id (update_soonest_time k p s) = next_id s"
  "fired (update_soonest_time k p s) = fired s" "uaf (update_soonest_time k p s) = uaf s"
  "mTree (conts (update_soonest_time k p s) j) = mTree (conts s j)"
  by (auto simp: update_soonest_time_def Let_def split: option.split)

section \<open>The message task\<close>

lemma pop_if_outranks_smaller:
  assumes "pop_if_outranks now k s = (Some r, s')"
  shows "size (node_mset (mTree (conts s' k))) < size (node_mset (mTree (conts s k)))"
  using assms heap_pop_smaller [of delegate_ranks "mTree (conts s k)" r]
  by (auto simp: pop_if_outranks_def split: option.splits if_splits prod.splits)

text \<open>The loop of \<^verbatim>\<open>MsgTimerExpire::proc\<close>; \<open>p\<close> is the timer popped last.\<close>

function expire_loop :: "timer_ref \<Rightarrow> bool \<Rightarrow> timer_ref option \<Rightarrow> timer_sys \<Rightarrow> timer_sys" where
  "expire_loop timerOfNow k p s =
     (case p of
        None \<Rightarrow> s
      | Some timer \<Rightarrow>
          (case pop_if_outranks timerOfNow k (delegate_expire timer s) of
             (p', s') \<Rightarrow> expire_loop timerOfNow k p' s'))"
  by pat_completeness auto

termination
proof (relation "measure (\<lambda>(now, k, p, s). case p of None \<Rightarrow> 0
        | Some _ \<Rightarrow> Suc (size (node_mset (mTree (conts s k)))))", goal_cases)
  case 1
  then show ?case by simp
next
  case (2 now k p s timer p' s')
  then have "pop_if_outranks now k (delegate_expire timer s) = (p', s')" by simp
  with 2(1) show ?case
    using pop_if_outranks_smaller [of now k "delegate_expire timer s" "the p'" s']
    by (cases p') simp_all
qed

declare expire_loop.simps [simp del]

lemma expire_loop_None [simp]: "expire_loop now k None s = s"
  by (simp add: expire_loop.simps)

text \<open>The \<open>proc\<close> methods of the three messages; \<open>now\<close> is the boot time read by the expiry.\<close>

fun timer_msg_proc :: "timespec \<Rightarrow> timer_msg \<Rightarrow> timer_sys \<Rightarrow> timer_sys" where
  "timer_msg_proc now (MsgTimerPush k r) s =
     (let priorTop = get_soonest_timer k s
      in update_soonest_time k priorTop
           (set_cont k ((conts s k)\<lparr>mTree := heap_push delegate_ranks (mTree (conts s k)) r\<rparr>) s))"
| "timer_msg_proc now (MsgTimerRemove k r) s =
     (let priorTop = get_soonest_timer k s;
          (removed, t') = heap_remove delegate_ranks (mTree (conts s k)) r;
          s1 = set_cont k ((conts s k)\<lparr>mTree := t'\<rparr>) s;
          s2 = (if priorTop = removed then update_soonest_time k None s1 else s1)
      in if delegs s2 (ref_id r) = None then s2\<lparr>uaf := True\<rparr>
         else s2\<lparr>delegs := (delegs s2)(ref_id r := None)\<rparr>)"
| "timer_msg_proc now (MsgTimerExpire k) s =
     (let timerOfNow = \<lparr>ref_id = 0, mFutureTime = now\<rparr>;
          (p, t') = heap_pop delegate_ranks (mTree (conts s k));
          s1 = set_cont k ((conts s k)\<lparr>mTree := t'\<rparr>) s
      in update_soonest_time k None (expire_loop timerOfNow k p s1))"

section \<open>Steps and reachable states\<close>

text \<open>
  Clients start and stop timers, the kernel fires an armed and polled timer whose time has come,
  and the message task processes the oldest message.  The boot time that a step reads is after
  the first second and leaves room for the longest delay, about fifty days.
\<close>

definition boot_time :: "timespec \<Rightarrow> bool" where
  "boot_time t \<longleftrightarrow> 0 < uint (tv_sec t) \<and> uint (tv_sec t) < 2 ^ 30 \<and> uint (tv_nsec t) < 1000000000"

inductive timer_step :: "timer_sys \<Rightarrow> timer_sys \<Rightarrow> bool" where
  step_start: "boot_time now \<Longrightarrow> timer_step s (snd (timer_start c ms wake now s))"
| step_stop: "timer_step s (snd (timer_stop c s))"
| step_fire: "polled (conts s k) \<Longrightarrow> dev_armed (conts s k) = Some t \<Longrightarrow> boot_time now \<Longrightarrow>
    timespec_ns t \<le> timespec_ns now \<Longrightarrow> timer_step s (container_expire k s)"
| step_msg: "timer_q s = m # q \<Longrightarrow> boot_time now \<Longrightarrow>
    timer_step s (timer_msg_proc now m (s\<lparr>timer_q := q\<rparr>))"

inductive timer_reachable :: "timer_sys \<Rightarrow> bool" where
  reach_init: "timer_reachable init_timers"
| reach_step: "timer_reachable s \<Longrightarrow> timer_step s s' \<Longrightarrow> timer_reachable s'"

section \<open>Expiry times\<close>

lemma uint_add_small: "uint a + uint b < 2 ^ 32 \<Longrightarrow> uint (a + b :: u32) = uint a + uint b"
  by (simp add: uint_word_ariths)

lemma uint_mult_small: "uint a * uint b < 2 ^ 32 \<Longrightarrow> uint (a * b :: u32) = uint a * uint b"
  by (simp add: uint_word_ariths)

lemma uint_of_int_small: "0 \<le> i \<Longrightarrow> i < 2 ^ 32 \<Longrightarrow> uint (word_of_int i :: u32) = i"
  by (simp add: uint_word_of_int)

lemma sint_small: "uint a < 2 ^ 31 \<Longrightarrow> sint (a :: u32) = uint a"
  using sint_diff_31 [of a 0] by simp

lemma ns_carry:
  fixes q r :: int
  assumes "S = s + q" and "N = n + r * 1000000" and "q * 1000 + r = m"
  shows "(S + (if b then 1 else 0)) * 1000000000 + (N - (if b then 1000000000 else 0)) =
    s * 1000000000 + n + m * 1000000"
  using assms by (cases b) simp_all

lemma future_time_parts:
  assumes "boot_time now"
  shows "timespec_ns (future_time now ms) = timespec_ns now + uint ms * 1000000"
    and "uint (tv_nsec (future_time now ms)) < 1000000000"
    and "uint (tv_sec (future_time now ms)) < 2 ^ 31"
    and "0 < uint (tv_sec (future_time now ms))"
proof -
  let ?sec = "tv_sec now + ms div 1000" and ?nsec = "tv_nsec now + (ms mod 1000) * 1000000"
  have ms: "0 \<le> uint ms" "uint ms < 2 ^ 32" using uint_lt2p [of ms] by simp_all
  have ds: "uint (ms div 1000) = uint ms div 1000" "uint (ms mod 1000) = uint ms mod 1000"
    by (simp_all add: uint_div uint_mod)
  have now: "0 < uint (tv_sec now)" "uint (tv_sec now) < 2 ^ 30" "uint (tv_nsec now) < 1000000000"
    "0 \<le> uint (tv_nsec now)"
    using assms by (simp_all add: boot_time_def)
  have sec: "uint ?sec = uint (tv_sec now) + uint ms div 1000"
    using ms now ds by (subst uint_add_small) (simp_all, linarith?)
  have "uint ((ms mod 1000) * 1000000) = (uint ms mod 1000) * 1000000"
    using ds by (subst uint_mult_small) (simp_all, linarith?)
  then have nsec: "uint ?nsec = uint (tv_nsec now) + (uint ms mod 1000) * 1000000"
    using now by (subst uint_add_small) (simp_all, linarith?)
  have nlt: "uint ?nsec < 1999000000" "0 \<le> uint ?nsec"
    using nsec now pos_mod_bound [of 1000 "uint ms"] by linarith+
  have sn: "sint ?nsec = uint ?nsec"
    using nlt by (simp add: sint_small)
  have small: "uint ms div 1000 < 4294968" using ms by simp
  have small': "0 \<le> uint ms div 1000" using ms by (simp add: pos_imp_zdiv_nonneg_iff)
  have d: "uint ?nsec div 1000000000 \<le> 1" using nlt by simp
  have carry: "uint ?nsec div 1000000000 = 1" "uint ?nsec mod 1000000000 = uint ?nsec - 1000000000"
    if "1000000000 \<le> uint ?nsec"
    using that nlt by (simp_all add: int_div_pos_eq int_mod_pos_eq)
  have val: "uint (tv_sec (future_time now ms)) = uint ?sec + (if 1000000000 \<le> uint ?nsec then 1 else 0)"
    "uint (tv_nsec (future_time now ms)) = uint ?nsec - (if 1000000000 \<le> uint ?nsec then 1000000000 else 0)"
  proof -
    have "uint (?sec + 1) = uint ?sec + 1"
      using sec now small by (subst uint_add_small) simp_all
    moreover have "uint (word_of_int (uint ?nsec - 1000000000) :: u32) = uint ?nsec - 1000000000"
      if "1000000000 \<le> uint ?nsec"
      using that nlt by (intro uint_of_int_small) simp_all
    ultimately show "uint (tv_sec (future_time now ms)) = uint ?sec + (if 1000000000 \<le> uint ?nsec then 1 else 0)"
      "uint (tv_nsec (future_time now ms)) = uint ?nsec - (if 1000000000 \<le> uint ?nsec then 1000000000 else 0)"
      unfolding future_time_def Let_def sn using carry by simp_all
  qed
  show "timespec_ns (future_time now ms) = timespec_ns now + uint ms * 1000000"
    unfolding timespec_ns_def val by (rule ns_carry [OF sec nsec div_mult_mod_eq])
  show "uint (tv_nsec (future_time now ms)) < 1000000000"
    unfolding val using nlt by simp
  show "uint (tv_sec (future_time now ms)) < 2 ^ 31"
    unfolding val using sec now small by simp
  show "0 < uint (tv_sec (future_time now ms))"
    unfolding val using sec now small' by simp
qed


section \<open>The invariant of the timer service\<close>

text \<open>
  Ghost information: the container and the expiry time each delegate was created with.  A delegate
  is running (its client points to it), stopped (its removal is queued) or deleted; \<open>hot\<close> is the
  delegate the expiry loop holds in its hand, between the pop and the call of \<open>expire\<close>.
\<close>

type_synonym timer_info = "nat \<Rightarrow> bool \<times> timespec"

definition tref :: "timer_info \<Rightarrow> nat \<Rightarrow> timer_ref" where
  "tref info i = \<lparr>ref_id = i, mFutureTime = snd (info i)\<rparr>"

definition tcont :: "timer_info \<Rightarrow> nat \<Rightarrow> bool" where
  "tcont info i = fst (info i)"

abbreviation theap :: "timer_sys \<Rightarrow> bool \<Rightarrow> timer_ref multiset" where
  "theap s k \<equiv> node_mset (mTree (conts s k))"

fun q_ordered :: "timer_msg list \<Rightarrow> bool" where
  "q_ordered [] = True"
| "q_ordered (MsgTimerPush k r # q) = (MsgTimerPush k r \<notin> set q \<and> q_ordered q)"
| "q_ordered (MsgTimerRemove k r # q) =
     (MsgTimerPush k r \<notin> set q \<and> MsgTimerRemove k r \<notin> set q \<and> q_ordered q)"
| "q_ordered (MsgTimerExpire k # q) = q_ordered q"

definition genuine :: "timer_info \<Rightarrow> timer_sys \<Rightarrow> bool \<Rightarrow> timer_ref \<Rightarrow> bool" where
  "genuine info s k r \<longleftrightarrow> r = tref info (ref_id r) \<and> k = tcont info (ref_id r) \<and> ref_valid r \<and>
     delegs s (ref_id r) \<noteq> None"

definition heaps_ok :: "timer_info \<Rightarrow> timer_sys \<Rightarrow> bool" where
  "heaps_ok info s \<longleftrightarrow> (\<forall>k. heap_inv delegate_ranks ref_valid (mTree (conts s k)) \<and>
     (\<forall>r. r \<in># theap s k \<longrightarrow> genuine info s k r \<and> count (theap s k) r = 1 \<and>
        MsgTimerPush k r \<notin> set (timer_q s)))"

definition queue_ok :: "timer_info \<Rightarrow> timer_sys \<Rightarrow> bool" where
  "queue_ok info s \<longleftrightarrow> q_ordered (timer_q s) \<and>
     (\<forall>k r. MsgTimerPush k r \<in> set (timer_q s) \<or> MsgTimerRemove k r \<in> set (timer_q s) \<longrightarrow>
        genuine info s k r)"

definition deleg_ok :: "timer_info \<Rightarrow> nat option \<Rightarrow> timer_sys \<Rightarrow> nat \<Rightarrow> delegate_obj \<Rightarrow> bool" where
  "deleg_ok info hot s i d \<longleftrightarrow> i < next_id s \<and> ref_valid (tref info i) \<and>
     (case mClient d of
        Some c \<Rightarrow> mContainer d = Some (tcont info i) \<and> mTimer s c = Some (tref info i) \<and>
          MsgTimerRemove (tcont info i) (tref info i) \<notin> set (timer_q s) \<and>
          (tref info i \<in># theap s (tcont info i) \<or>
           MsgTimerPush (tcont info i) (tref info i) \<in> set (timer_q s) \<or> hot = Some i)
      | None \<Rightarrow> mContainer d = None \<and> MsgTimerRemove (tcont info i) (tref info i) \<in> set (timer_q s))"

definition delegs_ok :: "timer_info \<Rightarrow> nat option \<Rightarrow> timer_sys \<Rightarrow> bool" where
  "delegs_ok info hot s \<longleftrightarrow> (\<forall>i d. delegs s i = Some d \<longrightarrow> deleg_ok info hot s i d)"

definition clients_ok :: "timer_sys \<Rightarrow> bool" where
  "clients_ok s \<longleftrightarrow> (\<forall>c r. mTimer s c = Some r \<longrightarrow>
     (\<exists>d. delegs s (ref_id r) = Some d \<and> mClient d = Some c))"

definition hot_ok :: "timer_info \<Rightarrow> nat option \<Rightarrow> timer_sys \<Rightarrow> bool" where
  "hot_ok info hot s \<longleftrightarrow> (\<forall>i. hot = Some i \<longrightarrow> delegs s i \<noteq> None \<and>
     tref info i \<notin># theap s (tcont info i) \<and>
     MsgTimerPush (tcont info i) (tref info i) \<notin> set (timer_q s))"

definition timer_ok :: "timer_info \<Rightarrow> nat option \<Rightarrow> timer_sys \<Rightarrow> bool" where
  "timer_ok info hot s \<longleftrightarrow> \<not> uaf s \<and> heaps_ok info s \<and> queue_ok info s \<and> delegs_ok info hot s \<and>
     clients_ok s \<and> hot_ok info hot s"

lemmas timer_ok_defs = timer_ok_def heaps_ok_def queue_ok_def delegs_ok_def clients_ok_def hot_ok_def

lemma ref_id_tref [simp]: "ref_id (tref info i) = i"
  by (simp add: tref_def)

lemma tref_eq_iff [simp]: "tref info i = tref info j \<longleftrightarrow> i = j"
  by (auto simp: tref_def)

lemma genuineD: "genuine info s k r \<Longrightarrow> r = tref info (ref_id r) \<and> k = tcont info (ref_id r)"
  by (simp add: genuine_def)

lemma q_ordered_snoc [simp]:
  "q_ordered (q @ [MsgTimerPush k r]) \<longleftrightarrow>
     q_ordered q \<and> MsgTimerPush k r \<notin> set q \<and> MsgTimerRemove k r \<notin> set q"
  "q_ordered (q @ [MsgTimerRemove k r]) \<longleftrightarrow> q_ordered q \<and> MsgTimerRemove k r \<notin> set q"
  "q_ordered (q @ [MsgTimerExpire k]) \<longleftrightarrow> q_ordered q"
  by (induction q rule: q_ordered.induct) auto

lemma timer_ok_init: "timer_ok info None init_timers"
  by (simp add: timer_ok_defs init_timers_def empty_container_def heap_inv_def)

lemma deleg_okD: "timer_ok info hot s \<Longrightarrow> delegs s i = Some d \<Longrightarrow> deleg_ok info hot s i d"
  by (simp add: timer_ok_def delegs_ok_def)

lemma next_id_fresh: "timer_ok info hot s \<Longrightarrow> next_id s \<le> i \<Longrightarrow> delegs s i = None"
  by (cases "delegs s i") (auto dest!: deleg_okD simp: deleg_ok_def)

lemma client_running:
  assumes "timer_ok info hot s" and "mTimer s c = Some r"
  obtains i where "r = tref info i" and
    "delegs s i = Some \<lparr>mClient = Some c, mContainer = Some (tcont info i)\<rparr>"
proof -
  obtain d where d: "delegs s (ref_id r) = Some d" "mClient d = Some c"
    using assms by (auto simp: timer_ok_def clients_ok_def)
  then have "deleg_ok info hot s (ref_id r) d"
    using assms(1) by (intro deleg_okD)
  with d assms have "mContainer d = Some (tcont info (ref_id r))" "r = tref info (ref_id r)"
    by (auto simp: deleg_ok_def)
  with d show ?thesis
    using that [of "ref_id r"] by (cases d) simp
qed

text \<open>Stopping a running client: the delegate loses its client and its removal is queued.\<close>

lemma timer_stop_Some:
  assumes "timer_ok info hot s" and "mTimer s c = Some r"
  obtains i where "r = tref info i" and
    "delegs s i = Some \<lparr>mClient = Some c, mContainer = Some (tcont info i)\<rparr>" and
    "timer_stop c s = (True, send_timer_msg (MsgTimerRemove (tcont info i) (tref info i))
       (s\<lparr>mTimer := (mTimer s)(c := None),
          delegs := (delegs s)(i \<mapsto> \<lparr>mClient = None, mContainer = None\<rparr>)\<rparr>))"
  by (rule client_running [OF assms]) (use that assms(2) in \<open>simp add: timer_stop_def destroy_locked_def\<close>)

lemma timer_ok_stop:
  assumes ok: "timer_ok info hot s"
  shows "timer_ok info hot (snd (timer_stop c s))"
proof (cases "mTimer s c")
  case None
  with ok show ?thesis by (simp add: timer_stop_def)
next
  case (Some r)
  obtain i where r: "r = tref info i" and
    i: "delegs s i = Some \<lparr>mClient = Some c, mContainer = Some (tcont info i)\<rparr>" and
    eq: "timer_stop c s = (True, send_timer_msg (MsgTimerRemove (tcont info i) (tref info i))
       (s\<lparr>mTimer := (mTimer s)(c := None),
          delegs := (delegs s)(i \<mapsto> \<lparr>mClient = None, mContainer = None\<rparr>)\<rparr>))"
    by (rule timer_stop_Some [OF ok Some])
  have di: "deleg_ok info hot s i \<lparr>mClient = Some c, mContainer = Some (tcont info i)\<rparr>"
    using ok i by (rule deleg_okD)
  have other: "deleg_ok info hot s j d \<and> mClient d \<noteq> Some c" if "delegs s j = Some d" "j \<noteq> i" for j d
  proof -
    have "deleg_ok info hot s j d" using ok that(1) by (rule deleg_okD)
    with that Some r show ?thesis by (auto simp: deleg_ok_def)
  qed
  show ?thesis
    using ok i di Some r
    apply (simp add: eq timer_ok_def)
    apply (intro conjI)
    subgoal by (simp add: heaps_ok_def genuine_def)
    subgoal by (auto simp add: queue_ok_def genuine_def deleg_ok_def)
    subgoal by (auto simp: delegs_ok_def deleg_ok_def dest!: other split: option.splits)
    subgoal by (fastforce simp: clients_ok_def)
    subgoal by (auto simp: hot_ok_def)
    done
qed


text \<open>Starting a client extends the ghost information by the new delegate.\<close>

lemma genuine_update:
  "genuine info s k r \<Longrightarrow> ref_id r \<noteq> n \<Longrightarrow> genuine (info(n := x)) s k r"
  by (auto simp: genuine_def tref_def tcont_def)

lemma timer_ok_alive_old:
  assumes "timer_ok info hot s" and "genuine info s k r"
  shows "ref_id r < next_id s"
  using assms next_id_fresh [of info hot s "ref_id r"] by (meson genuine_def not_less)

lemma timer_ok_start:
  assumes ok: "timer_ok info None s" and now: "boot_time now"
  shows "\<exists>info'. timer_ok info' None (snd (timer_start c ms wake now s))"
proof (cases "mTimer s c")
  case (Some r)
  with ok show ?thesis by (auto simp: timer_start_def)
next
  case None
  define n where "n = next_id s"
  define info' where "info' = info(n := (wake, future_time now ms))"
  have old: "tref info' j = tref info j \<and> tcont info' j = tcont info j" if "j \<noteq> n" for j
    using that by (simp add: info'_def tref_def tcont_def)
  have new: "tref info' n = \<lparr>ref_id = n, mFutureTime = future_time now ms\<rparr>" "tcont info' n = wake"
    by (simp_all add: info'_def tref_def tcont_def)
  have valid: "ref_valid (tref info' n)"
    using future_time_parts [OF now] by (simp add: new ref_valid_def)
  have fresh: "delegs s n = None"
    using ok by (simp add: next_id_fresh n_def)
  let ?d = "\<lparr>mClient = Some c, mContainer = Some wake\<rparr>"
  define s' where "s' = send_timer_msg (MsgTimerPush wake (tref info' n))
    (s\<lparr>delegs := (delegs s)(n \<mapsto> ?d), mTimer := (mTimer s)(c := Some (tref info' n)), next_id := n + 1\<rparr>)"
  have eq: "snd (timer_start c ms wake now s) = s'"
    using None by (simp add: timer_start_def Let_def s'_def n_def new [unfolded n_def] del: fun_upd_apply)
  have gen: "genuine info' s' k r \<and> ref_id r \<noteq> n" if "genuine info s k r" for k r
    using that timer_ok_alive_old [OF ok that] fresh
    by (auto simp: genuine_def n_def s'_def old)
  have q: "timer_q s' = timer_q s @ [MsgTimerPush wake (tref info' n)]" "conts s' = conts s"
    by (simp_all add: s'_def)
  have unseen: "MsgTimerPush k (tref info' n) \<notin> set (timer_q s)" "MsgTimerRemove k (tref info' n) \<notin> set (timer_q s)"
    "tref info' n \<notin># theap s k" for k
    using ok gen ref_id_tref [of info' n] unfolding timer_ok_def queue_ok_def heaps_ok_def by metis+
  have dOld: "deleg_ok info' None s' j d" if "delegs s j = Some d" for j d
  proof -
    have "deleg_ok info None s j d" "j \<noteq> n"
      using deleg_okD [OF ok that] that fresh by auto
    then show ?thesis
      using None by (auto simp: deleg_ok_def q old s'_def n_def split: option.splits)
  qed
  have dNew: "deleg_ok info' None s' n ?d"
    using valid unseen by (auto simp: deleg_ok_def s'_def new)
  have "timer_ok info' None s'"
    using ok unfolding timer_ok_def
    apply (elim conjE)
    apply (intro conjI)
    subgoal by (simp add: s'_def)
    subgoal using gen unseen by (auto simp: heaps_ok_def q)
    subgoal using gen unseen valid by (auto simp: queue_ok_def q) (auto simp: genuine_def new s'_def)
    subgoal using dOld dNew by (auto simp: delegs_ok_def s'_def)
    subgoal using None fresh by (auto simp: clients_ok_def s'_def) fastforce
    subgoal by (simp add: hot_ok_def)
    done
  with eq show ?thesis by auto
qed


subsection \<open>Heap operations of the containers\<close>

lemma heap_pop_Some:
  assumes "heap_pop ranks t = (Some r, t')"
  shows "heap_peek t = Some r" and "node_mset t' = node_mset t - {#r#}" and "r \<in># node_mset t"
proof -
  show pk: "heap_peek t = Some r"
    using assms node_pop_fst [of ranks t] by (simp add: heap_pop_eq)
  show "node_mset t' = node_mset t - {#r#}"
    using assms pk node_mset_pop_diff [of ranks t] by (simp add: heap_pop_eq)
  show "r \<in># node_mset t"
    using pk by (cases t) (simp_all add: heap_peek_def)
qed

lemma heap_pop_None: "heap_pop ranks t = (None, t') \<Longrightarrow> t = NullNode \<and> t' = NullNode"
  using node_pop_fst [of ranks t] by (cases t) (simp_all add: heap_pop_eq heap_peek_def)

text \<open>Only the trees of the containers matter for the invariant.\<close>

lemma timer_ok_cong:
  assumes "\<And>k. mTree (conts s' k) = mTree (conts s k)" and "mTimer s' = mTimer s"
    and "delegs s' = delegs s" and "next_id s' = next_id s" and "uaf s' = uaf s"
    and "q_ordered (timer_q s') = q_ordered (timer_q s)"
    and "\<And>k r. MsgTimerPush k r \<in> set (timer_q s') \<longleftrightarrow> MsgTimerPush k r \<in> set (timer_q s)"
    and "\<And>k r. MsgTimerRemove k r \<in> set (timer_q s') \<longleftrightarrow> MsgTimerRemove k r \<in> set (timer_q s)"
  shows "timer_ok info hot s' = timer_ok info hot s"
  by (simp only: timer_ok_defs genuine_def deleg_ok_def assms)

lemma heaps_okD:
  assumes "timer_ok info hot s"
  shows "heap_inv delegate_ranks ref_valid (mTree (conts s k))"
    and "r \<in># theap s k \<Longrightarrow> genuine info s k r" and "r \<in># theap s k \<Longrightarrow> count (theap s k) r = 1"
    and "r \<in># theap s k \<Longrightarrow> MsgTimerPush k r \<notin> set (timer_q s)"
  using assms by (simp_all add: timer_ok_def heaps_ok_def)

lemma timer_ok_pop:
  assumes ok: "timer_ok info None s" and pop: "heap_pop delegate_ranks (mTree (conts s k)) = (Some r, mTree c)"
  shows "r = tref info (ref_id r)" and "k = tcont info (ref_id r)"
    and "timer_ok info (Some (ref_id r)) (set_cont k c s)"
proof -
  let ?i = "ref_id r" and ?s = "set_cont k c s"
  note pp = heap_pop_Some [OF pop]
  have gen: "genuine info s k r" and cnt: "count (theap s k) r = 1"
    using heaps_okD [OF ok] pp(3) by simp_all
  show r: "r = tref info ?i" and k: "k = tcont info ?i"
    using genuineD [OF gen] by simp_all
  have gone: "r \<notin># theap ?s k" and keep: "\<And>x j. x \<noteq> r \<Longrightarrow> x \<in># theap ?s j \<longleftrightarrow> x \<in># theap s j"
    using cnt pp(2) by (auto simp: in_diff_count not_in_iff)
  have same: "genuine info ?s j x = genuine info s j x" for j x
    by (simp add: genuine_def)
  have cnts: "x \<in># theap ?s j \<Longrightarrow> count (theap ?s j) x = count (theap s j) x" for x j
    using gone pp(2) by auto
  have hi: "heap_inv delegate_ranks ref_valid (mTree (conts ?s j))" for j
    using heaps_okD(1) [OF ok] timer_rank.heap_inv_pop [of "mTree (conts s k)"] pop by auto
  have sub: "x \<in># theap ?s j \<Longrightarrow> x \<in># theap s j" for x j
    using keep [of x j] pp(3) by (cases "x = r"; cases "j = k") (blast | simp)+
  have dok: "deleg_ok info (Some ?i) ?s j d" if "delegs s j = Some d" for j d
  proof (cases "j = ?i")
    case True
    with deleg_okD [OF ok that] show ?thesis by (auto simp: deleg_ok_def split: option.splits)
  next
    case False
    then have "tref info j \<noteq> r" using r by (metis tref_eq_iff)
    with deleg_okD [OF ok that] keep show ?thesis
      by (auto simp: deleg_ok_def simp del: set_cont_simps(1) split: option.splits)
  qed
  show "timer_ok info (Some ?i) ?s"
    using ok unfolding timer_ok_def
    apply (elim conjE)
    apply (intro conjI)
    subgoal by simp
    subgoal unfolding heaps_ok_def same set_cont_simps(4) using hi sub cnts heaps_okD [OF ok] by metis
    subgoal by (simp add: queue_ok_def same)
    subgoal using dok by (simp add: delegs_ok_def)
    subgoal by (simp add: clients_ok_def)
    subgoal using gone gen heaps_okD(4) [OF ok pp(3)] unfolding hot_ok_def r [symmetric] k [symmetric]
      by (simp add: genuine_def r [symmetric] k [symmetric])
    done
qed

text \<open>The expiry of the delegate in hand.\<close>

lemma timer_ok_expire:
  assumes ok: "timer_ok info (Some i) s"
  shows "timer_ok info None (delegate_expire (tref info i) s)"
proof -
  obtain d where d: "delegs s i = Some d"
    using ok by (auto simp: timer_ok_def hot_ok_def)
  have cool: "timer_ok info None s'"
    if "timer_ok info (Some i) s'" "delegs s' i = Some d'" "mClient d' = None" for s' d'
  proof -
    have "deleg_ok info None s' j e" if j: "delegs s' j = Some e" for j e
      using deleg_okD [OF \<open>timer_ok info (Some i) s'\<close> j] that j
        \<open>delegs s' i = Some d'\<close> \<open>mClient d' = None\<close>
      by (cases "i = j") (auto simp: deleg_ok_def split: option.splits)
    with that(1) show ?thesis
      by (simp add: timer_ok_def delegs_ok_def hot_ok_def)
  qed
  show ?thesis
  proof (cases "mClient d")
    case None
    with d cool [OF ok] show ?thesis by (simp add: delegate_expire_def)
  next
    case (Some c)
    with deleg_okD [OF ok d] have r: "mTimer s c = Some (tref info i)"
      by (simp add: deleg_ok_def)
    obtain s' where s': "timer_stop c s = (True, s')" "delegs s' i = Some \<lparr>mClient = None, mContainer = None\<rparr>"
      by (rule timer_stop_Some [OF ok r]) simp
    have "timer_ok info (Some i) s'"
      using timer_ok_stop [OF ok, of c] s' by simp
    then have "timer_ok info None s'"
      using s' cool by force
    then have "timer_ok info None (s'\<lparr>fired := fired s' @ [c]\<rparr>)"
      by (subst timer_ok_cong) simp_all
    with d Some s' show ?thesis by (simp add: delegate_expire_def)
  qed
qed


lemma pop_if_outranks_cases:
  assumes "pop_if_outranks now k s = (p, s')"
  obtains (none) "p = None" "s' = s"
      "\<And>tp. heap_peek (mTree (conts s k)) = Some tp \<Longrightarrow> outRanks delegate_ranks now tp"
  | (some) r t where "p = Some r" "heap_pop delegate_ranks (mTree (conts s k)) = (Some r, t)"
      "s' = set_cont k ((conts s k)\<lparr>mTree := t\<rparr>) s" "\<not> outRanks delegate_ranks now r"
proof (cases "heap_peek (mTree (conts s k))")
  case None
  with assms none show ?thesis by (auto simp: pop_if_outranks_def)
next
  case (Some tp)
  obtain q t where q: "heap_pop delegate_ranks (mTree (conts s k)) = (q, t)" by fastforce
  with Some have "q = Some tp"
    using node_pop_fst [of delegate_ranks "mTree (conts s k)"] by (simp add: heap_pop_eq)
  with assms Some q have "if outRanks delegate_ranks now tp then p = None \<and> s' = s
      else p = Some tp \<and> s' = set_cont k ((conts s k)\<lparr>mTree := t\<rparr>) s"
    by (auto simp: pop_if_outranks_def split: if_splits)
  with Some q \<open>q = Some tp\<close> show ?thesis
    using none some [of tp t] by (cases "outRanks delegate_ranks now tp") simp_all
qed

text \<open>A loop rule: what the expiry of one delegate and a pop keep, the whole loop keeps.\<close>

lemma expire_loop_rule:
  assumes "P p s"
    and "\<And>r s p' s'. P (Some r) s \<Longrightarrow> pop_if_outranks now k (delegate_expire r s) = (p', s') \<Longrightarrow> P p' s'"
  shows "P None (expire_loop now k p s)"
  using assms
proof (induction now k p s rule: expire_loop.induct)
  case (1 now k p s)
  show ?case
  proof (cases p)
    case None
    with 1 show ?thesis by simp
  next
    case (Some r)
    obtain p' s' where next': "pop_if_outranks now k (delegate_expire r s) = (p', s')" by fastforce
    then have "P p' s'" using 1 Some by blast
    then have "P None (expire_loop now k p' s')"
      using 1 Some next' by (metis (no_types, lifting))
    with Some next' show ?thesis by (subst expire_loop.simps) simp
  qed
qed

lemma timer_ok_expire_loop:
  assumes "timer_ok info (map_option ref_id p) s" and "\<And>r. p = Some r \<Longrightarrow> r = tref info (ref_id r)"
  shows "timer_ok info None (expire_loop now k p s)"
proof -
  let ?P = "\<lambda>p s. timer_ok info (map_option ref_id p) s \<and> (\<forall>r. p = Some r \<longrightarrow> r = tref info (ref_id r))"
  have "?P None (expire_loop now k p s)"
  proof (rule expire_loop_rule [where P = ?P])
    show "?P p s" using assms by simp
  next
    fix r s p' s'
    assume P: "?P (Some r) s" and pop: "pop_if_outranks now k (delegate_expire r s) = (p', s')"
    have ok: "timer_ok info None (delegate_expire r s)"
      using P timer_ok_expire [of info "ref_id r" s] by simp
    from pop show "?P p' s'"
    proof (cases rule: pop_if_outranks_cases)
      case none
      with ok show ?thesis by simp
    next
      case (some x t)
      then show ?thesis
        by (simp add: timer_ok_pop(3) [OF ok] timer_ok_pop(1) [OF ok, of k x "(conts (delegate_expire r s) k)\<lparr>mTree := t\<rparr>", symmetric])
    qed
  qed
  then show ?thesis by simp
qed

lemma timer_ok_update [simp]: "timer_ok info hot (update_soonest_time k p s) = timer_ok info hot s"
  by (rule timer_ok_cong) simp_all

lemma q_ordered_tail: "q_ordered (m # q) \<Longrightarrow> q_ordered q"
  by (cases m) simp_all

lemma timer_ok_proc_expire:
  assumes ok: "timer_ok info None s" and q: "timer_q s = MsgTimerExpire k # q"
  shows "timer_ok info None (timer_msg_proc now (MsgTimerExpire k) (s\<lparr>timer_q := q\<rparr>))"
proof -
  let ?s = "s\<lparr>timer_q := q\<rparr>"
  have ok': "timer_ok info None ?s"
    using ok q by (subst timer_ok_cong [where s = s]) simp_all
  obtain p t where pop: "heap_pop delegate_ranks (mTree (conts s k)) = (p, t)" by fastforce
  let ?s1 = "set_cont k ((conts s k)\<lparr>mTree := t\<rparr>) ?s"
  have "timer_ok info (map_option ref_id p) ?s1 \<and> (\<forall>r. p = Some r \<longrightarrow> r = tref info (ref_id r))"
  proof (cases p)
    case None
    then have "timer_ok info None ?s1 = timer_ok info None ?s"
      using heap_pop_None [of delegate_ranks "mTree (conts s k)" t] pop by (intro timer_ok_cong) auto
    with ok' None show ?thesis by simp
  next
    case (Some r)
    with pop timer_ok_pop [OF ok', of k r "(conts s k)\<lparr>mTree := t\<rparr>"] show ?thesis by simp
  qed
  then show ?thesis
    using pop timer_ok_expire_loop [of info p ?s1] by simp
qed


lemma queue_okD:
  assumes "timer_ok info hot s"
  shows "q_ordered (timer_q s)"
    and "MsgTimerPush k r \<in> set (timer_q s) \<or> MsgTimerRemove k r \<in> set (timer_q s) \<Longrightarrow> genuine info s k r"
  using assms by (auto simp: timer_ok_def queue_ok_def)

lemma timer_ok_proc_push:
  assumes ok: "timer_ok info None s" and q: "timer_q s = MsgTimerPush k r # q"
  shows "timer_ok info None (timer_msg_proc now (MsgTimerPush k r) (s\<lparr>timer_q := q\<rparr>))"
proof -
  define t where "t = heap_push delegate_ranks (mTree (conts s k)) r"
  define s' where "s' = set_cont k ((conts s k)\<lparr>mTree := t\<rparr>) (s\<lparr>timer_q := q\<rparr>)"
  have t: "node_mset t = add_mset r (theap s k)"
    by (simp add: t_def heap_push_eq)
  have gen: "genuine info s k r" and qo: "MsgTimerPush k r \<notin> set q" "q_ordered q"
    using queue_okD(2) [OF ok, of k r] queue_okD(1) [OF ok] q by auto
  have new: "r \<notin># theap s k"
    using heaps_okD(4) [OF ok, of r k] q by auto
  have same: "genuine info s' j x = genuine info s j x" for j x
    by (simp add: genuine_def s'_def)
  have tq: "timer_q s' = q" by (simp add: s'_def)
  have hp: "theap s' k = add_mset r (theap s k)" "j \<noteq> k \<Longrightarrow> theap s' j = theap s j" for j
    by (simp_all add: s'_def t)
  have gone: "r \<notin># theap s j" if "j \<noteq> k" for j
    using heaps_okD(2) [OF ok, of r j] gen that by (auto dest!: genuineD)
  have hi: "heap_inv delegate_ranks ref_valid (mTree (conts s' j))" for j
    using heaps_okD(1) [OF ok] gen timer_rank.heap_inv_push [of "mTree (conts s k)" r]
    by (simp add: s'_def t_def genuine_def)
  have hprops: "genuine info s' j x \<and> count (theap s' j) x = 1 \<and> MsgTimerPush j x \<notin> set (timer_q s')"
    if "x \<in># theap s' j" for x j
  proof (cases "x = r")
    case True
    with that gone [of j] hp(2) [of j] have "j = k" by metis
    with True gen qo new show ?thesis by (simp add: same hp tq count_eq_zero_iff)
  next
    case False
    with that have "x \<in># theap s j" "count (theap s' j) x = count (theap s j) x"
      by (cases "j = k"; simp add: hp)+
    with heaps_okD(2-4) [OF ok, of x j] q show ?thesis by (simp add: same tq)
  qed
  have dok: "deleg_ok info None s' j d" if "delegs s j = Some d" for j d
    using deleg_okD [OF ok that] q hp gen genuineD [OF gen]
    by (cases "tref info j = r"; cases "tcont info j = k")
      (auto simp: deleg_ok_def s'_def t split: option.splits)
  have "timer_ok info None s'"
    using ok unfolding timer_ok_def
    apply (elim conjE)
    apply (intro conjI)
    subgoal by (simp add: s'_def)
    subgoal using hi hprops by (simp add: heaps_ok_def)
    subgoal using qo q by (auto simp: queue_ok_def same) (auto simp: s'_def)
    subgoal using dok by (simp add: delegs_ok_def s'_def)
    subgoal by (simp add: clients_ok_def s'_def)
    subgoal by (simp add: hot_ok_def)
    done
  then show ?thesis by (simp add: s'_def t_def)
qed


lemma heap_remove_cases:
  assumes "heap_inv ranks valid t" and "heap_remove ranks t r = (p, t')" and "count (node_mset t) r \<le> 1"
    and "loc_rankable ranks valid"
  shows "p = (if r \<in># node_mset t then Some r else None)" and "node_mset t' = node_mset t - {#r#}"
    and "heap_inv ranks valid t'"
proof -
  show p: "p = (if r \<in># node_mset t then Some r else None)"
  proof (cases "r \<in># node_mset t")
    case True
    then have "fst (node_remove ranks t r) = Some r"
      using assms(1) by (intro loc_rankable.remove_finds [OF assms(4)]) (simp_all add: heap_inv_def)
    with True assms(2) show ?thesis by (simp add: heap_remove_eq)
  next
    case False
    with node_remove_mset [of ranks t r] assms(2) show ?thesis by (auto simp: heap_remove_eq)
  qed
  show "node_mset t' = node_mset t - {#r#}"
  proof -
    have "node_mset t' = node_mset t - (if p = None then {#} else {#r#})"
      using node_remove_mset [of ranks t r] assms(2) by (metis heap_remove_eq fst_conv snd_conv)
    with p show ?thesis by (simp add: diff_single_trivial)
  qed
  show "heap_inv ranks valid t'"
    using loc_rankable.heap_inv_remove [OF assms(4,1), of r] assms(2) by simp
qed

lemma timer_ok_proc_remove:
  assumes ok: "timer_ok info None s" and q: "timer_q s = MsgTimerRemove k r # q"
  shows "timer_ok info None (timer_msg_proc now (MsgTimerRemove k r) (s\<lparr>timer_q := q\<rparr>))"
proof -
  obtain p t where rem: "heap_remove delegate_ranks (mTree (conts s k)) r = (p, t)" by fastforce
  have gen: "genuine info s k r" and qo: "MsgTimerPush k r \<notin> set q" "MsgTimerRemove k r \<notin> set q" "q_ordered q"
    using queue_okD(2) [OF ok, of k r] queue_okD(1) [OF ok] q by auto
  have rk: "r = tref info (ref_id r)" "k = tcont info (ref_id r)" using genuineD [OF gen] by simp_all
  obtain d where d: "delegs s (ref_id r) = Some d" using gen by (auto simp: genuine_def)
  have stopped: "mClient d = None"
    using deleg_okD [OF ok d] q rk by (auto simp: deleg_ok_def split: option.splits)
  have le1: "count (theap s k) r \<le> 1"
    using heaps_okD(3) [OF ok, of r k] by (cases "r \<in># theap s k") (simp_all add: not_in_iff)
  note rm = heap_remove_cases [OF heaps_okD(1) [OF ok] rem le1 timer_rank.loc_rankable_axioms]
  define s' where "s' = (set_cont k ((conts s k)\<lparr>mTree := t\<rparr>) (s\<lparr>timer_q := q\<rparr>))\<lparr>delegs := (delegs s)(ref_id r := None)\<rparr>"
  have tq: "timer_q s' = q" by (simp add: s'_def)
  have hp: "theap s' k = theap s k - {#r#}" "j \<noteq> k \<Longrightarrow> theap s' j = theap s j" for j
    by (simp_all add: s'_def rm)
  have gone: "r \<notin># theap s' j" for j
  proof (cases "j = k")
    case True
    with le1 show ?thesis by (simp add: hp not_in_iff)
  next
    case False
    then show ?thesis using heaps_okD(2) [OF ok, of r j] hp(2) [of j] rk(2) by (metis genuineD)
  qed
  have only: "x = r" if "genuine info s j x" "ref_id x = ref_id r" for x j
    using that rk(1) genuineD [OF that(1)] by metis
  have same: "genuine info s' j x = genuine info s j x" if "x \<noteq> r" for j x
    using that only [of j x] by (auto simp: genuine_def s'_def)
  have hprops: "genuine info s' j x \<and> count (theap s' j) x = 1 \<and> MsgTimerPush j x \<notin> set (timer_q s')"
    if "x \<in># theap s' j" for x j
  proof -
    have "x \<noteq> r" using that gone by auto
    then have eqc: "count (theap s' j) x = count (theap s j) x"
      using hp(1) hp(2) [of j] by (cases "j = k") simp_all
    with that have "x \<in># theap s j" by (metis count_eq_zero_iff)
    with eqc heaps_okD(2-4) [OF ok, of x j] q \<open>x \<noteq> r\<close> show ?thesis by (simp add: same tq)
  qed
  have hi: "heap_inv delegate_ranks ref_valid (mTree (conts s' j))" for j
    using heaps_okD(1) [OF ok] rm by (simp add: s'_def)
  have dok: "deleg_ok info None s' j e" if "delegs s j = Some e" "j \<noteq> ref_id r" for j e
  proof -
    have "tref info j \<noteq> r" using that(2) rk(1) by (metis tref_eq_iff)
    then show ?thesis
      using deleg_okD [OF ok that(1)] q hp
      by (cases "tcont info j = k") (auto simp: deleg_ok_def s'_def rm in_diff_other split: option.splits)
  qed
  have qprops: "genuine info s' j x" if "MsgTimerPush j x \<in> set q \<or> MsgTimerRemove j x \<in> set q" for j x
  proof -
    have g: "genuine info s j x" using queue_okD(2) [OF ok, of j x] that q by auto
    then have "x = r \<Longrightarrow> j = k" using rk by (auto dest: genuineD)
    then have "x \<noteq> r" using qo that by auto
    with g show ?thesis by (simp add: same)
  qed
  have "timer_ok info None s'"
    using ok unfolding timer_ok_def
    apply (elim conjE)
    apply (intro conjI)
    subgoal by (simp add: s'_def)
    subgoal using hi hprops by (simp add: heaps_ok_def)
    subgoal using qo qprops by (simp add: queue_ok_def) (simp add: s'_def)
    subgoal using dok by (simp add: delegs_ok_def) (simp add: s'_def)
    subgoal using d stopped by (auto simp: clients_ok_def s'_def) fastforce
    subgoal by (simp add: hot_ok_def)
    done
  moreover have "timer_ok info None (timer_msg_proc now (MsgTimerRemove k r) (s\<lparr>timer_q := q\<rparr>)) = timer_ok info None s'"
    by (rule timer_ok_cong) (simp_all add: rem d s'_def get_soonest_timer_def Let_def)
  ultimately show ?thesis by simp
qed


inductive_cases timer_stepE: "timer_step s s'"

lemma timer_ok_step:
  assumes ok: "timer_ok info None s" and step: "timer_step s s'"
  shows "\<exists>info'. timer_ok info' None s'"
  using step
proof (cases rule: timer_step.cases)
  case (step_start now c ms wake)
  with timer_ok_start [OF ok] show ?thesis by simp
next
  case (step_stop c)
  with timer_ok_stop [OF ok] show ?thesis by auto
next
  case (step_fire k t now)
  have "timer_ok info None (container_expire k s)"
    using ok by (subst timer_ok_cong [where s = s]) (simp_all add: container_expire_def)
  with step_fire show ?thesis by auto
next
  case (step_msg m q now)
  with ok show ?thesis
    by (cases m) (auto dest: timer_ok_proc_push timer_ok_proc_remove timer_ok_proc_expire simp del: timer_msg_proc.simps)
qed

lemma timer_reachable_ok: "timer_reachable s \<Longrightarrow> \<exists>info. timer_ok info None s"
  by (induction rule: timer_reachable.induct) (auto intro: timer_ok_init dest: timer_ok_step)

section \<open>The wake-up invariant\<close>

definition wake_ok :: "timer_sys \<Rightarrow> bool \<Rightarrow> bool" where
  "wake_ok s k \<longleftrightarrow> (case heap_peek (mTree (conts s k)) of
     None \<Rightarrow> True
   | Some tp \<Rightarrow> MsgTimerExpire k \<in> set (timer_q s) \<or>
       polled (conts s k) \<and> (\<exists>t. dev_armed (conts s k) = Some t \<and> tv_sec t \<le> tv_sec (mFutureTime tp)))"

lemma heap_peek_push:
  "heap_peek (heap_push ranks t x) =
     (case heap_peek t of None \<Rightarrow> Some x | Some d \<Rightarrow> Some (if outRanks ranks x d then x else d))"
  by (cases t) (simp_all add: heap_push_eq heap_peek_def new_node_def node_push_HeapNode Let_def)

lemma heap_peek_remove:
  "heap_peek t \<noteq> Some x \<Longrightarrow> heap_peek (snd (heap_remove ranks t x)) = heap_peek t"
  by (cases t) (auto simp: heap_remove_eq heap_peek_def split: option.split prod.split)

lemma heap_peek_in: "heap_peek t = Some d \<Longrightarrow> d \<in># node_mset t"
  by (cases t) (simp_all add: heap_peek_def)

lemma settime_valid: "ref_valid r \<Longrightarrow> settime_value (mFutureTime r) = Some (mFutureTime r)"
  by (auto simp: settime_value_def ref_valid_def)

text \<open>Updating with no prior top arms the timer for the current top, when there is one.\<close>

lemma wake_ok_update_None:
  assumes "\<And>r. r \<in># theap s k \<Longrightarrow> ref_valid r"
  shows "wake_ok (update_soonest_time k None s) k"
proof (cases "heap_peek (mTree (conts s k))")
  case None
  then show ?thesis by (simp add: wake_ok_def)
next
  case (Some tp)
  then have "ref_valid tp" using assms heap_peek_in by metis
  with Some show ?thesis
    by (simp add: wake_ok_def update_soonest_time_def get_soonest_timer_def Let_def settime_valid)
qed

lemma update_other [simp]: "j \<noteq> k \<Longrightarrow> conts (update_soonest_time k p s) j = conts s j"
  by (auto simp: update_soonest_time_def Let_def split: option.split)

lemma wake_ok_cong:
  "conts s' k = conts s k \<Longrightarrow>
   (MsgTimerExpire k \<in> set (timer_q s) \<Longrightarrow> MsgTimerExpire k \<in> set (timer_q s')) \<Longrightarrow> wake_ok s k \<Longrightarrow> wake_ok s' k"
  by (auto simp: wake_ok_def split: option.splits)


lemma timer_q_expire:
  "timer_q (delegate_expire r s) = timer_q s \<or>
   (\<exists>j x. timer_q (delegate_expire r s) = timer_q s @ [MsgTimerRemove j x])"
  by (auto simp: delegate_expire_def timer_stop_def destroy_locked_def split: option.split)

lemma pop_if_outranks_frame:
  assumes "pop_if_outranks now k s = (p, s')"
  shows "timer_q s' = timer_q s" and "j \<noteq> k \<Longrightarrow> conts s' j = conts s j"
    and "mTimer s' = mTimer s" and "fired s' = fired s"
proof -
  have "timer_q s' = timer_q s \<and> (j \<noteq> k \<longrightarrow> conts s' j = conts s j) \<and> mTimer s' = mTimer s \<and> fired s' = fired s"
    using assms
  proof (cases rule: pop_if_outranks_cases)
    case none
    from none(2) show ?thesis by simp
  next
    case (some r t)
    from some(3) show ?thesis by simp
  qed
  then show "timer_q s' = timer_q s" and "j \<noteq> k \<Longrightarrow> conts s' j = conts s j"
    and "mTimer s' = mTimer s" and "fired s' = fired s" by simp_all
qed

lemma expire_loop_frame:
  shows "MsgTimerExpire j \<in> set (timer_q s) \<Longrightarrow> MsgTimerExpire j \<in> set (timer_q (expire_loop now k p s))"
    and "j \<noteq> k \<Longrightarrow> conts (expire_loop now k p s) j = conts s j"
proof -
  let ?P = "\<lambda>p' s'. (MsgTimerExpire j \<in> set (timer_q s) \<longrightarrow> MsgTimerExpire j \<in> set (timer_q s')) \<and>
    (j \<noteq> k \<longrightarrow> conts s' j = conts s j)"
  have "?P None (expire_loop now k p s)"
  proof (rule expire_loop_rule [where P = ?P])
    fix r s1 p' s'
    assume P: "?P (Some r) s1" and "pop_if_outranks now k (delegate_expire r s1) = (p', s')"
    note fr = pop_if_outranks_frame [OF this(2)]
    have "set (timer_q s1) \<subseteq> set (timer_q s')"
      using timer_q_expire [of r s1] fr(1) by auto
    then show "?P p' s'" using P fr(2) [of j] by auto
  qed simp
  then show "MsgTimerExpire j \<in> set (timer_q s) \<Longrightarrow> MsgTimerExpire j \<in> set (timer_q (expire_loop now k p s))"
    and "j \<noteq> k \<Longrightarrow> conts (expire_loop now k p s) j = conts s j" by simp_all
qed

text \<open>When the loop ends, the heap is empty or its top lies in a later second than now.\<close>

lemma expire_loop_done:
  assumes "p = None \<Longrightarrow> mTree (conts s k) = NullNode"
  shows "case heap_peek (mTree (conts (expire_loop now k p s) k)) of
      None \<Rightarrow> True | Some tp \<Rightarrow> outRanks delegate_ranks now tp"
proof -
  let ?P = "\<lambda>(p' :: timer_ref option) s'. p' = None \<longrightarrow> (case heap_peek (mTree (conts s' k)) of
      None \<Rightarrow> True | Some tp \<Rightarrow> outRanks delegate_ranks now tp)"
  have "?P None (expire_loop now k p s)"
  proof (rule expire_loop_rule [where P = ?P])
    show "?P p s" using assms by (auto simp: heap_peek_def)
  next
    fix r s1 p' s'
    assume pop: "pop_if_outranks now k (delegate_expire r s1) = (p', s')"
    show "?P p' s'"
      using pop by (cases rule: pop_if_outranks_cases) (auto split: option.split)
  qed
  then show ?thesis by simp
qed

lemma wake_ok_proc_push:
  assumes ok: "timer_ok info None s" and q: "timer_q s = MsgTimerPush k r # q" and wake: "wake_ok s k"
  shows "wake_ok (timer_msg_proc now (MsgTimerPush k r) (s\<lparr>timer_q := q\<rparr>)) k"
proof -
  have "ref_valid r"
    using queue_okD(2) [OF ok, of k r] q by (simp add: genuine_def)
  then show ?thesis
    using wake q
    by (cases "heap_peek (mTree (conts s k))"; cases "outRanks delegate_ranks r (the (heap_peek (mTree (conts s k))))")
      (auto simp: wake_ok_def update_soonest_time_def get_soonest_timer_def heap_peek_push Let_def settime_valid)
qed

lemma wake_ok_proc_remove:
  assumes ok: "timer_ok info None s" and q: "timer_q s = MsgTimerRemove k r # q" and wake: "wake_ok s k"
  shows "wake_ok (timer_msg_proc now (MsgTimerRemove k r) (s\<lparr>timer_q := q\<rparr>)) k"
proof -
  obtain p t where rem: "heap_remove delegate_ranks (mTree (conts s k)) r = (p, t)" by fastforce
  have le1: "count (theap s k) r \<le> 1"
    using heaps_okD(3) [OF ok, of r k] by (cases "r \<in># theap s k") (simp_all add: not_in_iff)
  note rm = heap_remove_cases [OF heaps_okD(1) [OF ok] rem le1 timer_rank.loc_rankable_axioms]
  let ?s1 = "set_cont k ((conts s k)\<lparr>mTree := t\<rparr>) (s\<lparr>timer_q := q\<rparr>)"
  have valid: "\<And>x. x \<in># theap ?s1 k \<Longrightarrow> ref_valid x"
    using rm(3) by (simp add: heap_inv_def all_valid_def)
  define s2 where "s2 = (if get_soonest_timer k s = p then update_soonest_time k None ?s1 else ?s1)"
  have "wake_ok s2 k"
  proof (cases "get_soonest_timer k s = p")
    case True
    then show ?thesis using wake_ok_update_None [where s = ?s1 and k = k, OF valid] by (simp add: s2_def del: set_cont_simps)
  next
    case False
    have "heap_peek (mTree (conts s k)) \<noteq> Some r"
      using False rm(1) heap_peek_in [of "mTree (conts s k)" r] by (auto simp: get_soonest_timer_def)
    then have "heap_peek t = heap_peek (mTree (conts s k))"
      using heap_peek_remove [of "mTree (conts s k)" r delegate_ranks] rem by simp
    with False wake q show ?thesis by (simp add: s2_def wake_ok_def split: option.splits)
  qed
  moreover have "conts (timer_msg_proc now (MsgTimerRemove k r) (s\<lparr>timer_q := q\<rparr>)) = conts s2"
    "timer_q (timer_msg_proc now (MsgTimerRemove k r) (s\<lparr>timer_q := q\<rparr>)) = timer_q s2"
    by (simp_all add: rem s2_def get_soonest_timer_def Let_def)
  ultimately show ?thesis by (simp only: wake_ok_def)
qed

lemma wake_ok_proc_expire:
  assumes ok: "timer_ok info None s" and q: "timer_q s = MsgTimerExpire k # q"
  shows "wake_ok (timer_msg_proc now (MsgTimerExpire k) (s\<lparr>timer_q := q\<rparr>)) k"
proof -
  have "timer_ok info None (timer_msg_proc now (MsgTimerExpire k) (s\<lparr>timer_q := q\<rparr>))"
    by (rule timer_ok_proc_expire [OF ok q])
  from heaps_okD(1) [OF this, of k] show ?thesis
    by (auto simp: heap_inv_def all_valid_def intro!: wake_ok_update_None split: prod.splits)
qed

text \<open>A message leaves the other container's top and timer alone.\<close>

fun msg_cont :: "timer_msg \<Rightarrow> bool" where
  "msg_cont (MsgTimerPush k r) = k"
| "msg_cont (MsgTimerRemove k r) = k"
| "msg_cont (MsgTimerExpire k) = k"

lemma proc_other:
  assumes "msg_cont m \<noteq> j"
  shows "conts (timer_msg_proc now m s) j = conts s j"
    and "MsgTimerExpire j \<in> set (timer_q s) \<Longrightarrow> MsgTimerExpire j \<in> set (timer_q (timer_msg_proc now m s))"
  using assms by (cases m; auto simp: Let_def expire_loop_frame split: prod.split)+

lemma wake_ok_step:
  assumes ok: "timer_ok info None s" and step: "timer_step s s'" and wake: "\<And>k. wake_ok s k"
  shows "wake_ok s' j"
  using step
proof (cases rule: timer_step.cases)
  case (step_start now c ms wk)
  then show ?thesis
    by (intro wake_ok_cong [OF _ _ wake]) (auto simp: timer_start_def Let_def split: option.split)
next
  case (step_stop c)
  then show ?thesis
    by (intro wake_ok_cong [OF _ _ wake])
      (auto simp: timer_stop_def destroy_locked_def split: option.split)
next
  case (step_fire k t now)
  show ?thesis
  proof (cases "j = k")
    case True
    with step_fire show ?thesis by (simp add: wake_ok_def container_expire_def split: option.split)
  next
    case False
    with step_fire show ?thesis
      by (intro wake_ok_cong [OF _ _ wake]) (auto simp: container_expire_def)
  qed
next
  case (step_msg m q now)
  show ?thesis
  proof (cases "msg_cont m = j")
    case True
    with step_msg show ?thesis
      by (cases m) (auto simp del: timer_msg_proc.simps
          intro: wake_ok_proc_push [OF ok _ wake] wake_ok_proc_remove [OF ok _ wake] wake_ok_proc_expire [OF ok])
  next
    case False
    with step_msg show ?thesis
      by (intro wake_ok_cong [OF _ _ wake]) (auto simp: proc_other)
  qed
qed

lemma timer_reachable_wake: "timer_reachable s \<Longrightarrow> wake_ok s k"
proof (induction arbitrary: k rule: timer_reachable.induct)
  case reach_init
  show ?case by (simp add: wake_ok_def init_timers_def empty_container_def heap_peek_def)
next
  case (reach_step s s')
  then show ?case using timer_reachable_ok wake_ok_step by blast
qed


section \<open>Callbacks\<close>

definition running :: "timer_sys \<Rightarrow> nat \<Rightarrow> nat" where
  "running s c = (case mTimer s c of None \<Rightarrow> 0 | Some _ \<Rightarrow> 1)"

text \<open>Expiring a delegate trades the running timer of a client for one callback.\<close>

lemma delegate_expire_callback:
  "count_list (fired (delegate_expire r s)) c + running (delegate_expire r s) c =
     count_list (fired s) c + running s c \<and>
   running (delegate_expire r s) c \<le> running s c"
proof -
  have stop: "timer_stop x s = (case mTimer s x of None \<Rightarrow> (False, s)
      | Some q \<Rightarrow> (True, destroy_locked q (s\<lparr>mTimer := (mTimer s)(x := None)\<rparr>)))" for x
    by (simp add: timer_stop_def)
  have frame: "mTimer (destroy_locked q t) = mTimer t" "fired (destroy_locked q t) = fired t" for q t
    by (simp_all add: destroy_locked_def split: option.split)
  show ?thesis
    by (simp add: delegate_expire_def stop frame running_def split: option.split)
qed

lemma expire_loop_callback:
  "count_list (fired (expire_loop now k p s)) c + running (expire_loop now k p s) c =
     count_list (fired s) c + running s c \<and>
   running (expire_loop now k p s) c \<le> running s c"
proof -
  let ?P = "\<lambda>(p' :: timer_ref option) s'. count_list (fired s') c + running s' c = count_list (fired s) c + running s c \<and>
     running s' c \<le> running s c"
  have "?P None (expire_loop now k p s)"
  proof (rule expire_loop_rule [where P = ?P])
    fix r s1 p' s'
    assume P: "?P (Some r) s1" and "pop_if_outranks now k (delegate_expire r s1) = (p', s')"
    note fr = pop_if_outranks_frame(3,4) [OF this(2)]
    have "running s' c = running (delegate_expire r s1) c"
      by (simp add: running_def fr)
    then show "?P p' s'" using P fr(2) delegate_expire_callback [of r s1 c] by simp
  qed simp
  then show ?thesis .
qed

lemma timer_msg_proc_callback:
  "count_list (fired (timer_msg_proc now m s)) c + running (timer_msg_proc now m s) c =
     count_list (fired s) c + running s c \<and>
   running (timer_msg_proc now m s) c \<le> running s c"
proof (cases m)
  case (MsgTimerExpire k)
  obtain p t where "heap_pop delegate_ranks (mTree (conts s k)) = (p, t)" by fastforce
  then show ?thesis
    using expire_loop_callback [of "\<lparr>ref_id = 0, mFutureTime = now\<rparr>" k p
        "set_cont k ((conts s k)\<lparr>mTree := t\<rparr>) s" c]
    by (simp add: MsgTimerExpire running_def)
qed (auto simp: running_def Let_def split: prod.split)

lemma running_le_1: "running s c \<le> 1"
  by (simp add: running_def split: option.split)

lemma timer_step_callback:
  assumes "timer_step s s'"
  shows "fired s' = fired s \<or>
    count_list (fired s') c + running s' c = count_list (fired s) c + running s c \<and> running s' c \<le> running s c"
  using assms
proof (cases rule: timer_step.cases)
  case (step_start now d ms wk)
  then show ?thesis by (simp add: timer_start_def Let_def split: option.split)
next
  case (step_stop d)
  then show ?thesis by (simp add: timer_stop_def destroy_locked_def split: option.split)
next
  case (step_fire k t now)
  then show ?thesis by (simp add: container_expire_def)
next
  case (step_msg m q now)
  then show ?thesis
    using timer_msg_proc_callback [of now m "s\<lparr>timer_q := q\<rparr>" c] by (simp add: running_def)
qed

section \<open>Properties\<close>

text \<open>The expiry time that \<open>start\<close> computes is exactly the boot time plus the delay, in
  normal form (nanoseconds below one second), without overflow of the 32-bit \<open>time_t\<close>.\<close>

theorem future_time_exact:
  assumes "boot_time now"
  shows "timespec_ns (future_time now ms) = timespec_ns now + uint ms * 1000000 \<and>
    uint (tv_nsec (future_time now ms)) < 1000000000 \<and> uint (tv_sec (future_time now ms)) < 2 ^ 31"
  using future_time_parts [OF assms] by blast

lemma future_time_exact_witness:
  "timespec_ns (future_time \<lparr>tv_sec = 5, tv_nsec = 900000000\<rparr> 1500) = 7400000000"
  using future_time_exact [of "\<lparr>tv_sec = 5, tv_nsec = 900000000\<rparr>" 1500]
  by (simp add: boot_time_def timespec_ns_def)

text \<open>C2: No reachable state of the timer service has used a deleted delegate or deleted one twice,
  whatever the interleaving of starts, stops, kernel expiries and message processing.\<close>

theorem timer_no_use_after_free:
  assumes "timer_reachable s"
  shows "\<not> uaf s"
  using timer_reachable_ok [OF assms] by (auto simp: timer_ok_def)

lemma timer_no_use_after_free_witness:
  "\<not> uaf (snd (timer_stop 7 (snd (timer_start 7 1500 True \<lparr>tv_sec = 5, tv_nsec = 0\<rparr> init_timers))))"
proof (rule timer_no_use_after_free)
  have "timer_step init_timers (snd (timer_start 7 1500 True \<lparr>tv_sec = 5, tv_nsec = 0\<rparr> init_timers))"
    by (rule step_start) (simp add: boot_time_def)
  then show "timer_reachable (snd (timer_stop 7 (snd (timer_start 7 1500 True
      \<lparr>tv_sec = 5, tv_nsec = 0\<rparr> init_timers))))"
    using reach_init step_stop by (blast intro: reach_step)
qed


text \<open>A reachable state that the examples below share: one client has started a timer of 1.5 s on the
  alarm container and its delegate is in the heap.\<close>

definition one_timer :: timer_sys where
  "one_timer = timer_msg_proc \<lparr>tv_sec = 5, tv_nsec = 0\<rparr>
     (MsgTimerPush True \<lparr>ref_id = 0, mFutureTime = \<lparr>tv_sec = 6, tv_nsec = 500000000\<rparr>\<rparr>)
     ((snd (timer_start 7 1500 True \<lparr>tv_sec = 5, tv_nsec = 0\<rparr> init_timers))\<lparr>timer_q := []\<rparr>)"

lemma future_time_example:
  "future_time \<lparr>tv_sec = 5, tv_nsec = 0\<rparr> 1500 = \<lparr>tv_sec = 6, tv_nsec = 500000000\<rparr>"
  by (simp add: future_time_def Let_def)

lemma one_timer_reachable: "timer_reachable one_timer"
proof -
  let ?t = "\<lparr>tv_sec = 5, tv_nsec = 0\<rparr>"
  let ?s = "snd (timer_start 7 1500 True ?t init_timers)"
  have now: "boot_time ?t" by (simp add: boot_time_def)
  then have "timer_reachable ?s"
    by (blast intro: reach_step reach_init step_start)
  moreover have "timer_q ?s = [MsgTimerPush True \<lparr>ref_id = 0, mFutureTime = \<lparr>tv_sec = 6, tv_nsec = 500000000\<rparr>\<rparr>]"
    by (simp add: timer_start_def init_timers_def future_time_example Let_def)
  then have "timer_step ?s one_timer"
    unfolding one_timer_def by (rule step_msg [OF _ now])
  ultimately show ?thesis by (rule reach_step)
qed


lemma one_timer_simps:
  "mTree (conts one_timer True) = new_node \<lparr>ref_id = 0, mFutureTime = \<lparr>tv_sec = 6, tv_nsec = 500000000\<rparr>\<rparr>"
  "mTimer one_timer 7 = Some \<lparr>ref_id = 0, mFutureTime = \<lparr>tv_sec = 6, tv_nsec = 500000000\<rparr>\<rparr>"
  "timer_q one_timer = []"
  by (simp_all add: one_timer_def timer_start_def init_timers_def future_time_example empty_container_def
      heap_push_def Let_def)

text \<open>C14: Whenever a container holds a delegate, its kernel timer is armed and polled for a second that
  is not later than the expiry second of the top of the heap, or an expiry message is already queued:
  no interleaving of pushes, removals and expiries loses the wake-up.\<close>

theorem timer_wakeup_armed:
  assumes "timer_reachable s" and "heap_peek (mTree (conts s k)) = Some tp"
  shows "MsgTimerExpire k \<in> set (timer_q s) \<or>
    polled (conts s k) \<and> (\<exists>t. dev_armed (conts s k) = Some t \<and> tv_sec t \<le> tv_sec (mFutureTime tp))"
  using timer_reachable_wake [OF assms(1), of k] assms(2) by (simp add: wake_ok_def)

lemma timer_wakeup_armed_witness:
  "polled (conts one_timer True) \<and>
   (\<exists>t. dev_armed (conts one_timer True) = Some t \<and> tv_sec t \<le> 6)"
  using timer_wakeup_armed [OF one_timer_reachable, of True]
  by (simp add: one_timer_simps new_node_def heap_peek_def)



text \<open>Processing an expiry message leaves in the heap only delegates that are due in a later second
  than the boot time it read: everything that is due has been taken out and expired.\<close>

theorem timer_expiry_complete:
  assumes "timer_reachable s" and "timer_q s = MsgTimerExpire k # q" and "boot_time now"
    and "r \<in># node_mset (mTree (conts (timer_msg_proc now (MsgTimerExpire k) (s\<lparr>timer_q := q\<rparr>)) k))"
  shows "tv_sec now < tv_sec (mFutureTime r)"
proof -
  obtain info where ok: "timer_ok info None s"
    using timer_reachable_ok [OF assms(1)] by blast
  define s' where "s' = timer_msg_proc now (MsgTimerExpire k) (s\<lparr>timer_q := q\<rparr>)"
  let ?now = "\<lparr>ref_id = 0, mFutureTime = now\<rparr>"
  have ok': "timer_ok info None s'"
    using timer_ok_proc_expire [OF ok assms(2)] by (simp add: s'_def)
  obtain p t where pop: "heap_pop delegate_ranks (mTree (conts s k)) = (p, t)" by fastforce
  obtain tp where tp: "heap_peek (mTree (conts s' k)) = Some tp"
    using assms(4) unfolding s'_def [symmetric]
    by (cases "mTree (conts s' k)") (simp_all add: heap_peek_def)
  have r: "r \<in># theap s' k"
    using assms(4) unfolding s'_def .
  have "outRanks delegate_ranks ?now tp"
    using expire_loop_done [of p "set_cont k ((conts s k)\<lparr>mTree := t\<rparr>) (s\<lparr>timer_q := q\<rparr>)" k ?now]
      heap_pop_None [of delegate_ranks "mTree (conts s k)" t] pop tp
    by (auto simp: s'_def)
  moreover have "\<not> outRanks delegate_ranks r tp" and "ref_valid r" and "ref_valid tp"
    using timer_rank.peek_highest [OF heaps_okD(1) [OF ok'] tp, of r] heaps_okD(2) [OF ok', of _ k]
      heap_peek_in [OF tp] r by (auto simp: genuine_def)
  moreover have "ref_valid ?now"
    using assms(3) by (simp add: ref_valid_def boot_time_def)
  ultimately show ?thesis
    by (simp add: outRanks_delegate not_less)
qed


definition two_timers :: timer_sys where
  "two_timers =
     (let now = \<lparr>tv_sec = 5, tv_nsec = 0\<rparr>;
          s1 = snd (timer_start 8 4000 True now one_timer);
          s2 = timer_msg_proc now (hd (timer_q s1)) (s1\<lparr>timer_q := tl (timer_q s1)\<rparr>)
      in container_expire True s2)"

lemma step_msg_hd:
  "timer_q s \<noteq> [] \<Longrightarrow> boot_time now \<Longrightarrow>
   timer_step s (timer_msg_proc now (hd (timer_q s)) (s\<lparr>timer_q := tl (timer_q s)\<rparr>))"
  by (rule step_msg) simp_all

lemma two_timers_reachable: "timer_reachable two_timers"
proof -
  let ?t = "\<lparr>tv_sec = 5, tv_nsec = 0\<rparr>" and ?f = "\<lparr>tv_sec = 7, tv_nsec = 0\<rparr>"
  define s1 where "s1 = snd (timer_start 8 4000 True ?t one_timer)"
  define s2 where "s2 = timer_msg_proc ?t (hd (timer_q s1)) (s1\<lparr>timer_q := tl (timer_q s1)\<rparr>)"
  have now: "boot_time ?t" "boot_time ?f" by (simp_all add: boot_time_def)
  have "timer_reachable s1"
    unfolding s1_def by (rule reach_step [OF one_timer_reachable step_start [OF now(1)]])
  moreover have "timer_q s1 \<noteq> []" unfolding s1_def by code_simp
  ultimately have "timer_reachable s2"
    unfolding s2_def using step_msg_hd [OF _ now(1)] by (blast intro: reach_step)
  moreover have "timer_step s2 (container_expire True s2)"
  proof (rule step_fire [where now = ?f])
    show "polled (conts s2 True)" unfolding s2_def s1_def by code_simp
    show "dev_armed (conts s2 True) = Some \<lparr>tv_sec = 6, tv_nsec = 500000000\<rparr>"
      unfolding s2_def s1_def by code_simp
  qed (simp_all add: now(2) timespec_ns_def)
  ultimately show ?thesis
    unfolding two_timers_def Let_def s1_def [symmetric] s2_def [symmetric] by (rule reach_step)
qed

lemma timer_expiry_complete_witness:
  "tv_sec \<lparr>tv_sec = 7, tv_nsec = 0\<rparr> < tv_sec (mFutureTime \<lparr>ref_id = 1, mFutureTime = \<lparr>tv_sec = 9, tv_nsec = 0\<rparr>\<rparr>)"
proof (rule timer_expiry_complete [OF two_timers_reachable])
  show "timer_q two_timers = [MsgTimerExpire True]" by code_simp
  show "boot_time \<lparr>tv_sec = 7, tv_nsec = 0\<rparr>" by (simp add: boot_time_def)
  show "\<lparr>ref_id = 1, mFutureTime = \<lparr>tv_sec = 9, tv_nsec = 0\<rparr>\<rparr> \<in># node_mset (mTree (conts
      (timer_msg_proc \<lparr>tv_sec = 7, tv_nsec = 0\<rparr> (MsgTimerExpire True) (two_timers\<lparr>timer_q := []\<rparr>)) True))"
    by code_simp
qed

text \<open>A step of the service calls the callback of a client at most once, and only when the client
  has a running timer, which is then stopped: a stopped client is not called back, and one start
  yields at most one callback.\<close>

theorem timer_callback_once:
  assumes "timer_step s s'"
  shows "count_list (fired s') c = count_list (fired s) c \<or>
    count_list (fired s') c = count_list (fired s) c + 1 \<and> mTimer s c \<noteq> None \<and> mTimer s' c = None"
  using timer_step_callback [OF assms, of c] by (auto simp: running_def split: option.splits)

lemma timer_callback_once_witness:
  "count_list (fired (timer_msg_proc \<lparr>tv_sec = 7, tv_nsec = 0\<rparr> (MsgTimerExpire True) (two_timers\<lparr>timer_q := []\<rparr>))) 7 = 1 \<and>
   mTimer (timer_msg_proc \<lparr>tv_sec = 7, tv_nsec = 0\<rparr> (MsgTimerExpire True) (two_timers\<lparr>timer_q := []\<rparr>)) 7 = None"
proof -
  have q: "timer_q two_timers = [MsgTimerExpire True]" by code_simp
  have "timer_step two_timers (timer_msg_proc \<lparr>tv_sec = 7, tv_nsec = 0\<rparr> (MsgTimerExpire True) (two_timers\<lparr>timer_q := []\<rparr>))"
    using q by (rule step_msg) (simp add: boot_time_def)
  moreover have "count_list (fired (timer_msg_proc \<lparr>tv_sec = 7, tv_nsec = 0\<rparr> (MsgTimerExpire True) (two_timers\<lparr>timer_q := []\<rparr>))) 7 = 1"
    "count_list (fired two_timers) 7 = 0"
    by code_simp+
  ultimately show ?thesis
    using timer_callback_once [of two_timers _ 7] by fastforce
qed

subsection \<open>What the second-wide ranks and the unconditional first pop let happen\<close>

text \<open>The first pop of an expiry does not compare with the boot time, so a second expiry message
  fires a timer that is not due; and timers of the same second fire together.\<close>

lemma expiry_fires_early:
  "fired (timer_msg_proc \<lparr>tv_sec = 5, tv_nsec = 0\<rparr> (MsgTimerExpire True) one_timer) = [7]"
  by code_simp

text \<open>Removing the last timer of a container leaves its kernel timer armed and polled.\<close>

lemma last_removal_leaves_armed:
  "(let s1 = snd (timer_stop 7 one_timer);
        s2 = timer_msg_proc \<lparr>tv_sec = 5, tv_nsec = 0\<rparr> (hd (timer_q s1)) s1
    in mTree (conts s2 True) = NullNode \<and> polled (conts s2 True) \<and> dev_armed (conts s2 True) \<noteq> None)"
  by code_simp

end
