(* ===== verification/Linked_List.thy ===== *)
theory Linked_List
  imports Prelude "HOL-Library.Monad_Syntax"
begin

text \<open>
  The doubly linked list of \<^verbatim>\<open>gps/utils/linked_list.cpp\<close> over an explicit store: addresses are
  numbers, 0 is the null pointer, and a dereference of an address that is not allocated makes the
  operation fault (\<open>None\<close>).  The results of \<^verbatim>\<open>malloc\<close> and \<^verbatim>\<open>calloc\<close> are arguments.
  A representation predicate relates the store to the list of its elements, and every operation is
  shown to implement the operation on that list, without a fault.
\<close>

section \<open>The store\<close>

datatype linked_list_err_type =
  eLINKED_LIST_SUCCESS
| eLINKED_LIST_FAILURE_GENERAL
| eLINKED_LIST_INVALID_PARAMETER
| eLINKED_LIST_INVALID_HANDLE
| eLINKED_LIST_UNAVAILABLE_RESOURCE

text \<open>\<open>el_dealloc\<close> says that \<open>dealloc_func\<close> is not null; its calls are recorded in \<open>deallocs\<close>.\<close>

record list_element =
  el_next :: nat
  el_prev :: nat
  el_data :: nat
  el_dealloc :: bool

record list_state =
  p_head :: nat
  p_tail :: nat

record ll_mem =
  lists :: "nat \<rightharpoonup> list_state"
  elems :: "nat \<rightharpoonup> list_element"
  deallocs :: "nat list"

definition put_list :: "nat \<Rightarrow> list_state \<Rightarrow> ll_mem \<Rightarrow> ll_mem" where
  "put_list h l m = m\<lparr>lists := (lists m)(h \<mapsto> l)\<rparr>"

definition put_elem :: "nat \<Rightarrow> list_element \<Rightarrow> ll_mem \<Rightarrow> ll_mem" where
  "put_elem a e m = m\<lparr>elems := (elems m)(a \<mapsto> e)\<rparr>"

text \<open>\<^verbatim>\<open>free\<close> of an element: the address must be allocated.\<close>

definition free_elem :: "nat \<Rightarrow> ll_mem \<Rightarrow> ll_mem option" where
  "free_elem a m = (if elems m a = None then None else Some (m\<lparr>elems := (elems m)(a := None)\<rparr>))"

definition call_dealloc :: "list_element \<Rightarrow> ll_mem \<Rightarrow> ll_mem" where
  "call_dealloc e m = (if el_dealloc e then m\<lparr>deallocs := deallocs m @ [el_data e]\<rparr> else m)"

section \<open>The operations\<close>

text \<open>\<open>given\<close> says that the output parameter is not null, \<open>new\<close> is what the allocation returns.\<close>

definition linked_list_init :: "bool \<Rightarrow> nat \<Rightarrow> ll_mem \<Rightarrow> linked_list_err_type \<times> nat option \<times> ll_mem" where
  "linked_list_init given new m =
     (if \<not> given then (eLINKED_LIST_INVALID_PARAMETER, None, m)
      else if new = 0 then (eLINKED_LIST_FAILURE_GENERAL, None, m)
      else (eLINKED_LIST_SUCCESS, Some new, put_list new \<lparr>p_head = 0, p_tail = 0\<rparr> m))"

definition linked_list_add ::
  "nat \<Rightarrow> nat \<Rightarrow> bool \<Rightarrow> nat \<Rightarrow> ll_mem \<Rightarrow> (linked_list_err_type \<times> ll_mem) option" where
  "linked_list_add list_data data_obj dealloc new m =
     (if list_data = 0 then Some (eLINKED_LIST_INVALID_HANDLE, m)
      else if data_obj = 0 then Some (eLINKED_LIST_INVALID_PARAMETER, m)
      else if new = 0 then Some (eLINKED_LIST_FAILURE_GENERAL, m)
      else do {
        p_list \<leftarrow> lists m list_data;
        let tmp = p_head p_list;
        let m1 = put_elem new \<lparr>el_next = tmp, el_prev = 0, el_data = data_obj, el_dealloc = dealloc\<rparr> m;
        if tmp \<noteq> 0 then do {
          t \<leftarrow> elems m1 tmp;
          Some (eLINKED_LIST_SUCCESS,
            put_list list_data (p_list\<lparr>p_head := new\<rparr>) (put_elem tmp (t\<lparr>el_prev := new\<rparr>) m1))
        } else Some (eLINKED_LIST_SUCCESS, put_list list_data (p_list\<lparr>p_head := new, p_tail := new\<rparr>) m1)
      })"

text \<open>The result carries the data object that is copied out on success.\<close>

definition linked_list_remove ::
  "nat \<Rightarrow> bool \<Rightarrow> ll_mem \<Rightarrow> (linked_list_err_type \<times> nat option \<times> ll_mem) option" where
  "linked_list_remove list_data given m =
     (if list_data = 0 then Some (eLINKED_LIST_INVALID_HANDLE, None, m)
      else if \<not> given then Some (eLINKED_LIST_INVALID_PARAMETER, None, m)
      else do {
        p_list \<leftarrow> lists m list_data;
        if p_tail p_list = 0 then Some (eLINKED_LIST_UNAVAILABLE_RESOURCE, None, m)
        else do {
          tmp \<leftarrow> elems m (p_tail p_list);
          m1 \<leftarrow> (if el_prev tmp \<noteq> 0 then do {
                   p \<leftarrow> elems m (el_prev tmp);
                   Some (put_list list_data (p_list\<lparr>p_tail := el_prev tmp\<rparr>)
                     (put_elem (el_prev tmp) (p\<lparr>el_next := 0\<rparr>) m))
                 } else Some (put_list list_data (p_list\<lparr>p_tail := el_prev tmp, p_head := el_prev tmp\<rparr>) m));
          m2 \<leftarrow> free_elem (p_tail p_list) m1;
          Some (eLINKED_LIST_SUCCESS, Some (el_data tmp), m2)
        }
      })"

text \<open>1 for an empty list, 0 for a non-empty one, the error code -3 for a null handle.\<close>

definition linked_list_empty :: "nat \<Rightarrow> ll_mem \<Rightarrow> int option" where
  "linked_list_empty list_data m =
     (if list_data = 0 then Some (- 3)
      else do { p_list \<leftarrow> lists m list_data; Some (if p_head p_list = 0 then 1 else 0) })"

partial_function (option) flush_loop :: "nat \<Rightarrow> ll_mem \<Rightarrow> ll_mem option" where
  "flush_loop list_data m =
     Option.bind (lists m list_data) (\<lambda>p_list.
       if p_head p_list \<noteq> 0 then
         Option.bind (elems m (p_head p_list)) (\<lambda>e.
         Option.bind (free_elem (p_head p_list) (call_dealloc e m)) (\<lambda>m1.
           flush_loop list_data (put_list list_data (p_list\<lparr>p_head := el_next e\<rparr>) m1)))
       else Some m)"

definition linked_list_flush :: "nat \<Rightarrow> ll_mem \<Rightarrow> (linked_list_err_type \<times> ll_mem) option" where
  "linked_list_flush list_data m =
     (if list_data = 0 then Some (eLINKED_LIST_INVALID_HANDLE, m)
      else do {
        m1 \<leftarrow> flush_loop list_data m;
        p_list \<leftarrow> lists m1 list_data;
        Some (eLINKED_LIST_SUCCESS, put_list list_data (p_list\<lparr>p_tail := 0\<rparr>) m1)
      })"

definition linked_list_destroy :: "bool \<Rightarrow> nat \<Rightarrow> ll_mem \<Rightarrow> (linked_list_err_type \<times> nat \<times> ll_mem) option" where
  "linked_list_destroy given list_data m =
     (if \<not> given then Some (eLINKED_LIST_INVALID_HANDLE, list_data, m)
      else do {
        (r, m1) \<leftarrow> linked_list_flush list_data m;
        Some (eLINKED_LIST_SUCCESS, 0,
          if list_data = 0 then m1 else m1\<lparr>lists := (lists m1)(list_data := None)\<rparr>)
      })"

text \<open>
  The search.  The comparison callback may act on its caller's state \<open>s\<close>; \<open>copy\<close> says that the
  data pointer is wanted (\<open>data_p\<close> is not null), \<open>rm\<close> that a found element is to be removed.
\<close>

definition search_unlink :: "nat \<Rightarrow> bool \<Rightarrow> nat \<Rightarrow> list_element \<Rightarrow> ll_mem \<Rightarrow> ll_mem option" where
  "search_unlink list_data copy tmp e m = do {
     p_list \<leftarrow> lists m list_data;
     m1 \<leftarrow> (if el_prev e = 0 then Some (put_list list_data (p_list\<lparr>p_head := el_next e\<rparr>) m)
           else do { p \<leftarrow> elems m (el_prev e); Some (put_elem (el_prev e) (p\<lparr>el_next := el_next e\<rparr>) m) });
     p_list1 \<leftarrow> lists m1 list_data;
     m2 \<leftarrow> (if el_next e = 0 then Some (put_list list_data (p_list1\<lparr>p_tail := el_prev e\<rparr>) m1)
           else do { n \<leftarrow> elems m1 (el_next e); Some (put_elem (el_next e) (n\<lparr>el_prev := el_prev e\<rparr>) m1) });
     free_elem tmp (if copy then m2 else call_dealloc e m2)
   }"

partial_function (option) search_loop ::
  "nat \<Rightarrow> bool \<Rightarrow> (nat \<Rightarrow> 's \<Rightarrow> bool \<times> 's) \<Rightarrow> bool \<Rightarrow> nat \<Rightarrow> ll_mem \<Rightarrow> 's \<Rightarrow> (nat option \<times> ll_mem \<times> 's) option" where
  "search_loop list_data copy equal rm tmp m s =
     (if tmp = 0 then Some (None, m, s)
      else Option.bind (elems m tmp) (\<lambda>e.
        case equal (el_data e) s of (found, s1) \<Rightarrow>
          if found then
            Option.bind (if rm then search_unlink list_data copy tmp e m else Some m)
              (\<lambda>m1. Some (if copy then Some (el_data e) else None, m1, s1))
          else search_loop list_data copy equal rm (el_next e) m s1))"

definition linked_list_search ::
  "nat \<Rightarrow> bool \<Rightarrow> (nat \<Rightarrow> 's \<Rightarrow> bool \<times> 's) \<Rightarrow> bool \<Rightarrow> ll_mem \<Rightarrow> 's
     \<Rightarrow> (linked_list_err_type \<times> nat option \<times> ll_mem \<times> 's) option" where
  "linked_list_search list_data copy equal rm m s =
     (if list_data = 0 then Some (eLINKED_LIST_INVALID_HANDLE, None, m, s)
      else do {
        p_list \<leftarrow> lists m list_data;
        if p_tail p_list = 0 then Some (eLINKED_LIST_UNAVAILABLE_RESOURCE, None, m, s)
        else do {
          (found, m1, s1) \<leftarrow> search_loop list_data copy equal rm (p_head p_list) m s;
          Some (eLINKED_LIST_SUCCESS, found, m1, s1)
        }
      })"

section \<open>Representation\<close>

type_synonym ll_item = "nat \<times> nat \<times> bool"

definition first_or :: "nat \<Rightarrow> ll_item list \<Rightarrow> nat" where
  "first_or a xs = (case xs of [] \<Rightarrow> a | x # _ \<Rightarrow> fst x)"

definition last_or :: "nat \<Rightarrow> ll_item list \<Rightarrow> nat" where
  "last_or a xs = (if xs = [] then a else fst (last xs))"

text \<open>A chain of elements from the predecessor \<open>pv\<close> to the successor \<open>nx\<close>.\<close>

fun chain :: "(nat \<rightharpoonup> list_element) \<Rightarrow> nat \<Rightarrow> ll_item list \<Rightarrow> nat \<Rightarrow> bool" where
  "chain E pv [] nx = True"
| "chain E pv ((b, d, f) # xs) nx =
     (b \<noteq> 0 \<and> E b = Some \<lparr>el_next = first_or nx xs, el_prev = pv, el_data = d, el_dealloc = f\<rparr> \<and>
      chain E b xs nx)"

definition ll_rep :: "ll_mem \<Rightarrow> nat \<Rightarrow> ll_item list \<Rightarrow> bool" where
  "ll_rep m h xs \<longleftrightarrow> h \<noteq> 0 \<and> lists m h = Some \<lparr>p_head = first_or 0 xs, p_tail = last_or 0 xs\<rparr> \<and>
     chain (elems m) 0 xs 0 \<and> distinct (map fst xs)"

lemma first_or_simps [simp]: "first_or a [] = a" "first_or a (x # xs) = fst x"
  by (simp_all add: first_or_def)

lemma last_or_simps [simp]: "last_or a [] = a" "last_or a (xs @ [x]) = fst x"
  "last_or a (x # xs) = last_or (fst x) xs"
  by (simp_all add: last_or_def)

lemma first_or_append: "first_or a (xs @ ys) = first_or (first_or a ys) xs"
  by (cases xs) simp_all

lemma last_or_append: "last_or a (xs @ ys) = last_or (last_or a xs) ys"
  by (simp add: last_or_def)

lemma chain_append:
  "chain E pv (xs @ ys) nx \<longleftrightarrow> chain E pv xs (first_or nx ys) \<and> chain E (last_or pv xs) ys nx"
  by (induction E pv xs nx rule: chain.induct) (auto simp: first_or_append)

lemma chain_frame:
  "chain E pv xs nx \<Longrightarrow> (\<And>a. a \<in> fst ` set xs \<Longrightarrow> E' a = E a) \<Longrightarrow> chain E' pv xs nx"
  by (induction E pv xs nx rule: chain.induct) auto

lemma chain_upd_other [simp]: "a \<notin> fst ` set xs \<Longrightarrow> chain (E(a := v)) pv xs nx = chain E pv xs nx"
  by (induction E pv xs nx rule: chain.induct) auto

lemma chain_nonzero: "chain E pv xs nx \<Longrightarrow> 0 \<notin> fst ` set xs"
  by (induction E pv xs nx rule: chain.induct) auto

lemma chain_elem: "chain E pv xs nx \<Longrightarrow> a \<in> fst ` set xs \<Longrightarrow> E a \<noteq> None"
  by (induction E pv xs nx rule: chain.induct) auto

text \<open>Re-targeting the two ends of a chain.\<close>

lemma chain_set_prev:
  assumes "chain E pv ((b, d, f) # xs) nx" and "b \<notin> fst ` set xs" and "E b = Some e"
  shows "chain (E(b \<mapsto> e\<lparr>el_prev := pv'\<rparr>)) pv' ((b, d, f) # xs) nx"
  using assms by auto

lemma chain_set_next:
  assumes "chain E pv (xs @ [(b, d, f)]) nx" and "b \<notin> fst ` set xs" and "E b = Some e"
  shows "chain (E(b \<mapsto> e\<lparr>el_next := nx'\<rparr>)) pv (xs @ [(b, d, f)]) nx'"
  using assms by (auto simp: chain_append)

lemma put_simps [simp]:
  "elems (put_elem a e m) = (elems m)(a \<mapsto> e)" "lists (put_elem a e m) = lists m"
  "elems (put_list h l m) = elems m" "lists (put_list h l m) = (lists m)(h \<mapsto> l)"
  "deallocs (put_elem a e m) = deallocs m" "deallocs (put_list h l m) = deallocs m"
  "elems (call_dealloc x m) = elems m" "lists (call_dealloc x m) = lists m"
  by (simp_all add: put_elem_def put_list_def call_dealloc_def)

lemma free_elem_Some: "elems m a = Some e \<Longrightarrow> free_elem a m = Some (m\<lparr>elems := (elems m)(a := None)\<rparr>)"
  by (simp add: free_elem_def)

section \<open>Refinement\<close>

lemma ll_add:
  assumes rep: "ll_rep m h xs" and d: "d \<noteq> 0" and new: "new \<noteq> 0" "elems m new = None"
  obtains m' where "linked_list_add h d f new m = Some (eLINKED_LIST_SUCCESS, m')"
    and "ll_rep m' h ((new, d, f) # xs)" and "deallocs m' = deallocs m"
proof -
  have fresh: "new \<notin> fst ` set xs"
    using rep new chain_elem [of "elems m" 0 xs 0 new] by (auto simp: ll_rep_def)
  show ?thesis
  proof (cases xs)
    case Nil
    with rep d new show ?thesis
      by (intro that [of "put_list h \<lparr>p_head = new, p_tail = new\<rparr>
            (put_elem new \<lparr>el_next = 0, el_prev = 0, el_data = d, el_dealloc = f\<rparr> m)"])
        (simp_all add: linked_list_add_def ll_rep_def)
  next
    case (Cons x ys)
    obtain b db fb where x: "x = (b, db, fb)" by (cases x) auto
    let ?e = "\<lparr>el_next = first_or 0 ys, el_prev = new, el_data = db, el_dealloc = fb\<rparr>"
    let ?m = "put_list h \<lparr>p_head = new, p_tail = last_or 0 xs\<rparr>
      (put_elem b ?e (put_elem new \<lparr>el_next = b, el_prev = 0, el_data = d, el_dealloc = f\<rparr> m))"
    from rep Cons x fresh d new
    have "linked_list_add h d f new m = Some (eLINKED_LIST_SUCCESS, ?m)" "ll_rep ?m h ((new, d, f) # xs)"
      by (auto simp: linked_list_add_def ll_rep_def)
    then show ?thesis by (rule that) simp
  qed
qed

lemma ll_remove:
  assumes rep: "ll_rep m h (xs @ [(b, d, f)])"
  obtains m' where "linked_list_remove h True m = Some (eLINKED_LIST_SUCCESS, Some d, m')"
    and "ll_rep m' h xs" and "deallocs m' = deallocs m" and "elems m' b = None"
proof (cases xs rule: rev_cases)
  case Nil
  let ?m = "(put_list h \<lparr>p_head = 0, p_tail = 0\<rparr> m)\<lparr>elems := (elems m)(b := None)\<rparr>"
  from Nil rep have "linked_list_remove h True m = Some (eLINKED_LIST_SUCCESS, Some d, ?m)" "ll_rep ?m h xs"
    by (auto simp: linked_list_remove_def ll_rep_def free_elem_def)
  then show ?thesis by (rule that) simp_all
next
  case (snoc ys y)
  obtain c dc fc where y: "y = (c, dc, fc)" by (cases y) auto
  let ?e = "\<lparr>el_next = 0, el_prev = last_or 0 ys, el_data = dc, el_dealloc = fc\<rparr>"
  let ?m = "(put_list h \<lparr>p_head = first_or 0 xs, p_tail = c\<rparr> (put_elem c ?e m))
      \<lparr>elems := ((elems m)(c \<mapsto> ?e))(b := None)\<rparr>"
  from snoc y rep have "linked_list_remove h True m = Some (eLINKED_LIST_SUCCESS, Some d, ?m)" "ll_rep ?m h xs"
    by (auto simp: linked_list_remove_def ll_rep_def free_elem_def chain_append first_or_append last_or_append)
  then show ?thesis by (rule that) simp_all
qed

lemma ll_remove_empty:
  "ll_rep m h [] \<Longrightarrow> linked_list_remove h True m = Some (eLINKED_LIST_UNAVAILABLE_RESOURCE, None, m)"
  by (simp add: linked_list_remove_def ll_rep_def)

lemma ll_empty: "ll_rep m h xs \<Longrightarrow> linked_list_empty h m = Some (if xs = [] then 1 else 0)"
  by (cases xs) (auto simp: linked_list_empty_def ll_rep_def)

fun dealloc_data :: "ll_item list \<Rightarrow> nat list" where
  "dealloc_data [] = []"
| "dealloc_data ((b, d, f) # xs) = (if f then [d] else []) @ dealloc_data xs"

text \<open>The flush calls \<open>dealloc_func\<close> of every element that has one, in list order.\<close>

lemma flush_loop_chain:
  "h \<noteq> 0 \<Longrightarrow> lists m h = Some \<lparr>p_head = first_or 0 xs, p_tail = t\<rparr> \<Longrightarrow> chain (elems m) pv xs 0 \<Longrightarrow>
   distinct (map fst xs) \<Longrightarrow>
   \<exists>m'. flush_loop h m = Some m' \<and> lists m' = (lists m)(h \<mapsto> \<lparr>p_head = 0, p_tail = t\<rparr>) \<and>
     deallocs m' = deallocs m @ dealloc_data xs \<and>
     elems m' = (elems m) |` (- fst ` set xs)"
proof (induction xs arbitrary: m pv)
  case Nil
  then show ?case by (subst flush_loop.simps) (auto simp: map_upd_triv restrict_map_def)
next
  case (Cons x xs)
  obtain b d f where x: "x = (b, d, f)" by (cases x) auto
  let ?e = "\<lparr>el_next = first_or 0 xs, el_prev = pv, el_data = d, el_dealloc = f\<rparr>"
  define m1 where "m1 = put_list h \<lparr>p_head = first_or 0 xs, p_tail = t\<rparr>
    ((call_dealloc ?e m)\<lparr>elems := (elems m)(b := None)\<rparr>)"
  have eb: "b \<noteq> 0" "elems m b = Some ?e" using Cons.prems(3) x by auto
  have step: "flush_loop h m = flush_loop h m1"
    using Cons.prems(2) eb x
    by (subst flush_loop.simps) (simp add: free_elem_def m1_def call_dealloc_def)
  have "\<exists>m'. flush_loop h m1 = Some m' \<and> lists m' = (lists m1)(h \<mapsto> \<lparr>p_head = 0, p_tail = t\<rparr>) \<and>
     deallocs m' = deallocs m1 @ dealloc_data xs \<and>
     elems m' = (elems m1) |` (- fst ` set xs)"
  proof (rule Cons.IH [where pv = b])
    show "chain (elems m1) b xs 0"
      using Cons.prems(3,4) x by (simp add: m1_def del: fun_upd_apply)
  qed (use Cons.prems x in \<open>simp_all add: m1_def\<close>)
  moreover have "((elems m)(b := None)) |` (- fst ` set xs) = (elems m) |` (- fst ` set (x # xs))"
    by (auto simp: x restrict_map_def fun_eq_iff)
  moreover have "lists m1 = (lists m)(h \<mapsto> \<lparr>p_head = first_or 0 xs, p_tail = t\<rparr>)"
    "deallocs m1 = deallocs m @ (if f then [d] else [])" "elems m1 = (elems m)(b := None)"
    by (simp_all add: m1_def call_dealloc_def)
  ultimately show ?case
    using step x by auto
qed


lemma ll_flush:
  assumes "ll_rep m h xs"
  obtains m' where "linked_list_flush h m = Some (eLINKED_LIST_SUCCESS, m')" and "ll_rep m' h []"
    and "deallocs m' = deallocs m @ dealloc_data xs"
    and "elems m' = (elems m) |` (- fst ` set xs)"
proof -
  obtain m1 where m1: "flush_loop h m = Some m1"
    "lists m1 = (lists m)(h \<mapsto> \<lparr>p_head = 0, p_tail = last_or 0 xs\<rparr>)"
    "deallocs m1 = deallocs m @ dealloc_data xs"
    "elems m1 = (elems m) |` (- fst ` set xs)"
    using flush_loop_chain [of h m xs "last_or 0 xs" 0] assms by (auto simp: ll_rep_def)
  then show ?thesis
    using assms by (intro that [of "put_list h \<lparr>p_head = 0, p_tail = 0\<rparr> m1"])
      (simp_all add: linked_list_flush_def ll_rep_def)
qed

text \<open>
  The reference of the search: run the callback over the data, in order, until it accepts one;
  the result is the position, or none, and the caller's state.
\<close>

fun find_from :: "(nat \<Rightarrow> 's \<Rightarrow> bool \<times> 's) \<Rightarrow> ll_item list \<Rightarrow> 's \<Rightarrow> (ll_item list \<times> ll_item \<times> ll_item list) option \<times> 's" where
  "find_from equal [] s = (None, s)"
| "find_from equal (x # xs) s =
     (case equal (fst (snd x)) s of (found, s1) \<Rightarrow>
        if found then (Some ([], x, xs), s1)
        else (case find_from equal xs s1 of
                (None, s2) \<Rightarrow> (None, s2)
              | (Some (us, y, vs), s2) \<Rightarrow> (Some (x # us, y, vs), s2)))"

lemma find_from_Some: "find_from equal xs s = (Some (us, y, vs), s') \<Longrightarrow> xs = us @ y # vs"
  by (induction equal xs s arbitrary: us y vs rule: find_from.induct)
    (auto split: prod.splits if_splits option.splits)

lemma ll_unlink:
  assumes rep: "ll_rep m h (us @ (b, d, f) # vs)"
  shows "\<exists>m' e. elems m b = Some e \<and> el_data e = d \<and> search_unlink h copy b e m = Some m' \<and>
    ll_rep m' h (us @ vs) \<and> deallocs m' = deallocs m @ (if f \<and> \<not> copy then [d] else []) \<and> elems m' b = None"
proof -
  let ?e = "\<lparr>el_next = first_or 0 vs, el_prev = last_or 0 us, el_data = d, el_dealloc = f\<rparr>"
  have eb: "elems m b = Some ?e" and h: "h \<noteq> 0" "b \<noteq> 0"
    and dist: "b \<notin> fst ` set us" "b \<notin> fst ` set vs" "distinct (map fst us)" "distinct (map fst vs)"
      "fst ` set us \<inter> fst ` set vs = {}"
    and cu: "chain (elems m) 0 us b" and cv: "chain (elems m) b vs 0"
    and l: "lists m h = Some \<lparr>p_head = first_or b us, p_tail = last_or b vs\<rparr>"
    using rep by (auto simp: ll_rep_def chain_append first_or_append last_or_append)
  have "\<exists>m'. search_unlink h copy b ?e m = Some m' \<and> ll_rep m' h (us @ vs) \<and>
      deallocs m' = deallocs m @ (if f \<and> \<not> copy then [d] else []) \<and> elems m' b = None"
  proof (cases us rule: rev_cases)
    case Nil
    show ?thesis
    proof (cases vs)
      case Nil
      with \<open>us = []\<close> eb h l show ?thesis
        by (simp add: search_unlink_def ll_rep_def free_elem_def call_dealloc_def)
    next
      case (Cons w ws)
      with \<open>us = []\<close> eb h l dist cv show ?thesis
        by (cases w) (auto simp: search_unlink_def ll_rep_def free_elem_def call_dealloc_def)
    qed
  next
    case (snoc us' u)
    show ?thesis
    proof (cases vs)
      case Nil
      with snoc eb h l dist cu show ?thesis
        by (cases u) (auto simp: search_unlink_def ll_rep_def free_elem_def call_dealloc_def chain_append first_or_append)
    next
      case (Cons w ws)
      with snoc eb h l dist cu cv show ?thesis
        by (cases u; cases w) (auto simp: search_unlink_def ll_rep_def free_elem_def call_dealloc_def
            chain_append first_or_append last_or_append)
    qed
  qed
  with eb show ?thesis by auto
qed


lemma ll_rep_elem:
  assumes "ll_rep m h (us @ (b, d, f) # vs)"
  shows "b \<noteq> 0" and "elems m b = Some \<lparr>el_next = first_or 0 vs, el_prev = last_or 0 us, el_data = d, el_dealloc = f\<rparr>"
  using assms by (auto simp: ll_rep_def chain_append)

definition search_post :: "bool \<Rightarrow> bool \<Rightarrow> nat \<Rightarrow> ll_mem \<Rightarrow> ll_item list \<Rightarrow>
    (ll_item list \<times> ll_item \<times> ll_item list) option \<Rightarrow> nat option \<Rightarrow> ll_mem \<Rightarrow> bool" where
  "search_post copy rm h m pre r out m' \<longleftrightarrow>
     (case r of
        None \<Rightarrow> out = None \<and> m' = m
      | Some (us, (b, d, f), vs) \<Rightarrow> out = (if copy then Some d else None) \<and>
          (if rm then ll_rep m' h (pre @ us @ vs) \<and>
              deallocs m' = deallocs m @ (if f \<and> \<not> copy then [d] else [])
           else m' = m))"

lemma search_post_shift:
  "search_post copy rm h m (pre @ [y]) r out m' \<Longrightarrow>
   search_post copy rm h m pre (map_option (\<lambda>(us, z, vs). (y # us, z, vs)) r) out m'"
  by (cases r) (auto simp: search_post_def split: prod.splits)

lemma search_loop_refines:
  "ll_rep m h (pre @ ys) \<Longrightarrow> find_from equal ys s = (r, s') \<Longrightarrow>
   \<exists>out m'. search_loop h copy equal rm (first_or 0 ys) m s = Some (out, m', s') \<and>
     search_post copy rm h m pre r out m'"
proof (induction ys arbitrary: pre s r)
  case Nil
  then show ?case by (subst search_loop.simps) (simp add: search_post_def)
next
  case (Cons y ys)
  obtain b d f where y: "y = (b, d, f)" by (cases y) auto
  note e = ll_rep_elem [OF Cons.prems(1) [unfolded y]]
  obtain found s1 where eq: "equal d s = (found, s1)" by fastforce
  show ?case
  proof (cases found)
    case True
    with Cons.prems(2) eq y have r: "r = Some ([], (b, d, f), ys)" "s' = s1" by simp_all
    from ll_unlink [OF Cons.prems(1) [unfolded y], of copy] e obtain m' where
      m': "search_unlink h copy b \<lparr>el_next = first_or 0 ys, el_prev = last_or 0 pre, el_data = d, el_dealloc = f\<rparr> m = Some m'"
      "ll_rep m' h (pre @ ys)" "deallocs m' = deallocs m @ (if f \<and> \<not> copy then [d] else [])"
      by auto
    then show ?thesis
      using True e eq r y by (subst search_loop.simps) (auto simp: search_post_def)
  next
    case False
    obtain r1 s2 where rec: "find_from equal ys s1 = (r1, s2)" by fastforce
    with False Cons.prems(2) eq y have
      r: "s' = s2" "r = map_option (\<lambda>(us, z, vs). (y # us, z, vs)) r1"
      by (auto split: option.splits prod.splits)
    have step: "search_loop h copy equal rm (first_or 0 (y # ys)) m s =
        search_loop h copy equal rm (first_or 0 ys) m s1"
      using False e eq y by (subst search_loop.simps) simp
    from Cons.IH [of "pre @ [y]" s1 r1] Cons.prems(1) rec r(1) obtain out m' where
      "search_loop h copy equal rm (first_or 0 ys) m s1 = Some (out, m', s')"
      "search_post copy rm h m (pre @ [y]) r1 out m'" by auto
    then show ?thesis
      unfolding step r(2) using search_post_shift [of copy rm h m pre y r1] by blast
  qed
qed

lemma ll_search:
  assumes rep: "ll_rep m h xs" and r: "find_from equal xs s = (r, s')"
  obtains err out m' where "linked_list_search h copy equal rm m s = Some (err, out, m', s')"
    and "search_post copy rm h m [] r out m'"
    and "err = (if xs = [] then eLINKED_LIST_UNAVAILABLE_RESOURCE else eLINKED_LIST_SUCCESS)"
proof (cases "xs = []")
  case True
  with assms show ?thesis
    by (intro that [of eLINKED_LIST_UNAVAILABLE_RESOURCE None m])
      (simp_all add: linked_list_search_def ll_rep_def search_post_def)
next
  case False
  then have "last_or 0 xs \<noteq> 0"
    using rep chain_nonzero [of "elems m" 0 xs 0] by (force simp: ll_rep_def last_or_def)
  moreover obtain out m' where "search_loop h copy equal rm (first_or 0 xs) m s = Some (out, m', s')"
    "search_post copy rm h m [] r out m'"
    using search_loop_refines [of m h "[]" xs equal s r s' copy rm] assms by auto
  ultimately show ?thesis
    using False rep by (intro that [of eLINKED_LIST_SUCCESS out m']) (simp_all add: linked_list_search_def ll_rep_def)
qed

section \<open>The contract of a first-in first-out store\<close>

text \<open>
  What a client that only adds and removes relies on: a representation of the store as the list of
  what was added and not yet removed, oldest first.  The message queue is such a client.
\<close>

locale fifo_store =
  fixes rep :: "'m \<Rightarrow> 'a list \<Rightarrow> bool"
    and val :: "'i \<Rightarrow> 'a"
    and enq :: "'i \<Rightarrow> 'm \<Rightarrow> 'm option"
    and deq :: "'m \<Rightarrow> ('a option \<times> 'm) option"
  assumes enq_rep: "rep m xs \<Longrightarrow> enq i m = Some m' \<Longrightarrow> rep m' (xs @ [val i])"
    and deq_rep: "rep m (x # xs) \<Longrightarrow> \<exists>m'. deq m = Some (Some x, m') \<and> rep m' xs"
    and deq_empty: "rep m [] \<Longrightarrow> deq m = Some (None, m)"
begin

text \<open>A run of additions and removals; the result lists what the removals returned.\<close>

fun run :: "'i option list \<Rightarrow> 'm \<Rightarrow> ('a list \<times> 'm) option" where
  "run [] m = Some ([], m)"
| "run (Some x # ops) m = Option.bind (enq x m) (\<lambda>m'. run ops m')"
| "run (None # ops) m = Option.bind (deq m) (\<lambda>(r, m').
     Option.bind (run ops m') (\<lambda>(out, m''). Some ((case r of None \<Rightarrow> out | Some x \<Rightarrow> x # out), m'')))"

lemma run_fifo:
  "rep m xs \<Longrightarrow> run ops m = Some (out, m') \<Longrightarrow>
   \<exists>ys. rep m' ys \<and> out @ ys = xs @ concat (map (case_option [] (\<lambda>i. [val i])) ops)"
proof (induction ops m arbitrary: xs out m' rule: run.induct)
  case (1 m)
  then show ?case by auto
next
  case (2 x ops m)
  then obtain m1 where "enq x m = Some m1" "run ops m1 = Some (out, m')"
    by (auto simp: bind_eq_Some_conv)
  with "2.IH" [of m1 "xs @ [val x]" out m'] "2.prems"(1) show ?case by (simp add: enq_rep)
next
  case (3 ops m)
  then obtain r m1 o1 where deq: "deq m = Some (r, m1)" and run: "run ops m1 = Some (o1, m')"
    and out: "out = (case r of None \<Rightarrow> o1 | Some x \<Rightarrow> x # o1)"
    by (auto simp: bind_eq_Some_conv)
  show ?case
  proof (cases xs)
    case Nil
    with "3.prems"(1) deq have "r = None" "m1 = m" using deq_empty [of m] by auto
    with "3.IH" [of "(r, m1)" r m1 "[]" o1 m'] "3.prems"(1) Nil run deq out show ?thesis by simp
  next
    case (Cons x ys)
    with "3.prems"(1) deq have "r = Some x" "rep m1 ys" using deq_rep [of m x ys] by auto
    with "3.IH" deq run out Cons show ?thesis by fastforce
  qed
qed

end


definition ll_data :: "nat \<Rightarrow> ll_mem \<Rightarrow> nat list \<Rightarrow> bool" where
  "ll_data h m ds \<longleftrightarrow> (\<exists>items. ll_rep m h (rev items) \<and> map (fst \<circ> snd) items = ds)"

text \<open>An addition with what \<^verbatim>\<open>malloc\<close> returned: an address that is not allocated.\<close>

definition ll_enq :: "nat \<Rightarrow> ll_item \<Rightarrow> ll_mem \<Rightarrow> ll_mem option" where
  "ll_enq h x m =
     (case x of (new, d, f) \<Rightarrow>
        if d \<noteq> 0 \<and> new \<noteq> 0 \<and> elems m new = None then map_option snd (linked_list_add h d f new m) else None)"

definition ll_deq :: "nat \<Rightarrow> ll_mem \<Rightarrow> (nat option \<times> ll_mem) option" where
  "ll_deq h m = map_option snd (linked_list_remove h True m)"

interpretation ll_fifo: fifo_store "ll_data h" "fst \<circ> snd" "ll_enq h" "ll_deq h" for h
proof
  fix m xs x m'
  assume "ll_data h m xs" and enq: "ll_enq h x m = Some m'"
  then obtain items where rep: "ll_rep m h (rev items)" and xs: "map (fst \<circ> snd) items = xs"
    by (auto simp: ll_data_def)
  obtain new d f where x: "x = (new, d, f)" by (cases x) auto
  with enq have "d \<noteq> 0" "new \<noteq> 0" "elems m new = None" by (auto simp: ll_enq_def split: if_splits)
  from ll_add [OF rep this, of f] obtain m1 where
    "linked_list_add h d f new m = Some (eLINKED_LIST_SUCCESS, m1)" "ll_rep m1 h ((new, d, f) # rev items)" by metis
  with enq x have "ll_rep m' h (rev (items @ [x]))" by (auto simp: ll_enq_def split: if_splits)
  with xs x show "ll_data h m' (xs @ [(fst \<circ> snd) x])"
    unfolding ll_data_def by (intro exI [of _ "items @ [x]"]) simp
next
  fix m x xs
  assume "ll_data h m (x # xs)"
  then obtain i items where rep: "ll_rep m h (rev items @ [i])" and xs: "map (fst \<circ> snd) items = xs" "fst (snd i) = x"
    by (auto simp: ll_data_def Cons_eq_map_conv map_eq_Cons_conv)
  obtain b d f where i: "i = (b, d, f)" by (cases i) auto
  obtain m' where "linked_list_remove h True m = Some (eLINKED_LIST_SUCCESS, Some d, m')" "ll_rep m' h (rev items)"
    using rep i by (auto elim: ll_remove)
  with xs i show "\<exists>m'. ll_deq h m = Some (Some x, m') \<and> ll_data h m' xs"
    by (auto simp: ll_deq_def ll_data_def)
next
  fix m
  assume "ll_data h m []"
  then show "ll_deq h m = Some (None, m)"
    by (auto simp: ll_data_def ll_deq_def ll_remove_empty)
qed

section \<open>Properties\<close>

text \<open>Any sequence of additions (that got an unallocated address from malloc) and removals on a
  well-formed list runs without a fault of its own and returns the data in first-in first-out order:
  what was returned followed by what is still in the list is what was there plus what was added.\<close>

theorem linked_list_fifo:
  assumes "ll_data h m xs" and "ll_fifo.run h ops m = Some (out, m')"
  shows "\<exists>ys. ll_data h m' ys \<and>
    out @ ys = xs @ concat (map (case_option [] (\<lambda>i. [fst (snd i)])) ops)"
  using ll_fifo.run_fifo [OF assms] by (simp add: comp_def)

text \<open>The search of the pointer structure never faults and is the search of the abstract list: it asks
  the callback about the data in list order, stops at the first it accepts, reports it when the caller
  wants it, and unlinks exactly that element (calling its destructor only when it is not reported).\<close>

theorem linked_list_search_refines:
  assumes "ll_rep m h xs" and "find_from equal xs s = (r, s')"
  shows "\<exists>err out m'. linked_list_search h copy equal rm m s = Some (err, out, m', s') \<and>
    (case r of
       None \<Rightarrow> out = None \<and> m' = m
     | Some (us, (b, d, f), vs) \<Rightarrow> xs = us @ (b, d, f) # vs \<and> out = (if copy then Some d else None) \<and>
         (if rm then ll_rep m' h (us @ vs) \<and> deallocs m' = deallocs m @ (if f \<and> \<not> copy then [d] else [])
          else m' = m))"
proof -
  obtain err out m' where m': "linked_list_search h copy equal rm m s = Some (err, out, m', s')"
    and post: "search_post copy rm h m [] r out m'"
    by (rule ll_search [OF assms])
  moreover have "xs = us @ (b, d, f) # vs" if "r = Some (us, (b, d, f), vs)" for us b d f vs
    using assms(2) that by (auto dest: find_from_Some)
  ultimately show ?thesis
    by (cases r) (auto simp: search_post_def split: prod.splits)
qed

text \<open>A flush terminates, frees every element and calls the destructor of each datum that has one,
  once and in list order.\<close>

theorem linked_list_flush_frees:
  assumes "ll_rep m h xs"
  shows "\<exists>m'. linked_list_flush h m = Some (eLINKED_LIST_SUCCESS, m') \<and> ll_rep m' h [] \<and>
    deallocs m' = deallocs m @ dealloc_data xs \<and> elems m' = (elems m) |` (- fst ` set xs)"
  using assms by (auto elim: ll_flush)

definition two_items :: ll_mem where
  "two_items = \<lparr>lists = [1 \<mapsto> \<lparr>p_head = 11, p_tail = 10\<rparr>],
     elems = [10 \<mapsto> \<lparr>el_next = 0, el_prev = 11, el_data = 70, el_dealloc = True\<rparr>,
              11 \<mapsto> \<lparr>el_next = 10, el_prev = 0, el_data = 80, el_dealloc = False\<rparr>], deallocs = []\<rparr>"

lemma two_items_rep: "ll_rep two_items 1 [(11, 80, False), (10, 70, True)]"
  by (simp add: ll_rep_def two_items_def)

lemma linked_list_fifo_witness:
  "\<exists>ys. ll_data 1 (snd (the (ll_fifo.run 1 [None, Some (10, 90, False), None] two_items))) ys \<and> [70, 80] @ ys = [70, 80, 90]"
proof -
  have "ll_data 1 two_items [70, 80]"
    unfolding ll_data_def using two_items_rep by (intro exI [of _ "[(10, 70, True), (11, 80, False)]"]) simp
  moreover obtain m' where "ll_fifo.run 1 [None, Some (10, 90, False), None] two_items = Some ([70, 80], m')"
    by (simp add: ll_deq_def ll_enq_def two_items_def linked_list_remove_def linked_list_add_def free_elem_def)
  ultimately show ?thesis
    using linked_list_fifo [of 1 two_items "[70, 80]" "[None, Some (10, 90, False), None]" "[70, 80]" m'] by simp
qed

lemma linked_list_search_refines_witness:
  "\<exists>err m'. linked_list_search 1 True (\<lambda>d s. (d = 70, s)) True two_items () = Some (err, Some 70, m', ()) \<and>
     ll_rep m' 1 [(11, 80, False)]"
  using linked_list_search_refines [OF two_items_rep,
      of "\<lambda>d s. (d = 70, s)" "()" "Some ([(11, 80, False)], (10, 70, True), [])" "()" True True]
  by auto

lemma linked_list_flush_frees_witness:
  "\<exists>m'. linked_list_flush 1 two_items = Some (eLINKED_LIST_SUCCESS, m') \<and> deallocs m' = [70]"
  using linked_list_flush_frees [OF two_items_rep] by (auto simp: two_items_def)

end
