(* ===== verification/Msg_Q.thy ===== *)
theory Msg_Q
  imports Linked_List
begin

text \<open>
  The blocking message queue of \<^verbatim>\<open>gps/utils/msg_q.cpp\<close> on top of the linked list.  Each code
  section under the mutex is one function of the state; a receiver that calls
  \<^verbatim>\<open>pthread_cond_wait\<close> is in the list \<open>waiters\<close>, one that was woken and has not yet
  re-acquired the mutex in \<open>woken\<close>.  The functions are composed to an interleaving semantics with
  any number of senders and receivers, spurious wake-ups included.
\<close>

section \<open>State\<close>

datatype msq_q_err_type =
  eMSG_Q_SUCCESS
| eMSG_Q_FAILURE_GENERAL
| eMSG_Q_INVALID_PARAMETER
| eMSG_Q_INVALID_HANDLE
| eMSG_Q_UNAVAILABLE_RESOURCE

record msg_q =
  msg_list :: nat
  unblocked :: bool

text \<open>\<open>msg_q_data\<close> is the queue a caller's handle points to, \<open>None\<close> for the null handle.\<close>

record mq_sys =
  q_mem :: ll_mem
  msg_q_data :: "msg_q option"
  waiters :: "nat list"
  woken :: "nat list"

fun convert_linked_list_err_type :: "linked_list_err_type \<Rightarrow> msq_q_err_type" where
  "convert_linked_list_err_type eLINKED_LIST_SUCCESS = eMSG_Q_SUCCESS"
| "convert_linked_list_err_type eLINKED_LIST_INVALID_PARAMETER = eMSG_Q_INVALID_PARAMETER"
| "convert_linked_list_err_type eLINKED_LIST_INVALID_HANDLE = eMSG_Q_INVALID_HANDLE"
| "convert_linked_list_err_type eLINKED_LIST_UNAVAILABLE_RESOURCE = eMSG_Q_UNAVAILABLE_RESOURCE"
| "convert_linked_list_err_type eLINKED_LIST_FAILURE_GENERAL = eMSG_Q_FAILURE_GENERAL"

section \<open>Creation and destruction\<close>

text \<open>
  The arguments are the results of the allocations of the queue and of its list, and whether the
  initialisations of the mutex and of the condition variable succeed.
\<close>

definition msg_q_init ::
  "bool \<Rightarrow> bool \<Rightarrow> nat \<Rightarrow> bool \<Rightarrow> bool \<Rightarrow> ll_mem \<Rightarrow> (msq_q_err_type \<times> msg_q option \<times> ll_mem) option" where
  "msg_q_init given alloc new_list mutex_ok cond_ok m =
     (if \<not> given then Some (eMSG_Q_INVALID_PARAMETER, None, m)
      else if \<not> alloc then Some (eMSG_Q_FAILURE_GENERAL, None, m)
      else (case linked_list_init True new_list m of
        (eLINKED_LIST_SUCCESS, Some l, m1) \<Rightarrow>
          if \<not> mutex_ok \<or> \<not> cond_ok then do {
            (r, h, m2) \<leftarrow> linked_list_destroy True l m1;
            Some (eMSG_Q_FAILURE_GENERAL, None, m2)
          } else Some (eMSG_Q_SUCCESS, Some \<lparr>msg_list = l, unblocked = False\<rparr>, m1)
      | (r, l, m1) \<Rightarrow> Some (eMSG_Q_FAILURE_GENERAL, None, m1)))"

definition msg_q_init2 :: "bool \<Rightarrow> nat \<Rightarrow> bool \<Rightarrow> bool \<Rightarrow> ll_mem \<Rightarrow> (msg_q option \<times> ll_mem) option" where
  "msg_q_init2 alloc new_list mutex_ok cond_ok m = do {
     (r, q, m1) \<leftarrow> msg_q_init True alloc new_list mutex_ok cond_ok m;
     Some (if r \<noteq> eMSG_Q_SUCCESS then None else q, m1)
   }"

definition msg_q_destroy :: "bool \<Rightarrow> mq_sys \<Rightarrow> (msq_q_err_type \<times> mq_sys) option" where
  "msg_q_destroy given s =
     (if \<not> given then Some (eMSG_Q_INVALID_HANDLE, s)
      else do {
        p_msg_q \<leftarrow> msg_q_data s;
        (r, h, m1) \<leftarrow> linked_list_destroy True (msg_list p_msg_q) (q_mem s);
        Some (eMSG_Q_SUCCESS, s\<lparr>q_mem := m1, msg_q_data := None\<rparr>)
      })"

section \<open>Sending and receiving\<close>

text \<open>\<^verbatim>\<open>pthread_cond_signal\<close> wakes one waiter, any one: \<open>pick\<close> chooses; a broadcast wakes all.\<close>

definition cond_signal :: "nat \<Rightarrow> mq_sys \<Rightarrow> mq_sys" where
  "cond_signal pick s =
     (let ws = waiters s; i = pick mod length ws
      in if ws = [] then s
         else s\<lparr>waiters := take i ws @ drop (Suc i) ws, woken := woken s @ [ws ! i]\<rparr>)"

definition cond_broadcast :: "mq_sys \<Rightarrow> mq_sys" where
  "cond_broadcast s = s\<lparr>waiters := [], woken := woken s @ waiters s\<rparr>"

definition msg_q_snd :: "nat \<Rightarrow> bool \<Rightarrow> nat \<Rightarrow> nat \<Rightarrow> mq_sys \<Rightarrow> (msq_q_err_type \<times> mq_sys) option" where
  "msg_q_snd msg_obj dealloc new pick s =
     (case msg_q_data s of
        None \<Rightarrow> Some (eMSG_Q_INVALID_HANDLE, s)
      | Some p_msg_q \<Rightarrow>
          if msg_obj = 0 then Some (eMSG_Q_INVALID_PARAMETER, s)
          else if unblocked p_msg_q then Some (eMSG_Q_UNAVAILABLE_RESOURCE, s)
          else do {
            (r, m1) \<leftarrow> linked_list_add (msg_list p_msg_q) msg_obj dealloc new (q_mem s);
            Some (convert_linked_list_err_type r, cond_signal pick (s\<lparr>q_mem := m1\<rparr>))
          })"

datatype rcv_result = Returned msq_q_err_type "nat option" | Waits

text \<open>
  The loop of \<^verbatim>\<open>msg_q_rcv\<close> runs with the mutex held: it either waits, and is re-entered when the
  thread is woken, or removes the oldest message.
\<close>

definition rcv_loop :: "nat \<Rightarrow> msg_q \<Rightarrow> mq_sys \<Rightarrow> (rcv_result \<times> mq_sys) option" where
  "rcv_loop tid p_msg_q s = do {
     e \<leftarrow> linked_list_empty (msg_list p_msg_q) (q_mem s);
     if e \<noteq> 0 \<and> \<not> unblocked p_msg_q then Some (Waits, s\<lparr>waiters := waiters s @ [tid]\<rparr>)
     else do {
       (r, obj, m1) \<leftarrow> linked_list_remove (msg_list p_msg_q) True (q_mem s);
       Some (Returned (convert_linked_list_err_type r) obj, s\<lparr>q_mem := m1\<rparr>)
     }
   }"

definition msg_q_rcv :: "nat \<Rightarrow> bool \<Rightarrow> mq_sys \<Rightarrow> (rcv_result \<times> mq_sys) option" where
  "msg_q_rcv tid given s =
     (case msg_q_data s of
        None \<Rightarrow> Some (Returned eMSG_Q_INVALID_HANDLE None, s)
      | Some p_msg_q \<Rightarrow>
          if \<not> given then Some (Returned eMSG_Q_INVALID_PARAMETER None, s)
          else if unblocked p_msg_q then Some (Returned eMSG_Q_UNAVAILABLE_RESOURCE None, s)
          else rcv_loop tid p_msg_q s)"

text \<open>A woken thread re-enters the loop; the queue must still exist.\<close>

definition rcv_resume :: "nat \<Rightarrow> mq_sys \<Rightarrow> (rcv_result \<times> mq_sys) option" where
  "rcv_resume tid s = do {
     p_msg_q \<leftarrow> msg_q_data s;
     rcv_loop tid p_msg_q (s\<lparr>woken := remove1 tid (woken s)\<rparr>)
   }"

definition msg_q_flush :: "mq_sys \<Rightarrow> (msq_q_err_type \<times> mq_sys) option" where
  "msg_q_flush s =
     (case msg_q_data s of
        None \<Rightarrow> Some (eMSG_Q_INVALID_HANDLE, s)
      | Some p_msg_q \<Rightarrow> do {
          (r, m1) \<leftarrow> linked_list_flush (msg_list p_msg_q) (q_mem s);
          Some (convert_linked_list_err_type r, s\<lparr>q_mem := m1\<rparr>)
        })"

definition msg_q_unblock :: "mq_sys \<Rightarrow> msq_q_err_type \<times> mq_sys" where
  "msg_q_unblock s =
     (case msg_q_data s of
        None \<Rightarrow> (eMSG_Q_INVALID_HANDLE, s)
      | Some p_msg_q \<Rightarrow>
          if unblocked p_msg_q then (eMSG_Q_UNAVAILABLE_RESOURCE, s)
          else (eMSG_Q_SUCCESS, cond_broadcast (s\<lparr>msg_q_data := Some (p_msg_q\<lparr>unblocked := True\<rparr>)\<rparr>)))"

section \<open>Interleavings\<close>

text \<open>
  A run of the queue: \<open>sent\<close> are the messages that were accepted, \<open>taken\<close> the messages that left the
  queue, in order, each with whether a receiver got it (\<open>True\<close>) or a flush dropped it.
\<close>

definition took :: "rcv_result \<Rightarrow> (nat \<times> bool) list" where
  "took r = (case r of Returned _ (Some d) \<Rightarrow> [(d, True)] | _ \<Rightarrow> [])"

definition queued :: "mq_sys \<Rightarrow> nat list \<Rightarrow> bool" where
  "queued s ds \<longleftrightarrow> (\<exists>q. msg_q_data s = Some q \<and> ll_data (msg_list q) (q_mem s) ds)"

inductive mq_run :: "mq_sys \<Rightarrow> nat list \<Rightarrow> (nat \<times> bool) list \<Rightarrow> bool" where
  run_init: "msg_q_init True True l True True m = Some (eMSG_Q_SUCCESS, Some q, m1) \<Longrightarrow>
    mq_run \<lparr>q_mem = m1, msg_q_data = Some q, waiters = [], woken = []\<rparr> [] []"
| run_snd: "mq_run s sent taken \<Longrightarrow> new = 0 \<or> elems (q_mem s) new = None \<Longrightarrow>
    msg_q_snd obj dealloc new pick s = Some (r, s') \<Longrightarrow>
    mq_run s' (if r = eMSG_Q_SUCCESS then sent @ [obj] else sent) taken"
| run_rcv: "mq_run s sent taken \<Longrightarrow> msg_q_rcv tid given s = Some (r, s') \<Longrightarrow> mq_run s' sent (taken @ took r)"
| run_resume: "mq_run s sent taken \<Longrightarrow> tid \<in> set (woken s) \<Longrightarrow> rcv_resume tid s = Some (r, s') \<Longrightarrow>
    mq_run s' sent (taken @ took r)"
| run_spurious: "mq_run s sent taken \<Longrightarrow> mq_run (cond_signal pick s) sent taken"
| run_flush: "mq_run s sent taken \<Longrightarrow> queued s ds \<Longrightarrow> msg_q_flush s = Some (r, s') \<Longrightarrow>
    mq_run s' sent (taken @ map (\<lambda>d. (d, False)) ds)"
| run_unblock: "mq_run s sent taken \<Longrightarrow> mq_run (snd (msg_q_unblock s)) sent taken"


section \<open>The list as the queue sees it\<close>

lemma ll_data_nonzero: "ll_data h m ds \<Longrightarrow> h \<noteq> 0"
  by (auto simp: ll_data_def ll_rep_def)

lemma ll_data_add:
  assumes "ll_data h m ds" and "d \<noteq> 0" and "new \<noteq> 0" and "elems m new = None"
  obtains m' where "linked_list_add h d f new m = Some (eLINKED_LIST_SUCCESS, m')" and "ll_data h m' (ds @ [d])"
proof -
  obtain items where "ll_rep m h (rev items)" using assms(1) by (auto simp: ll_data_def)
  from ll_add [OF this assms(2-4), of f] obtain m' where
    m': "linked_list_add h d f new m = Some (eLINKED_LIST_SUCCESS, m')" by blast
  then have "ll_enq h (new, d, f) m = Some m'" using assms by (simp add: ll_enq_def)
  from ll_fifo.enq_rep [OF assms(1) this] m' that show ?thesis by simp
qed

lemma ll_data_remove:
  assumes "ll_data h m (d # ds)"
  obtains m' where "linked_list_remove h True m = Some (eLINKED_LIST_SUCCESS, Some d, m')" and "ll_data h m' ds"
proof -
  obtain i items where rep: "ll_rep m h (rev items @ [i])" and xs: "map (fst \<circ> snd) items = ds" "fst (snd i) = d"
    using assms by (auto simp: ll_data_def Cons_eq_map_conv map_eq_Cons_conv)
  obtain b f where i: "i = (b, d, f)" using xs(2) by (cases i) auto
  obtain m' where "linked_list_remove h True m = Some (eLINKED_LIST_SUCCESS, Some d, m')" "ll_rep m' h (rev items)"
    using rep i by (auto elim: ll_remove)
  with xs that show ?thesis by (auto simp: ll_data_def)
qed

lemma ll_data_remove_empty:
  "ll_data h m [] \<Longrightarrow> linked_list_remove h True m = Some (eLINKED_LIST_UNAVAILABLE_RESOURCE, None, m)"
  by (auto simp: ll_data_def ll_remove_empty)

lemma ll_data_empty: "ll_data h m ds \<Longrightarrow> linked_list_empty h m = Some (if ds = [] then 1 else 0)"
  by (auto simp: ll_data_def ll_empty split: if_splits)

lemma ll_data_flush:
  assumes "ll_data h m ds"
  obtains m' where "linked_list_flush h m = Some (eLINKED_LIST_SUCCESS, m')" and "ll_data h m' []"
proof -
  obtain items where "ll_rep m h (rev items)" using assms by (auto simp: ll_data_def)
  then obtain m' where "linked_list_flush h m = Some (eLINKED_LIST_SUCCESS, m')" "ll_rep m' h []"
    by (auto elim: ll_flush)
  with that show ?thesis by (auto simp: ll_data_def)
qed

lemma ll_data_fresh: "ll_data h m ds \<Longrightarrow> ll_data h m ds' \<Longrightarrow> ds = ds'"
proof (induction "length ds" arbitrary: ds ds' m)
  case 0
  then show ?case using ll_data_empty [of h m ds] ll_data_empty [of h m ds'] by (auto split: if_splits)
next
  case (Suc n)
  then obtain d es where ds: "ds = d # es" by (cases ds) auto
  with Suc.prems obtain m' where m': "linked_list_remove h True m = Some (eLINKED_LIST_SUCCESS, Some d, m')" "ll_data h m' es"
    by (auto elim: ll_data_remove)
  have "ds' \<noteq> []" using ll_data_empty [OF Suc.prems(1)] ll_data_empty [of h m ds'] Suc.prems(2) ds by auto
  then obtain d' es' where ds': "ds' = d' # es'" by (cases ds') auto
  with Suc.prems obtain m'' where "linked_list_remove h True m = Some (eLINKED_LIST_SUCCESS, Some d', m'')" "ll_data h m'' es'"
    by (auto elim: ll_data_remove)
  with m' Suc.hyps ds ds' show ?case by fastforce
qed

lemmas queue_simps = msg_q_snd_def msg_q_rcv_def rcv_resume_def rcv_loop_def msg_q_flush_def msg_q_unblock_def

section \<open>The invariant\<close>

text \<open>
  Nothing is lost or reordered; a thread waits only while no message is left over for it: when
  threads wait, every queued message has a woken thread that is about to run; and no thread waits
  on an unblocked queue.
\<close>

definition mq_inv :: "mq_sys \<Rightarrow> nat list \<Rightarrow> (nat \<times> bool) list \<Rightarrow> bool" where
  "mq_inv s sent taken \<longleftrightarrow> (\<exists>q ds. msg_q_data s = Some q \<and> ll_data (msg_list q) (q_mem s) ds \<and>
     map fst taken @ ds = sent \<and> (waiters s \<noteq> [] \<longrightarrow> length ds \<le> length (woken s)) \<and>
     (unblocked q \<longrightarrow> waiters s = []))"

lemma mq_invI:
  "msg_q_data s = Some q \<Longrightarrow> ll_data (msg_list q) (q_mem s) ds \<Longrightarrow> map fst taken @ ds = sent \<Longrightarrow>
   (waiters s \<noteq> [] \<Longrightarrow> length ds \<le> length (woken s)) \<Longrightarrow> (unblocked q \<Longrightarrow> waiters s = []) \<Longrightarrow>
   mq_inv s sent taken"
  by (auto simp: mq_inv_def)

lemma cond_signal_simps [simp]:
  "q_mem (cond_signal p s) = q_mem s" "msg_q_data (cond_signal p s) = msg_q_data s"
  by (simp_all add: cond_signal_def Let_def)

lemma cond_signal_waiters:
  "waiters s = [] \<Longrightarrow> cond_signal p s = s"
  "waiters s \<noteq> [] \<Longrightarrow> length (woken (cond_signal p s)) = Suc (length (woken s))"
  by (simp_all add: cond_signal_def Let_def)

lemma mq_inv_snd:
  assumes inv: "mq_inv s sent taken" and new: "new = 0 \<or> elems (q_mem s) new = None"
    and snd: "msg_q_snd obj f new p s = Some (r, s')"
  shows "mq_inv s' (if r = eMSG_Q_SUCCESS then sent @ [obj] else sent) taken"
proof -
  obtain q ds where q: "msg_q_data s = Some q" "ll_data (msg_list q) (q_mem s) ds" "map fst taken @ ds = sent"
    "waiters s \<noteq> [] \<longrightarrow> length ds \<le> length (woken s)" "unblocked q \<longrightarrow> waiters s = []"
    using inv by (auto simp: mq_inv_def)
  show ?thesis
  proof (cases "obj \<noteq> 0 \<and> \<not> unblocked q")
    case False
    with snd q inv show ?thesis by (auto simp: msg_q_snd_def split: if_splits)
  next
    case True
    obtain m1 rr where add: "linked_list_add (msg_list q) obj f new (q_mem s) = Some (rr, m1)"
      and m1: "if new = 0 then rr = eLINKED_LIST_FAILURE_GENERAL \<and> m1 = q_mem s
        else rr = eLINKED_LIST_SUCCESS \<and> ll_data (msg_list q) m1 (ds @ [obj])"
    proof (cases "new = 0")
      case True
      with \<open>obj \<noteq> 0 \<and> \<not> unblocked q\<close> ll_data_nonzero [OF q(2)] that show ?thesis
        by (simp add: linked_list_add_def)
    next
      case False
      with new \<open>obj \<noteq> 0 \<and> \<not> unblocked q\<close> have "obj \<noteq> 0" "elems (q_mem s) new = None" by auto
      from ll_data_add [OF q(2) this(1) False this(2), of f] that False show ?thesis by metis
    qed
    have s': "s' = cond_signal p (s\<lparr>q_mem := m1\<rparr>)" "r = convert_linked_list_err_type rr"
      using snd add True q(1) by (simp_all add: msg_q_snd_def)
    show ?thesis
      using q m1 True
      by (cases "waiters s = []"; cases "new = 0")
        (auto simp: s' cond_signal_waiters intro!: mq_invI)
  qed
qed

text \<open>The receive loop, entered by a new thread or by a woken one.\<close>

lemma mq_inv_loop:
  assumes q: "msg_q_data s = Some q" "ll_data (msg_list q) (q_mem s) ds" "map fst taken @ ds = sent"
    and wait: "waiters s \<noteq> [] \<Longrightarrow> length ds \<le> Suc (length (woken s))"
    and unbl: "unblocked q \<longrightarrow> waiters s = []"
    and step: "rcv_loop tid q s = Some (r, s')"
  shows "mq_inv s' sent (taken @ took r)"
proof (cases ds)
  case Nil
  with q have e: "linked_list_empty (msg_list q) (q_mem s) = Some 1"
    by (simp add: ll_data_empty)
  show ?thesis
  proof (cases "unblocked q")
    case True
    with Nil q e unbl step show ?thesis
      by (intro mq_invI [of _ q "[]"]) (auto simp: rcv_loop_def ll_data_remove_empty took_def)
  next
    case False
    with Nil q e step show ?thesis
      by (intro mq_invI [of _ q "[]"]) (auto simp: rcv_loop_def took_def)
  qed
next
  case (Cons d es)
  with q obtain m1 where m1: "linked_list_remove (msg_list q) True (q_mem s) = Some (eLINKED_LIST_SUCCESS, Some d, m1)"
    "ll_data (msg_list q) m1 es"
    by (auto elim: ll_data_remove)
  with Cons q have "r = Returned eMSG_Q_SUCCESS (Some d)" "s' = s\<lparr>q_mem := m1\<rparr>"
    using step by (simp_all add: rcv_loop_def ll_data_empty)
  with Cons q m1 wait unbl show ?thesis
    by (intro mq_invI [of _ q es]) (auto simp: took_def)
qed

lemma mq_inv_run: "mq_run s sent taken \<Longrightarrow> mq_inv s sent taken"
proof (induction rule: mq_run.induct)
  case (run_init l m q m1)
  then show ?case
    by (intro mq_invI [of _ q "[]"])
      (auto simp: msg_q_init_def linked_list_init_def ll_data_def ll_rep_def split: if_splits)
next
  case (run_snd s sent taken new obj f p r s')
  then show ?case by (simp add: mq_inv_snd)
next
  case (run_rcv s sent taken tid given r s')
  then obtain q ds where q: "msg_q_data s = Some q" "ll_data (msg_list q) (q_mem s) ds" "map fst taken @ ds = sent"
    "waiters s \<noteq> [] \<longrightarrow> length ds \<le> length (woken s)" "unblocked q \<longrightarrow> waiters s = []"
    by (auto simp: mq_inv_def)
  show ?case
  proof (cases "given \<and> \<not> unblocked q")
    case True
    with run_rcv q show ?thesis
      by (intro mq_inv_loop [of s q ds taken sent tid r s']) (auto simp: msg_q_rcv_def)
  next
    case False
    with run_rcv q show ?thesis by (auto simp: msg_q_rcv_def took_def split: if_splits)
  qed
next
  case (run_resume s sent taken tid r s')
  then obtain q ds where q: "msg_q_data s = Some q" "ll_data (msg_list q) (q_mem s) ds" "map fst taken @ ds = sent"
    "waiters s \<noteq> [] \<longrightarrow> length ds \<le> length (woken s)" "unblocked q \<longrightarrow> waiters s = []"
    by (auto simp: mq_inv_def)
  have "length (woken s) \<le> Suc (length (remove1 tid (woken s)))"
    by (simp add: length_remove1) arith
  with run_resume q show ?case
    by (intro mq_inv_loop [of "s\<lparr>woken := remove1 tid (woken s)\<rparr>" q ds taken sent tid r s'])
      (auto simp: rcv_resume_def)
next
  case (run_spurious s sent taken p)
  then obtain q ds where q: "msg_q_data s = Some q" "ll_data (msg_list q) (q_mem s) ds" "map fst taken @ ds = sent"
    "waiters s \<noteq> [] \<longrightarrow> length ds \<le> length (woken s)" "unblocked q \<longrightarrow> waiters s = []"
    by (auto simp: mq_inv_def)
  with run_spurious.IH show ?case
    by (cases "waiters s = []") (auto simp: cond_signal_waiters intro!: mq_invI)
next
  case (run_flush s sent taken ds r s')
  then obtain q ds' where q: "msg_q_data s = Some q" "ll_data (msg_list q) (q_mem s) ds'" "map fst taken @ ds' = sent"
    "waiters s \<noteq> [] \<longrightarrow> length ds' \<le> length (woken s)" "unblocked q \<longrightarrow> waiters s = []"
    by (auto simp: mq_inv_def)
  from run_flush.hyps(2) q have "ds = ds'" by (auto simp: queued_def dest: ll_data_fresh)
  obtain m1 where "linked_list_flush (msg_list q) (q_mem s) = Some (eLINKED_LIST_SUCCESS, m1)" "ll_data (msg_list q) m1 []"
    using ll_data_flush [OF q(2)] by metis
  with run_flush.hyps(3) q \<open>ds = ds'\<close> show ?case
    by (intro mq_invI [of _ q "[]"]) (auto simp: msg_q_flush_def comp_def)
next
  case (run_unblock s sent taken)
  then obtain q ds where "msg_q_data s = Some q" "ll_data (msg_list q) (q_mem s) ds" "map fst taken @ ds = sent"
    "waiters s \<noteq> [] \<longrightarrow> length ds \<le> length (woken s)" "unblocked q \<longrightarrow> waiters s = []"
    by (auto simp: mq_inv_def)
  then show ?case
    by (cases "unblocked q")
      (auto simp: msg_q_unblock_def cond_broadcast_def intro!: mq_invI)
qed


section \<open>Properties\<close>

lemma mq_runD:
  assumes "mq_run s sent taken"
  obtains q ds where "msg_q_data s = Some q" and "ll_data (msg_list q) (q_mem s) ds" and "map fst taken @ ds = sent"
    and "waiters s \<noteq> [] \<Longrightarrow> length ds \<le> length (woken s)" and "unblocked q \<Longrightarrow> waiters s = []"
  using mq_inv_run [OF assms] by (auto simp: mq_inv_def)

text \<open>C4: In every interleaving of senders, receivers, flushes, spurious wake-ups and an unblock, messages
  leave the queue in exactly the order in which they were accepted, none lost and none duplicated: the
  messages that left followed by the messages still queued are the messages accepted.\<close>

theorem msg_q_fifo:
  assumes "mq_run s sent taken"
  shows "\<exists>ds. queued s ds \<and> map fst taken @ ds = sent"
  using assms by (elim mq_runD) (auto simp: queued_def)

text \<open>C29: No wake-up is lost: while a thread waits, every queued message has a woken thread that has yet
  to re-enter the receive loop; in particular a thread waits beside a queued message only if another
  one is about to run; and no thread stays waiting once the queue is unblocked.\<close>

theorem msg_q_no_lost_wakeup:
  assumes "mq_run s sent taken" and "waiters s \<noteq> []"
  shows "\<exists>q ds. msg_q_data s = Some q \<and> \<not> unblocked q \<and> queued s ds \<and> length ds \<le> length (woken s)"
  using assms by (elim mq_runD) (auto simp: queued_def)

text \<open>No operation faults in a reachable state: sending, receiving, resuming, flushing dereference
  only allocated elements, whatever address malloc hands out.\<close>

theorem msg_q_no_fault:
  assumes "mq_run s sent taken" and "new = 0 \<or> elems (q_mem s) new = None"
  shows "msg_q_snd obj f new p s \<noteq> None \<and> msg_q_rcv tid given s \<noteq> None \<and>
    rcv_resume tid s \<noteq> None \<and> msg_q_flush s \<noteq> None"
proof -
  obtain q ds where q: "msg_q_data s = Some q" and ds: "ll_data (msg_list q) (q_mem s) ds"
    using assms(1) by (elim mq_runD)
  have nz: "msg_list q \<noteq> 0" using ll_data_nonzero [OF ds] .
  have add: "linked_list_add (msg_list q) obj f new (q_mem s) \<noteq> None" if "obj \<noteq> 0"
  proof (cases "new = 0")
    case True
    with nz that show ?thesis by (simp add: linked_list_add_def)
  next
    case False
    with assms(2) ll_data_add [OF ds that False, of f] show ?thesis by (metis option.distinct(1))
  qed
  have rem: "linked_list_remove (msg_list q) True (q_mem s) \<noteq> None"
  proof (cases ds)
    case Nil
    with ds show ?thesis by (simp add: ll_data_remove_empty)
  next
    case (Cons d es)
    with ds ll_data_remove [of "msg_list q" "q_mem s" d es] show ?thesis by (metis option.distinct(1))
  qed
  have loop: "rcv_loop tid q s' \<noteq> None" if "q_mem s' = q_mem s" for s'
    using rem ds that by (auto simp: rcv_loop_def ll_data_empty)
  have "linked_list_flush (msg_list q) (q_mem s) \<noteq> None"
    using ll_data_flush [OF ds] by (metis option.distinct(1))
  with q add loop show ?thesis
    by (auto simp: msg_q_snd_def msg_q_rcv_def rcv_resume_def msg_q_flush_def)
qed

text \<open>After an unblock, every waiting thread has been woken, later sends and receives are refused
  without touching the queue, and a woken thread returns instead of waiting again.\<close>

theorem msg_q_unblock_releases:
  assumes "mq_run s sent taken" and "msg_q_unblock s = (eMSG_Q_SUCCESS, s')"
  shows "waiters s' = [] \<and> set (waiters s) \<subseteq> set (woken s') \<and>
    (obj \<noteq> 0 \<longrightarrow> msg_q_snd obj f new p s' = Some (eMSG_Q_UNAVAILABLE_RESOURCE, s')) \<and>
    msg_q_rcv tid True s' = Some (Returned eMSG_Q_UNAVAILABLE_RESOURCE None, s') \<and>
    (\<exists>r obj' s''. rcv_resume tid s' = Some (Returned r obj', s''))"
proof -
  obtain q ds where q: "msg_q_data s = Some q" and ds: "ll_data (msg_list q) (q_mem s) ds"
    using assms(1) by (elim mq_runD)
  have s': "s' = cond_broadcast (s\<lparr>msg_q_data := Some (q\<lparr>unblocked := True\<rparr>)\<rparr>)"
    using assms(2) q by (auto simp: msg_q_unblock_def split: if_splits)
  have "\<exists>r obj' m1. linked_list_remove (msg_list q) True (q_mem s) = Some (r, obj', m1)"
  proof (cases ds)
    case Nil
    with ds show ?thesis by (simp add: ll_data_remove_empty)
  next
    case (Cons d es)
    with ds ll_data_remove [of "msg_list q" "q_mem s" d es] show ?thesis by metis
  qed
  with q ds show ?thesis
    by (auto simp: s' cond_broadcast_def msg_q_snd_def msg_q_rcv_def rcv_resume_def rcv_loop_def ll_data_empty)
qed

text \<open>A state with a waiting receiver, for the examples.\<close>

definition waiting_sys :: mq_sys where
  "waiting_sys = \<lparr>q_mem = \<lparr>lists = [1 \<mapsto> \<lparr>p_head = 0, p_tail = 0\<rparr>], elems = Map.empty, deallocs = []\<rparr>,
     msg_q_data = Some \<lparr>msg_list = 1, unblocked = False\<rparr>, waiters = [5], woken = []\<rparr>"

lemma waiting_run: "mq_run waiting_sys [] []"
proof -
  let ?m = "\<lparr>lists = Map.empty, elems = Map.empty, deallocs = []\<rparr>"
  let ?m1 = "\<lparr>lists = [1 \<mapsto> \<lparr>p_head = 0, p_tail = 0\<rparr>], elems = Map.empty, deallocs = []\<rparr>"
  let ?q = "\<lparr>msg_list = 1, unblocked = False\<rparr>"
  have "mq_run \<lparr>q_mem = ?m1, msg_q_data = Some ?q, waiters = [], woken = []\<rparr> [] []"
    by (rule run_init [of 1 ?m]) (simp add: msg_q_init_def linked_list_init_def put_list_def)
  from run_rcv [OF this, of 5 True Waits waiting_sys] show ?thesis
    by (simp add: msg_q_rcv_def rcv_loop_def linked_list_empty_def waiting_sys_def took_def)
qed

lemma msg_q_fifo_witness: "queued waiting_sys []"
  using msg_q_fifo [OF waiting_run] by simp

lemma msg_q_no_lost_wakeup_witness: "\<exists>ds. queued waiting_sys ds \<and> length ds \<le> 0"
  using msg_q_no_lost_wakeup [OF waiting_run] by (auto simp: waiting_sys_def)

lemma msg_q_no_fault_witness: "msg_q_snd 7 True 9 0 waiting_sys \<noteq> None"
  using msg_q_no_fault [OF waiting_run, of 9 7 True 0] by (simp add: waiting_sys_def)

lemma msg_q_unblock_releases_witness:
  "set [5] \<subseteq> set (woken (snd (msg_q_unblock waiting_sys)))"
  using msg_q_unblock_releases [OF waiting_run, of "snd (msg_q_unblock waiting_sys)"]
  by (simp add: waiting_sys_def msg_q_unblock_def cond_broadcast_def)

end
