(* ===== verification/Msg_Task.thy ===== *)
theory Msg_Task
  imports Msg_Q
begin

text \<open>
  \<^verbatim>\<open>LocThread.cpp\<close> and \<^verbatim>\<open>MsgTask.cpp\<close>: a thread object that its creator and the spawned thread
  release independently, and the task that serves a message queue in such a thread.  The first part
  follows both threads statement by statement over the shared \<^verbatim>\<open>LocThreadDelegate\<close>; the second part
  runs the task's operations on the queue of \<^verbatim>\<open>msg_q.cpp\<close>.
\<close>

section \<open>The thread object\<close>

text \<open>What happens to the runnable: the calls the spawned thread makes on it, and its deletion.\<close>

datatype run_event = Prerun | Ran bool | Postrun | Deleted

text \<open>Where the spawned thread is in \<^verbatim>\<open>threadMain\<close> and, from \<open>T_Destroy\<close> on, in \<^verbatim>\<open>destroy\<close>.\<close>

datatype thread_pc =
  T_Init | T_Prerun | T_Loop | T_Run | T_Postrun | T_Null | T_Delete | T_Destroy | T_Dec | T_Free | T_End

text \<open>
  Where the creator is: in \<^verbatim>\<open>create\<close>, holding the thread object, in \<^verbatim>\<open>MsgTask::destroy\<close>, in \<^verbatim>\<open>stop\<close>,
  in \<^verbatim>\<open>destroy\<close>.
\<close>

datatype client_pc =
  C_Create | C_Hold | C_Unblock | C_TakeThread | C_Bye | C_Stop | C_JoinTest | C_Join | C_Destroy | C_Dec | C_Free | C_Done

datatype client_op = Op_stop | Op_delete | Op_task_destroy

text \<open>
  \<open>freed\<close> counts the deletions of the delegate, \<open>bad\<close> records an access to it after one, \<open>task_bad\<close>
  an access of \<^verbatim>\<open>MsgTask::destroy\<close> to the task after the spawned thread has deleted it; \<open>asked\<close> is
  the \<^verbatim>\<open>joinable\<close> argument and \<open>started\<close> what \<^verbatim>\<open>start\<close> returns.
\<close>

record thread_sys =
  mRunnable :: bool
  mJoinable :: bool
  mRefCount :: int
  t_pc :: thread_pc
  c_pc :: client_pc
  freed :: nat
  bad :: bool
  task_bad :: bool
  runs :: "run_event list"
  asked :: bool
  started :: bool

text \<open>The constructor; \<open>created\<close> is whether a thread came into being.\<close>

definition LocThreadDelegate_new :: "bool \<Rightarrow> bool \<Rightarrow> thread_sys" where
  "LocThreadDelegate_new joinable created =
     \<lparr>mRunnable = created, mJoinable = (joinable \<and> created), mRefCount = (if created then 2 else 1),
      t_pc = (if created then T_Init else T_End), c_pc = C_Create, freed = 0, bad = False, task_bad = False,
      runs = [], asked = (joinable \<and> created), started = False\<rparr>"

definition touch :: "thread_sys \<Rightarrow> thread_sys" where
  "touch s = s\<lparr>bad := (bad s \<or> 0 < freed s)\<rparr>"

definition touch_task :: "thread_sys \<Rightarrow> thread_sys" where
  "touch_task s = s\<lparr>task_bad := (task_bad s \<or> Deleted \<in> set (runs s))\<rparr>"

text \<open>One step of the spawned thread; \<open>r\<close> is what \<^verbatim>\<open>run\<close> returns when it is called.\<close>

definition thread_main :: "bool \<Rightarrow> thread_sys \<Rightarrow> thread_sys" where
  "thread_main r s =
     (case t_pc s of
        T_Init \<Rightarrow> (touch s)\<lparr>t_pc := if mRunnable s then T_Prerun else T_Destroy\<rparr>
      | T_Prerun \<Rightarrow> (touch s)\<lparr>runs := if mRunnable s then runs s @ [Prerun] else runs s, t_pc := T_Loop\<rparr>
      | T_Loop \<Rightarrow> (touch s)\<lparr>t_pc := if mRunnable s then T_Run else T_Postrun\<rparr>
      | T_Run \<Rightarrow> s\<lparr>runs := runs s @ [Ran r], t_pc := if r then T_Loop else T_Postrun\<rparr>
      | T_Postrun \<Rightarrow> (touch s)\<lparr>runs := if mRunnable s then runs s @ [Postrun] else runs s, t_pc := T_Null\<rparr>
      | T_Null \<Rightarrow> (touch s)\<lparr>mRunnable := False, t_pc := T_Delete\<rparr>
      | T_Delete \<Rightarrow> s\<lparr>runs := runs s @ [Deleted], t_pc := T_Destroy\<rparr>
      | T_Destroy \<Rightarrow> (touch s)\<lparr>t_pc := if mRefCount s > 0 then T_Dec else T_End\<rparr>
      | T_Dec \<Rightarrow> (touch s)\<lparr>t_pc := if mRefCount s = 1 then T_Free else T_End, mRefCount := mRefCount s - 1\<rparr>
      | T_Free \<Rightarrow> (touch s)\<lparr>freed := freed s + 1, t_pc := T_End\<rparr>
      | T_End \<Rightarrow> s)"

text \<open>
  One step of the creator; \<open>opr\<close> is what it does with the thread object when it holds it.  \<^verbatim>\<open>pthread_join\<close>
  waits for the end of the spawned thread.
\<close>

definition client_step :: "client_op \<Rightarrow> thread_sys \<Rightarrow> thread_sys" where
  "client_step opr s =
     (case c_pc s of
        C_Create \<Rightarrow> (touch s)\<lparr>started := mRunnable s, c_pc := if mRunnable s then C_Hold else C_Destroy\<rparr>
      | C_Hold \<Rightarrow> s\<lparr>c_pc := case opr of Op_stop \<Rightarrow> C_Stop | Op_delete \<Rightarrow> C_Bye | Op_task_destroy \<Rightarrow> C_Unblock\<rparr>
      | C_Unblock \<Rightarrow> (touch_task s)\<lparr>c_pc := C_TakeThread\<rparr>
      | C_TakeThread \<Rightarrow> (touch_task s)\<lparr>c_pc := C_Bye\<rparr>
      | C_Bye \<Rightarrow> (touch s)\<lparr>c_pc := if mJoinable s then C_Stop else C_Destroy\<rparr>
      | C_Stop \<Rightarrow> (touch s)\<lparr>mRunnable := False, c_pc := C_JoinTest\<rparr>
      | C_JoinTest \<Rightarrow> (touch s)\<lparr>c_pc := if mJoinable s then C_Join else C_Destroy, mJoinable := False\<rparr>
      | C_Join \<Rightarrow> if t_pc s = T_End then (touch s)\<lparr>c_pc := C_Destroy\<rparr> else s
      | C_Destroy \<Rightarrow> (touch s)\<lparr>c_pc := if mRefCount s > 0 then C_Dec else C_Done\<rparr>
      | C_Dec \<Rightarrow> (touch s)\<lparr>c_pc := if mRefCount s = 1 then C_Free else C_Done, mRefCount := mRefCount s - 1\<rparr>
      | C_Free \<Rightarrow> (touch s)\<lparr>freed := freed s + 1, c_pc := C_Done\<rparr>
      | C_Done \<Rightarrow> s)"

inductive thread_step :: "thread_sys \<Rightarrow> thread_sys \<Rightarrow> bool" where
  step_thread: "t_pc s \<noteq> T_End \<Longrightarrow> thread_step s (thread_main r s)"
| step_client: "c_pc s \<noteq> C_Done \<Longrightarrow> c_pc s = C_Join \<longrightarrow> t_pc s = T_End \<Longrightarrow> thread_step s (client_step opr s)"

inductive_cases thread_stepE: "thread_step s s'"

inductive thread_run :: "bool \<Rightarrow> bool \<Rightarrow> thread_sys \<Rightarrow> bool" for joinable created where
  run_new: "thread_run joinable created (LocThreadDelegate_new joinable created)"
| run_step: "thread_run joinable created s \<Longrightarrow> thread_step s s' \<Longrightarrow> thread_run joinable created s'"

section \<open>What a runnable may expect\<close>

text \<open>
  The contract of \<^verbatim>\<open>LocRunnable\<close>: \<^verbatim>\<open>prerun\<close> first, then \<^verbatim>\<open>run\<close> until it returns false, then
  \<^verbatim>\<open>postrun\<close>, and nothing after the deletion, which may come at any point.
\<close>

datatype life = Fresh | Ready | Over | Gone | Broken

fun life_step :: "life \<Rightarrow> run_event \<Rightarrow> life" where
  "life_step Fresh Prerun = Ready"
| "life_step Ready (Ran r) = (if r then Ready else Over)"
| "life_step Over Postrun = Over"
| "life_step Fresh Deleted = Gone"
| "life_step Ready Deleted = Gone"
| "life_step Over Deleted = Gone"
| "life_step _ _ = Broken"

definition life_of :: "run_event list \<Rightarrow> life" where
  "life_of es = fold (\<lambda>e l. life_step l e) es Fresh"

lemma life_of_Nil [simp]: "life_of [] = Fresh"
  and life_of_snoc [simp]: "life_of (es @ [e]) = life_step (life_of es) e"
  by (simp_all add: life_of_def)

lemma life_of_single [simp]: "life_of [e] = life_step Fresh e"
  by (simp add: life_of_def)

lemma life_of_Fresh: "life_of es = Fresh \<longleftrightarrow> es = []"
proof (cases es rule: rev_cases)
  case (snoc es' e)
  then show ?thesis by (cases "life_of es'"; cases e) simp_all
qed simp

section \<open>The invariant\<close>

definition thread_holds :: "thread_sys \<Rightarrow> bool" where
  "thread_holds s \<longleftrightarrow> t_pc s \<noteq> T_Free \<and> t_pc s \<noteq> T_End"

definition client_holds :: "thread_sys \<Rightarrow> bool" where
  "client_holds s \<longleftrightarrow> c_pc s \<noteq> C_Free \<and> c_pc s \<noteq> C_Done"

text \<open>The count is the number of holders; who counted down to zero deletes, once.\<close>

definition count_ok :: "thread_sys \<Rightarrow> bool" where
  "count_ok s \<longleftrightarrow>
     mRefCount s = of_bool (thread_holds s) + of_bool (client_holds s) \<and>
     \<not> (t_pc s = T_Free \<and> c_pc s = C_Free) \<and>
     (t_pc s = T_Free \<longrightarrow> c_pc s = C_Done) \<and> (c_pc s = C_Free \<longrightarrow> t_pc s = T_End) \<and>
     freed s = of_bool (t_pc s = T_End \<and> c_pc s = C_Done) \<and> \<not> bad s"

text \<open>A joinable thread that started is at its end when its creator goes on to release it.\<close>

definition join_ok :: "thread_sys \<Rightarrow> bool" where
  "join_ok s \<longleftrightarrow>
     mJoinable s = (asked s \<and> (c_pc s \<in> {C_Create, C_Hold, C_Unblock, C_TakeThread, C_Bye, C_Stop, C_JoinTest} \<or> \<not> started s)) \<and>
     (c_pc s \<in> {C_Destroy, C_Dec, C_Free, C_Done} \<and> asked s \<and> started s \<longrightarrow> t_pc s = T_End) \<and>
     (c_pc s = C_Create \<longrightarrow> \<not> started s) \<and>
     (c_pc s \<in> {C_Hold, C_Unblock, C_TakeThread, C_Bye, C_Stop, C_JoinTest, C_Join} \<longrightarrow> started s) \<and>
     (c_pc s = C_Join \<longrightarrow> \<not> mRunnable s) \<and> (c_pc s = C_JoinTest \<longrightarrow> \<not> mRunnable s)"

definition life_ok :: "thread_sys \<Rightarrow> bool" where
  "life_ok s \<longleftrightarrow>
     (case t_pc s of
        T_Init \<Rightarrow> life_of (runs s) = Fresh
      | T_Prerun \<Rightarrow> life_of (runs s) = Fresh
      | T_Loop \<Rightarrow> life_of (runs s) = Ready \<or> \<not> mRunnable s \<and> life_of (runs s) = Fresh
      | T_Run \<Rightarrow> life_of (runs s) = Ready
      | T_Postrun \<Rightarrow> life_of (runs s) = Over \<or> \<not> mRunnable s \<and> life_of (runs s) \<in> {Fresh, Ready}
      | T_Null \<Rightarrow> life_of (runs s) \<in> {Fresh, Ready, Over}
      | T_Delete \<Rightarrow> \<not> mRunnable s \<and> life_of (runs s) \<in> {Fresh, Ready, Over}
      | _ \<Rightarrow> \<not> mRunnable s \<and> (life_of (runs s) = Gone \<or> runs s = []))"

lemmas thread_inv_defs = count_ok_def thread_holds_def client_holds_def touch_def touch_task_def

lemma count_ok_thread: "count_ok s \<Longrightarrow> t_pc s \<noteq> T_End \<Longrightarrow> count_ok (thread_main r s)"
  by (cases "t_pc s"; cases "c_pc s") (simp_all add: thread_inv_defs thread_main_def)

lemma count_ok_client: "count_ok s \<Longrightarrow> c_pc s \<noteq> C_Done \<Longrightarrow> count_ok (client_step opr s)"
  by (cases "t_pc s"; cases "c_pc s") (simp_all add: thread_inv_defs client_step_def split: client_op.split)

lemma join_ok_thread: "join_ok s \<Longrightarrow> t_pc s \<noteq> T_End \<Longrightarrow> join_ok (thread_main r s)"
  by (cases "t_pc s"; cases "c_pc s") (simp_all add: join_ok_def touch_def thread_main_def)

lemma join_ok_client:
  "join_ok s \<Longrightarrow> c_pc s = C_Join \<longrightarrow> t_pc s = T_End \<Longrightarrow> join_ok (client_step opr s)"
  by (cases "c_pc s"; cases opr) (auto simp: join_ok_def touch_def touch_task_def client_step_def)

lemma life_ok_thread: "life_ok s \<Longrightarrow> t_pc s \<noteq> T_End \<Longrightarrow> life_ok (thread_main r s)"
  by (cases "t_pc s") (auto simp: life_ok_def touch_def thread_main_def life_of_Fresh)

lemma life_ok_client: "life_ok s \<Longrightarrow> life_ok (client_step opr s)"
  by (cases "c_pc s") (auto simp: life_ok_def touch_def touch_task_def client_step_def split: thread_pc.splits)

lemma asked_thread: "asked (thread_main r s) = asked s"
  by (simp add: thread_main_def touch_def split: thread_pc.split)

lemma asked_client: "asked (client_step opr s) = asked s"
  by (simp add: client_step_def touch_def touch_task_def split: client_pc.split)

lemma thread_inv_step:
  assumes "thread_step s s'" and "count_ok s \<and> join_ok s \<and> life_ok s"
  shows "count_ok s' \<and> join_ok s' \<and> life_ok s' \<and> asked s' = asked s"
  using assms
  by (auto elim!: thread_stepE simp: asked_thread asked_client intro: count_ok_thread count_ok_client
      join_ok_thread join_ok_client life_ok_thread life_ok_client)

lemma thread_inv_run:
  assumes "thread_run joinable created s"
  shows "count_ok s \<and> join_ok s \<and> life_ok s \<and> asked s = (joinable \<and> created)"
  using assms
proof (induction rule: thread_run.induct)
  case run_new
  then show ?case by (simp add: LocThreadDelegate_new_def thread_inv_defs join_ok_def life_ok_def)
next
  case (run_step s s')
  then show ?case using thread_inv_step by blast
qed

section \<open>Steps left after a stop\<close>









section \<open>Properties of the thread object\<close>

text \<open>C12: Whatever way the spawned thread and its creator interleave, joinable or detached, started or not,
  stopped or released, the shared delegate is never accessed after it has been deleted, it is deleted at
  most once, and it has been deleted once both threads are through.\<close>

theorem thread_released_once:
  assumes "thread_run joinable created s"
  shows "\<not> bad s \<and> freed s \<le> 1 \<and> (freed s = 1 \<longleftrightarrow> t_pc s = T_End \<and> c_pc s = C_Done)"
proof -
  have "count_ok s" using thread_inv_run [OF assms] by blast
  then have "\<not> bad s" "freed s = of_bool (t_pc s = T_End \<and> c_pc s = C_Done)" unfolding count_ok_def by blast+
  then show ?thesis by simp
qed

text \<open>A runnable sees its calls in the promised order in every interleaving: prerun first, run as long as
  it returns true, postrun only after a run that returned false, and no call at all after its deletion,
  which happens at most once; and the creator of a joinable thread that started is only through when the
  spawned thread is.\<close>

theorem runnable_life:
  assumes "thread_run joinable created s"
  shows "life_of (runs s) \<noteq> Broken \<and>
    (joinable \<and> created \<and> started s \<and> c_pc s = C_Done \<longrightarrow> t_pc s = T_End \<and> (runs s = [] \<or> life_of (runs s) = Gone))"
proof -
  have inv: "join_ok s" "life_ok s" "asked s = (joinable \<and> created)" using thread_inv_run [OF assms] by blast+
  from inv(2) have "life_of (runs s) \<noteq> Broken" by (cases "t_pc s") (auto simp: life_ok_def)
  moreover have "t_pc s = T_End \<and> (runs s = [] \<or> life_of (runs s) = Gone)"
    if "joinable" "created" "started s" "c_pc s = C_Done"
    using inv that by (auto simp: join_ok_def life_ok_def)
  ultimately show ?thesis by blast
qed


section \<open>Concrete schedules\<close>

text \<open>A schedule: a step of the spawned thread with the result of \<^verbatim>\<open>run\<close>, or a step of the creator.\<close>

fun schedule :: "(bool + client_op) list \<Rightarrow> thread_sys \<Rightarrow> thread_sys option" where
  "schedule [] s = Some s"
| "schedule (Inl r # ms) s = (if t_pc s = T_End then None else schedule ms (thread_main r s))"
| "schedule (Inr opr # ms) s =
     (if c_pc s = C_Done \<or> c_pc s = C_Join \<and> t_pc s \<noteq> T_End then None else schedule ms (client_step opr s))"

lemma schedule_run:
  "schedule ms s = Some s' \<Longrightarrow> thread_run joinable created s \<Longrightarrow> thread_run joinable created s'"
proof (induction ms s rule: schedule.induct)
  case (2 r ms s)
  then show ?case by (auto split: if_splits intro: run_step step_thread)
next
  case (3 opr ms s)
  then show ?case by (auto split: if_splits intro: run_step step_client)
qed simp


definition after :: "bool \<Rightarrow> (bool + client_op) list \<Rightarrow> thread_sys" where
  "after joinable ms = the (schedule ms (LocThreadDelegate_new joinable True))"

lemma after_run:
  "schedule ms (LocThreadDelegate_new joinable True) \<noteq> None \<Longrightarrow> thread_run joinable True (after joinable ms)"
  by (auto simp: after_def intro: schedule_run run_new)

definition stopped_in_run :: "(bool + client_op) list" where
  "stopped_in_run = [Inr Op_stop, Inl True, Inl True, Inl True, Inr Op_stop, Inr Op_stop, Inl True, Inr Op_stop,
     Inl True, Inl True, Inl True, Inl True, Inl True, Inl True, Inr Op_stop, Inr Op_stop, Inr Op_stop, Inr Op_stop]"

lemma thread_released_once_witness:
  "freed (after True stopped_in_run) = 1 \<and> \<not> bad (after True stopped_in_run)"
proof -
  have "schedule stopped_in_run (LocThreadDelegate_new True True) \<noteq> None" by code_simp
  moreover have "t_pc (after True stopped_in_run) = T_End" "c_pc (after True stopped_in_run) = C_Done" by code_simp+
  ultimately show ?thesis using thread_released_once [OF after_run] by blast
qed

lemma runnable_life_witness: "life_of (runs (after True stopped_in_run)) \<noteq> Broken"
proof -
  have "schedule stopped_in_run (LocThreadDelegate_new True True) \<noteq> None" by code_simp
  then show ?thesis using runnable_life [OF after_run] by blast
qed


text \<open>
  Three schedules that the code does not provide for: a stop before the thread has read the runnable's
  pointer, after which nobody deletes the runnable although \<^verbatim>\<open>start\<close> returned true; a runnable that
  ends before \<^verbatim>\<open>create\<close> tests the pointer, which is deleted although \<^verbatim>\<open>start\<close> returns false; and a task
  whose thread ends as soon as \<^verbatim>\<open>MsgTask::destroy\<close> has unblocked the queue, before \<^verbatim>\<open>destroy\<close> reads
  \<^verbatim>\<open>mThread\<close> of the task that the thread has just deleted.
\<close>

lemma stop_before_start_leaks:
  "\<exists>s. thread_run True True s \<and> t_pc s = T_End \<and> c_pc s = C_Done \<and> started s \<and> runs s = []"
proof -
  let ?ms = "replicate 4 (Inr Op_stop) @ replicate 3 (Inl True) @ replicate 4 (Inr Op_stop)"
  have "schedule ?ms (LocThreadDelegate_new True True) \<noteq> None \<and> t_pc (after True ?ms) = T_End \<and>
      c_pc (after True ?ms) = C_Done \<and> started (after True ?ms) \<and> runs (after True ?ms) = []"
    by code_simp
  then show ?thesis using after_run by blast
qed

lemma early_end_fails_start:
  "\<exists>s. thread_run False True s \<and> t_pc s = T_End \<and> c_pc s = C_Done \<and> \<not> started s \<and> Deleted \<in> set (runs s)"
proof -
  let ?ms = "replicate 9 (Inl False) @ replicate 4 (Inr Op_stop)"
  have "schedule ?ms (LocThreadDelegate_new False True) \<noteq> None \<and> t_pc (after False ?ms) = T_End \<and>
      c_pc (after False ?ms) = C_Done \<and> \<not> started (after False ?ms) \<and> Deleted \<in> set (runs (after False ?ms))"
    by code_simp
  then show ?thesis using after_run by blast
qed

lemma task_destroy_race: "\<exists>s. thread_run False True s \<and> task_bad s"
proof -
  let ?ms = "replicate 3 (Inl True) @ replicate 3 (Inr Op_task_destroy) @ replicate 4 (Inl False) @ [Inr Op_task_destroy]"
  have "schedule ?ms (LocThreadDelegate_new False True) \<noteq> None \<and> task_bad (after False ?ms)"
    by code_simp
  then show ?thesis using after_run by blast
qed

section \<open>The message task\<close>

text \<open>
  A task over its queue: \<open>procs\<close> are the messages whose \<^verbatim>\<open>proc\<close> was called, \<open>msgs_deleted\<close> those
  deleted by the task.  Null results are faults, as in the queue's model.
\<close>

record msg_task =
  mQ :: mq_sys
  procs :: "nat list"
  msgs_deleted :: "nat list"

definition MsgTask_sendMsg :: "nat \<Rightarrow> nat \<Rightarrow> nat \<Rightarrow> msg_task \<Rightarrow> msg_task option" where
  "MsgTask_sendMsg msg new pick t = do {
     (result, q) \<leftarrow> msg_q_snd msg True new pick (mQ t);
     Some (t\<lparr>mQ := q\<rparr>)
   }"

text \<open>\<^verbatim>\<open>run\<close> from the point where the receive returns; \<open>None\<close> while it has not.\<close>

definition the_list :: "nat option \<Rightarrow> nat list" where
  "the_list msg = (case msg of None \<Rightarrow> [] | Some d \<Rightarrow> [d])"

definition serve :: "rcv_result \<Rightarrow> msg_task \<Rightarrow> bool option \<times> msg_task" where
  "serve received t =
     (case received of
        Waits \<Rightarrow> (None, t)
      | Returned result msg \<Rightarrow>
          if result \<noteq> eMSG_Q_SUCCESS then (Some False, t)
          else (Some True, t\<lparr>procs := procs t @ the_list msg, msgs_deleted := msgs_deleted t @ the_list msg\<rparr>))"

definition MsgTask_run :: "nat \<Rightarrow> msg_task \<Rightarrow> (bool option \<times> msg_task) option" where
  "MsgTask_run tid t = do {
     (received, q) \<leftarrow> msg_q_rcv tid True (mQ t);
     Some (serve received (t\<lparr>mQ := q\<rparr>))
   }"

definition MsgTask_resume :: "nat \<Rightarrow> msg_task \<Rightarrow> (bool option \<times> msg_task) option" where
  "MsgTask_resume tid t = do {
     (received, q) \<leftarrow> rcv_resume tid (mQ t);
     Some (serve received (t\<lparr>mQ := q\<rparr>))
   }"

definition MsgTask_delete :: "msg_task \<Rightarrow> msg_task option" where
  "MsgTask_delete t = do {
     (r1, q1) \<leftarrow> msg_q_flush (mQ t);
     (r2, q2) \<leftarrow> msg_q_destroy True q1;
     Some (t\<lparr>mQ := q2\<rparr>)
   }"

text \<open>A task with any number of senders: \<open>accepted\<close> are the messages its queue took.\<close>

definition accepts :: "nat \<Rightarrow> nat \<Rightarrow> nat \<Rightarrow> msg_task \<Rightarrow> nat list" where
  "accepts msg new pick t =
     (case msg_q_snd msg True new pick (mQ t) of Some (eMSG_Q_SUCCESS, q) \<Rightarrow> [msg] | _ \<Rightarrow> [])"

inductive task_run :: "msg_task \<Rightarrow> nat list \<Rightarrow> bool" where
  task_new: "msg_q_init True True l True True m = Some (eMSG_Q_SUCCESS, Some q, m1) \<Longrightarrow>
    task_run \<lparr>mQ = \<lparr>q_mem = m1, msg_q_data = Some q, waiters = [], woken = []\<rparr>, procs = [], msgs_deleted = []\<rparr> []"
| task_send: "task_run t accepted \<Longrightarrow> new = 0 \<or> elems (q_mem (mQ t)) new = None \<Longrightarrow>
    MsgTask_sendMsg msg new pick t = Some t' \<Longrightarrow> task_run t' (accepted @ accepts msg new pick t)"
| task_serve: "task_run t accepted \<Longrightarrow> MsgTask_run tid t = Some (r, t') \<Longrightarrow> task_run t' accepted"
| task_resume: "task_run t accepted \<Longrightarrow> tid \<in> set (woken (mQ t)) \<Longrightarrow> MsgTask_resume tid t = Some (r, t') \<Longrightarrow>
    task_run t' accepted"
| task_spurious: "task_run t accepted \<Longrightarrow> task_run (t\<lparr>mQ := cond_signal pick (mQ t)\<rparr>) accepted"
| task_unblock: "task_run t accepted \<Longrightarrow> task_run (t\<lparr>mQ := snd (msg_q_unblock (mQ t))\<rparr>) accepted"

lemma serve_took:
  assumes "\<And>r obj. received = Returned r (Some obj) \<Longrightarrow> r = eMSG_Q_SUCCESS"
  shows "procs (snd (serve received t)) = procs t @ map fst (took received) \<and>
    msgs_deleted (snd (serve received t)) = msgs_deleted t @ map fst (took received) \<and> mQ (snd (serve received t)) = mQ t"
  using assms by (auto simp: serve_def took_def the_list_def split: rcv_result.split option.split)

text \<open>The queue hands out a message only with success.\<close>

lemma rcv_success:
  assumes "mq_run s sent taken" and "rcv_loop tid q s' = Some (Returned r (Some obj), s'')"
    and "msg_q_data s = Some q" and "q_mem s' = q_mem s"
  shows "r = eMSG_Q_SUCCESS"
proof -
  obtain ds where ds: "ll_data (msg_list q) (q_mem s) ds" using assms(1,3) by (elim mq_runD) simp
  show ?thesis
  proof (cases ds)
    case Nil
    with ds assms(2,4) show ?thesis
      by (auto simp: rcv_loop_def ll_data_empty ll_data_remove_empty split: if_splits)
  next
    case (Cons d es)
    with ds obtain m' where "linked_list_remove (msg_list q) True (q_mem s) = Some (eLINKED_LIST_SUCCESS, Some d, m')"
      by (auto elim: ll_data_remove)
    with Cons ds assms(2,4) show ?thesis by (auto simp: rcv_loop_def ll_data_empty)
  qed
qed

lemma task_queue_run:
  assumes "task_run t accepted"
  shows "msgs_deleted t = procs t \<and> (\<exists>taken. mq_run (mQ t) accepted taken \<and> map fst taken = procs t)"
  using assms
proof (induction rule: task_run.induct)
  case (task_new l m q m1)
  then show ?case by (auto intro!: exI [of _ "[]"] run_init)
next
  case (task_send t accepted new msg pick t')
  then obtain taken where run: "mq_run (mQ t) accepted taken" "map fst taken = procs t" by blast
  from task_send.hyps(3) obtain r q where snd: "msg_q_snd msg True new pick (mQ t) = Some (r, q)" and t': "t' = t\<lparr>mQ := q\<rparr>"
    by (auto simp: MsgTask_sendMsg_def split: Option.bind_splits)
  have "mq_run q (accepted @ accepts msg new pick t) taken"
    using run_snd [OF run(1) task_send.hyps(2) snd] snd by (cases r) (simp_all add: accepts_def)
  then show ?case using run(2) task_send.IH t' by auto
next
  case (task_serve t accepted tid r t')
  then obtain taken where run: "mq_run (mQ t) accepted taken" "map fst taken = procs t" by blast
  from task_serve.hyps(2) obtain received q where
    rcv: "msg_q_rcv tid True (mQ t) = Some (received, q)" and t': "t' = snd (serve received (t\<lparr>mQ := q\<rparr>))"
    by (auto simp: MsgTask_run_def split: Option.bind_splits)
  have "ra = eMSG_Q_SUCCESS" if "received = Returned ra (Some obj)" for ra obj
    using rcv that run(1) by (auto simp: msg_q_rcv_def split: option.splits if_splits intro: rcv_success)
  from serve_took [of received, OF this] run_rcv [OF run(1) rcv] run(2) task_serve.IH t'
  show ?case by (auto intro!: exI [of _ "taken @ took received"])
next
  case (task_resume t accepted tid r t')
  then obtain taken where run: "mq_run (mQ t) accepted taken" "map fst taken = procs t" by blast
  from task_resume.hyps(3) obtain received q where
    rcv: "rcv_resume tid (mQ t) = Some (received, q)" and t': "t' = snd (serve received (t\<lparr>mQ := q\<rparr>))"
    by (auto simp: MsgTask_resume_def split: Option.bind_splits)
  have "ra = eMSG_Q_SUCCESS" if "received = Returned ra (Some obj)" for ra obj
    using rcv that run(1) by (auto simp: rcv_resume_def split: Option.bind_splits intro: rcv_success)
  from serve_took [of received, OF this] run_resume [OF run(1) task_resume.hyps(2) rcv] run(2) task_resume.IH t'
  show ?case by (auto intro!: exI [of _ "taken @ took received"])
next
  case (task_spurious t accepted pick)
  then show ?case by (auto intro: run_spurious)
next
  case (task_unblock t accepted)
  then show ?case by (auto intro: run_unblock)
qed

text \<open>The task processes exactly the messages that its queue accepted, in the order of acceptance and each
  once, and deletes each message it has processed: what it has processed, followed by what is still
  queued, is what was accepted, in every interleaving of senders, the task and its unblocking.\<close>

theorem task_serves_in_order:
  assumes "task_run t accepted"
  shows "msgs_deleted t = procs t \<and> (\<exists>pending. queued (mQ t) pending \<and> procs t @ pending = accepted)"
proof -
  obtain taken where run: "mq_run (mQ t) accepted taken" "map fst taken = procs t" and del: "msgs_deleted t = procs t"
    using task_queue_run [OF assms] by blast
  from run obtain q ds where "msg_q_data (mQ t) = Some q" "ll_data (msg_list q) (q_mem (mQ t)) ds" "procs t @ ds = accepted"
    by (elim mq_runD) simp
  with del show ?thesis by (auto simp: queued_def)
qed

definition idle_task :: msg_task where
  "idle_task = \<lparr>mQ = \<lparr>q_mem = \<lparr>lists = [1 \<mapsto> \<lparr>p_head = 0, p_tail = 0\<rparr>], elems = Map.empty, deallocs = []\<rparr>,
     msg_q_data = Some \<lparr>msg_list = 1, unblocked = False\<rparr>, waiters = [], woken = []\<rparr>, procs = [], msgs_deleted = []\<rparr>"

lemma idle_task_run: "task_run idle_task []"
  unfolding idle_task_def
  by (rule task_new [of 1 "\<lparr>lists = Map.empty, elems = Map.empty, deallocs = []\<rparr>"])
    (simp add: msg_q_init_def linked_list_init_def put_list_def)

lemma task_serves_in_order_witness:
  "procs (snd (the (MsgTask_run 5 (the (MsgTask_sendMsg 7 9 0 idle_task))))) = [7] \<and>
   msgs_deleted (snd (the (MsgTask_run 5 (the (MsgTask_sendMsg 7 9 0 idle_task))))) = [7]"
proof -
  let ?t1 = "the (MsgTask_sendMsg 7 9 0 idle_task)"
  let ?t2 = "snd (the (MsgTask_run 5 ?t1))"
  have p: "MsgTask_sendMsg 7 9 0 idle_task = Some ?t1" "accepts 7 9 0 idle_task = [7]" "MsgTask_run 5 ?t1 = Some (Some True, ?t2)"
    "procs ?t2 = [7]" "9 = (0 :: nat) \<or> elems (q_mem (mQ idle_task)) 9 = None"
    by (simp_all add: idle_task_def MsgTask_sendMsg_def msg_q_snd_def accepts_def MsgTask_run_def msg_q_rcv_def rcv_loop_def
        linked_list_add_def linked_list_remove_def linked_list_empty_def cond_signal_def serve_def put_list_def put_elem_def free_elem_def the_list_def)
  from task_serve [OF task_send [OF idle_task_run p(5) p(1)] p(3)] p(2) have "task_run ?t2 [7]" by simp
  from task_serves_in_order [OF this] p(4) show ?thesis by simp
qed

text \<open>
  A message sent after the unblock is neither queued nor deleted: \<^verbatim>\<open>MsgTask_sendMsg\<close> ignores the refusal.
\<close>

lemma send_after_unblock_drops:
  "msg_q_data (mQ t) = Some q \<Longrightarrow> unblocked q \<Longrightarrow> MsgTask_sendMsg msg new pick t = Some t"
  by (simp add: MsgTask_sendMsg_def msg_q_snd_def)

end
