(* ===== verification/Agps.thy ===== *)
theory Agps
  imports Linked_List
begin

text \<open>
  The AGPS state machine of \<^verbatim>\<open>loc_eng_agps.cpp\<close> and \<^verbatim>\<open>loc_eng_agps.h\<close>: subscribers ask for a
  data connection, the four states request and release it from the connectivity service and tell
  the subscribers what happened.  Subscribers are values of one datatype, whose constructors are the
  classes; the subscriber list is the abstract list that \<^verbatim>\<open>linked_list.cpp\<close> implements
  (theory Linked_List).  Calls out of the machine are recorded in order in \<open>agps_out\<close>; the virtual
  method \<open>sendRsrcRequest\<close> is a parameter of the states, with the two implementations of the base
  class and of the data-service machine.
\<close>

section \<open>Data\<close>

datatype AgpsRsrcStatus =
  RSRC_SUBSCRIBE | RSRC_UNSUBSCRIBE | RSRC_GRANTED | RSRC_RELEASED | RSRC_DENIED | RSRC_STATUS_MAX

datatype AGpsStatusValue = GPS_REQUEST_AGPS_DATA_CONN | GPS_RELEASE_AGPS_DATA_CONN

datatype servicerType = servicerTypeNoCbParam | servicerTypeAgps | servicerTypeExt

datatype subscriber =
  BITSubscriber u32 "u8 list"                              \<comment> \<open>ID, IPv6 address\<close>
| ATLSubscriber u32 bool                                   \<comment> \<open>ID, backward compatible mode\<close>
| WIFISubscriber u32 "string option" "string option" bool  \<comment> \<open>sender, SSID, password, inactive\<close>
| DSSubscriber u32 bool                                    \<comment> \<open>ID, inactive\<close>

fun sub_ID :: "subscriber \<Rightarrow> u32" where
  "sub_ID (BITSubscriber i _) = i"
| "sub_ID (ATLSubscriber i _) = i"
| "sub_ID (WIFISubscriber i _ _ _) = i"
| "sub_ID (DSSubscriber i _) = i"

text \<open>Whether a notification goes to one subscriber or to a group.\<close>

datatype rcver =
  For subscriber
| BROADCAST_ALL
| BROADCAST_ACTIVE
| BROADCAST_INACTIVE

record Notification =
  rcver :: rcver
  rsrcStatus :: AgpsRsrcStatus
  postNotifyDelete :: bool

definition INADDR_NONE :: u32 where
  "INADDR_NONE = 0xFFFFFFFF"

text \<open>\<^verbatim>\<open>strncmp\<close> of two arrays compares equal: up to the first common zero byte.\<close>

fun strncmp_eq :: "nat \<Rightarrow> u8 list \<Rightarrow> u8 list \<Rightarrow> bool" where
  "strncmp_eq (Suc n) (a # as) (b # bs) = (a = b \<and> (a = 0 \<or> strncmp_eq n as bs))"
| "strncmp_eq _ _ _ = True"

text \<open>
  \<open>equals\<close> and the virtual getters.  The cast in \<^verbatim>\<open>BITSubscriber::equals\<close> assumes that the
  argument is a BIT subscriber; for others the addresses are taken to be different.
\<close>

fun sub_equals :: "subscriber \<Rightarrow> subscriber \<Rightarrow> bool" where
  "sub_equals (BITSubscriber i v6) s =
     (i = sub_ID s \<and>
      (i \<noteq> INADDR_NONE \<or> (case s of BITSubscriber _ w6 \<Rightarrow> strncmp_eq 16 v6 w6 | _ \<Rightarrow> False)))"
| "sub_equals s1 s = (sub_ID s1 = sub_ID s)"

fun isInactive :: "subscriber \<Rightarrow> bool" where
  "isInactive (WIFISubscriber _ _ _ b) = b"
| "isInactive (DSSubscriber _ b) = b"
| "isInactive _ = False"

fun waitForCloseComplete :: "subscriber \<Rightarrow> bool" where
  "waitForCloseComplete (WIFISubscriber _ _ _ _) = True"
| "waitForCloseComplete (DSSubscriber _ _) = True"
| "waitForCloseComplete _ = False"

text \<open>\<open>clone\<close> constructs afresh, so the clone is active.\<close>

fun sub_clone :: "subscriber \<Rightarrow> subscriber" where
  "sub_clone (WIFISubscriber i ss pw _) = WIFISubscriber i ss pw False"
| "sub_clone (DSSubscriber i _) = DSSubscriber i False"
| "sub_clone s = s"

fun setWifiInfo :: "subscriber \<Rightarrow> string \<times> string" where
  "setWifiInfo (WIFISubscriber _ ss pw _) =
     (case ss of None \<Rightarrow> [] | Some x \<Rightarrow> x, case pw of None \<Rightarrow> [] | Some x \<Rightarrow> x)"
| "setWifiInfo _ = ([], [])"

definition forMe :: "Notification \<Rightarrow> subscriber \<Rightarrow> bool" where
  "forMe n s =
     (case rcver n of
        For r \<Rightarrow> sub_equals s r
      | BROADCAST_ALL \<Rightarrow> True
      | BROADCAST_ACTIVE \<Rightarrow> \<not> isInactive s
      | BROADCAST_INACTIVE \<Rightarrow> isInactive s)"

section \<open>The machine\<close>

datatype data_conn_msg =
  GPSONE_LOC_API_IF_REQUEST_SUCCESS | GPSONE_LOC_API_IF_RELEASE_SUCCESS | GPSONE_LOC_API_IF_FAILURE

text \<open>The calls out: to the daemon, to the adapter, to the connectivity service, and of the retry timer.\<close>

datatype agps_call =
  DataConn u32 data_conn_msg
| AtlCloseStatus u32 int
| AtlOpenStatus u32 int "string option" int int
| NifRequest servicerType int AGpsStatusValue "(string \<times> string) option"
| DataCall AGpsStatusValue
| CloseDataCall
| RequestATL u32
| RequestSuplES u32
| TimerStart

datatype agps_state = ReleasedState | PendingState | AcquiredState | ReleasingState

record agps_sm =
  mStatePtr :: agps_state
  mSubscribers :: "subscriber list"
  mServicer :: servicerType
  mType :: int
  mAPN :: "string option"
  mBearer :: int
  mEnforceSingleSubscriber :: bool
  mRetries :: u8
  agps_out :: "agps_call list"

definition agps_call_out :: "agps_call \<Rightarrow> agps_sm \<Rightarrow> agps_sm" where
  "agps_call_out c sm = sm\<lparr>agps_out := agps_out sm @ [c]\<rparr>"

definition GPSONE_DAEMON :: u32 where
  "GPSONE_DAEMON = 3"

text \<open>\<^verbatim>\<open>DSStateMachine::informStatus\<close>.\<close>

fun informStatus :: "AgpsRsrcStatus \<Rightarrow> u32 \<Rightarrow> agps_sm \<Rightarrow> agps_sm" where
  "informStatus RSRC_UNSUBSCRIBE i sm = agps_call_out (AtlCloseStatus i 1) sm"
| "informStatus RSRC_RELEASED i sm = agps_call_out CloseDataCall sm"
| "informStatus RSRC_DENIED i sm = agps_call_out (RequestATL i) (sm\<lparr>mRetries := 0\<rparr>)"
| "informStatus RSRC_GRANTED i sm = agps_call_out (AtlOpenStatus i 1 None (- 1) (- 1)) sm"
| "informStatus _ i sm = sm"

text \<open>\<open>notifyRsrcStatus\<close> of the four classes.\<close>

definition bit_notify :: "Notification \<Rightarrow> subscriber \<Rightarrow> agps_sm \<Rightarrow> bool \<times> agps_sm" where
  "bit_notify n s sm =
     (if \<not> forMe n s then (False, sm)
      else (case rsrcStatus n of
        RSRC_UNSUBSCRIBE \<Rightarrow> (True, agps_call_out (DataConn GPSONE_DAEMON GPSONE_LOC_API_IF_RELEASE_SUCCESS) sm)
      | RSRC_RELEASED \<Rightarrow> (True, agps_call_out (DataConn GPSONE_DAEMON GPSONE_LOC_API_IF_RELEASE_SUCCESS) sm)
      | RSRC_DENIED \<Rightarrow> (True, agps_call_out (DataConn GPSONE_DAEMON GPSONE_LOC_API_IF_FAILURE) sm)
      | RSRC_GRANTED \<Rightarrow> (True, agps_call_out (DataConn GPSONE_DAEMON GPSONE_LOC_API_IF_REQUEST_SUCCESS) sm)
      | _ \<Rightarrow> (False, sm)))"

definition atl_notify :: "Notification \<Rightarrow> subscriber \<Rightarrow> bool \<Rightarrow> agps_sm \<Rightarrow> bool \<times> agps_sm" where
  "atl_notify n s backward sm =
     (let type = (if backward then - 1 else mType sm)
      in if \<not> forMe n s then (False, sm)
         else (case rsrcStatus n of
           RSRC_UNSUBSCRIBE \<Rightarrow> (True, agps_call_out (AtlCloseStatus (sub_ID s) 1) sm)
         | RSRC_RELEASED \<Rightarrow> (True, agps_call_out (AtlCloseStatus (sub_ID s) 1) sm)
         | RSRC_DENIED \<Rightarrow> (True, agps_call_out (AtlOpenStatus (sub_ID s) 0 (mAPN sm) (mBearer sm) type) sm)
         | RSRC_GRANTED \<Rightarrow> (True, agps_call_out (AtlOpenStatus (sub_ID s) 1 (mAPN sm) (mBearer sm) type) sm)
         | _ \<Rightarrow> (False, sm)))"

definition wifi_notify :: "Notification \<Rightarrow> subscriber \<Rightarrow> agps_sm \<Rightarrow> bool \<times> agps_sm" where
  "wifi_notify n s sm =
     (if \<not> forMe n s then (False, sm)
      else (case rsrcStatus n of
        RSRC_UNSUBSCRIBE \<Rightarrow> (True, sm)
      | RSRC_RELEASED \<Rightarrow> (True, agps_call_out (DataConn (sub_ID s) GPSONE_LOC_API_IF_RELEASE_SUCCESS) sm)
      | RSRC_DENIED \<Rightarrow> (True, agps_call_out (DataConn (sub_ID s) GPSONE_LOC_API_IF_FAILURE) sm)
      | RSRC_GRANTED \<Rightarrow> (True, agps_call_out (DataConn (sub_ID s) GPSONE_LOC_API_IF_REQUEST_SUCCESS) sm)
      | _ \<Rightarrow> (False, sm)))"

definition ds_notify :: "Notification \<Rightarrow> subscriber \<Rightarrow> agps_sm \<Rightarrow> bool \<times> agps_sm" where
  "ds_notify n s sm =
     (if \<not> forMe n s then (False, sm)
      else if rsrcStatus n \<in> {RSRC_UNSUBSCRIBE, RSRC_RELEASED, RSRC_DENIED, RSRC_GRANTED}
      then (True, informStatus (rsrcStatus n) (sub_ID s) sm)
      else (False, sm))"

fun notifyRsrcStatus :: "Notification \<Rightarrow> subscriber \<Rightarrow> agps_sm \<Rightarrow> bool \<times> agps_sm" where
  "notifyRsrcStatus n (BITSubscriber i v6) sm = bit_notify n (BITSubscriber i v6) sm"
| "notifyRsrcStatus n (ATLSubscriber i c) sm = atl_notify n (ATLSubscriber i c) c sm"
| "notifyRsrcStatus n (WIFISubscriber i ss pw b) sm = wifi_notify n (WIFISubscriber i ss pw b) sm"
| "notifyRsrcStatus n (DSSubscriber i b) sm = ds_notify n (DSSubscriber i b) sm"

text \<open>\<open>setInactive\<close> of a subscriber, with what the class tells the outside.\<close>

fun setInactive :: "subscriber \<Rightarrow> subscriber" where
  "setInactive (WIFISubscriber i ss pw _) = WIFISubscriber i ss pw True"
| "setInactive (DSSubscriber i _) = DSSubscriber i True"
| "setInactive s = s"

fun setInactive_out :: "subscriber \<Rightarrow> agps_sm \<Rightarrow> agps_sm" where
  "setInactive_out (DSSubscriber i _) sm = informStatus RSRC_UNSUBSCRIBE i sm"
| "setInactive_out _ sm = sm"

section \<open>The subscriber list\<close>

text \<open>
  The operations of the linked list on its abstraction; the callback of a search acts on the
  machine's calls.
\<close>

fun list_search :: "('a \<Rightarrow> 's \<Rightarrow> bool \<times> 's) \<Rightarrow> bool \<Rightarrow> 'a list \<Rightarrow> 's \<Rightarrow> 'a option \<times> 'a list \<times> 's" where
  "list_search equal rm [] s = (None, [], s)"
| "list_search equal rm (x # xs) s =
     (case equal x s of (found, s1) \<Rightarrow>
        if found then (Some x, if rm then xs else x # xs, s1)
        else (case list_search equal rm xs s1 of (r, ys, s2) \<Rightarrow> (r, x # ys, s2)))"

definition hasSubscriber :: "Notification \<Rightarrow> subscriber \<Rightarrow> agps_sm \<Rightarrow> bool \<times> agps_sm" where
  "hasSubscriber n s1 sm = (forMe n s1, sm)"

definition notifySubscriber :: "Notification \<Rightarrow> subscriber \<Rightarrow> agps_sm \<Rightarrow> bool \<times> agps_sm" where
  "notifySubscriber n s1 sm =
     (case notifyRsrcStatus n s1 sm of (notified, sm1) \<Rightarrow> (notified \<and> postNotifyDelete n, sm1))"

definition findSubscriber :: "Notification \<Rightarrow> agps_sm \<Rightarrow> subscriber option" where
  "findSubscriber n sm = fst (list_search (hasSubscriber n) False (mSubscribers sm) sm)"

definition search_notification :: "rcver \<Rightarrow> Notification" where
  "search_notification r = \<lparr>rcver = r, rsrcStatus = RSRC_STATUS_MAX, postNotifyDelete = False\<rparr>"

definition hasSubscribers :: "agps_sm \<Rightarrow> bool" where
  "hasSubscribers sm \<longleftrightarrow> mSubscribers sm \<noteq> []"

definition hasActiveSubscribers :: "agps_sm \<Rightarrow> bool" where
  "hasActiveSubscribers sm \<longleftrightarrow> findSubscriber (search_notification BROADCAST_ACTIVE) sm \<noteq> None"

definition dropAllSubscribers :: "agps_sm \<Rightarrow> agps_sm" where
  "dropAllSubscribers sm = sm\<lparr>mSubscribers := []\<rparr>"

definition addSubscriber :: "subscriber \<Rightarrow> agps_sm \<Rightarrow> agps_sm" where
  "addSubscriber s sm =
     (case findSubscriber (search_notification (For s)) sm of
        None \<Rightarrow> sm\<lparr>mSubscribers := sub_clone s # mSubscribers sm\<rparr>
      | Some _ \<Rightarrow> sm)"

lemma list_search_shorter:
  "list_search equal True xs s = (Some x, ys, s') \<Longrightarrow> length ys < length xs"
  by (induction equal "True" xs s arbitrary: ys s' rule: list_search.induct)
    (auto split: prod.splits if_splits)

text \<open>
  \<^verbatim>\<open>notifySubscribers\<close>: with deletion, one search per deleted subscriber, until a search
  deletes nothing; without, one search that notifies all.
\<close>

function notify_delete_loop :: "Notification \<Rightarrow> agps_sm \<Rightarrow> agps_sm" where
  "notify_delete_loop n sm =
     (case list_search (notifySubscriber n) True (mSubscribers sm) sm of
        (None, _, sm1) \<Rightarrow> sm1
      | (Some s, ys, sm1) \<Rightarrow> notify_delete_loop n (sm1\<lparr>mSubscribers := ys\<rparr>))"
  by pat_completeness auto
termination
  by (relation "measure (\<lambda>(n, sm). length (mSubscribers sm))") (auto dest: list_search_shorter [OF sym])

declare notify_delete_loop.simps [simp del]

definition notifySubscribers :: "Notification \<Rightarrow> agps_sm \<Rightarrow> agps_sm" where
  "notifySubscribers n sm =
     (if postNotifyDelete n then notify_delete_loop n sm
      else snd (snd (list_search (notifySubscriber n) False (mSubscribers sm) sm)))"

section \<open>Requests to the connectivity service\<close>

text \<open>\<^verbatim>\<open>AgpsStateMachine::sendRsrcRequest\<close>: ask only with, release only without active subscribers.\<close>

definition sendRsrcRequest :: "AGpsStatusValue \<Rightarrow> agps_sm \<Rightarrow> int \<times> agps_sm" where
  "sendRsrcRequest action sm =
     (let s = findSubscriber (search_notification BROADCAST_ACTIVE) sm
      in (0, if (s = None) = (action = GPS_RELEASE_AGPS_DATA_CONN)
             then agps_call_out (NifRequest (mServicer sm) (mType sm) action (map_option setWifiInfo s)) sm
             else sm))"

text \<open>
  \<^verbatim>\<open>DSStateMachine::sendRsrcRequest\<close>; \<open>ext\<close> is what the servicer's callback returns.  A timer that
  is started has a non-null handle, which the code takes for an error.
\<close>

definition ds_sendRsrcRequest ::
  "(agps_sm \<Rightarrow> AGpsStatusValue \<Rightarrow> int) \<Rightarrow> AGpsStatusValue \<Rightarrow> agps_sm \<Rightarrow> int \<times> agps_sm" where
  "ds_sendRsrcRequest ext action sm =
     (let connHandle = (case findSubscriber (search_notification BROADCAST_ACTIVE) sm of
            None \<Rightarrow> - 1 | Some s \<Rightarrow> sub_ID s);
          ret = ext sm action;
          sm1 = agps_call_out (DataCall action) sm
      in if ret = 6 then
           (let sm2 = sm1\<lparr>mRetries := mRetries sm1 + 1\<rparr>
            in if mRetries sm2 > 4 then (ret, informStatus RSRC_DENIED connHandle sm2)
               else (- 1, agps_call_out TimerStart sm2))
         else if ret = 2 then (ret, informStatus RSRC_DENIED connHandle sm1)
         else if ret = 0 then (ret, sm1)
         else if ret = - 1 then (ret, informStatus RSRC_DENIED connHandle sm1)
         else (ret, sm1))"

definition retryCallback :: "agps_sm \<Rightarrow> agps_sm" where
  "retryCallback sm =
     (case findSubscriber (search_notification BROADCAST_ACTIVE) sm of
        None \<Rightarrow> sm
      | Some s \<Rightarrow> agps_call_out (RequestSuplES (sub_ID s)) sm)"

section \<open>The states\<close>

text \<open>
  The \<open>data\<close> of an event: the caller's subscriber for \<open>RSRC_SUBSCRIBE\<close>, a position in the list for
  \<open>RSRC_UNSUBSCRIBE\<close> (the code passes the pointer that a search of the list has found).
\<close>

datatype event_data = NoData | NewSub subscriber | ListSub nat

type_synonym send_fun = "AGpsStatusValue \<Rightarrow> agps_sm \<Rightarrow> int \<times> agps_sm"

definition setInactive_at :: "nat \<Rightarrow> agps_sm \<Rightarrow> agps_sm" where
  "setInactive_at i sm =
     (let s = mSubscribers sm ! i
      in setInactive_out s (sm\<lparr>mSubscribers := (mSubscribers sm)[i := setInactive s]\<rparr>))"

text \<open>The first part of the \<open>RSRC_UNSUBSCRIBE\<close> cases: mark inactive, or notify and delete.\<close>

definition close_subscriber :: "nat \<Rightarrow> agps_sm \<Rightarrow> agps_sm" where
  "close_subscriber i sm =
     (let s = mSubscribers sm ! i
      in if waitForCloseComplete s then setInactive_at i sm
         else notifySubscribers \<lparr>rcver = For s, rsrcStatus = RSRC_UNSUBSCRIBE, postNotifyDelete = True\<rparr> sm)"

text \<open>The second part, in the states that hold or await the resource: release it when nobody is left.\<close>

definition release_if_unused :: "send_fun \<Rightarrow> agps_state \<Rightarrow> agps_sm \<Rightarrow> agps_state \<times> agps_sm" where
  "release_if_unused send this sm =
     (if \<not> hasSubscribers sm then (ReleasedState, snd (send GPS_RELEASE_AGPS_DATA_CONN sm))
      else if \<not> hasActiveSubscribers sm then (ReleasingState, snd (send GPS_RELEASE_AGPS_DATA_CONN sm))
      else (this, sm))"

fun released_onRsrcEvent :: "send_fun \<Rightarrow> AgpsRsrcStatus \<Rightarrow> event_data \<Rightarrow> agps_sm \<Rightarrow> agps_state \<times> agps_sm" where
  "released_onRsrcEvent send RSRC_SUBSCRIBE (NewSub s) sm =
     (case send GPS_REQUEST_AGPS_DATA_CONN (addSubscriber s sm) of
        (ret, sm1) \<Rightarrow> (if ret = 0 then PendingState else ReleasedState, sm1))"
| "released_onRsrcEvent send RSRC_UNSUBSCRIBE (ListSub i) sm =
     (let s = mSubscribers sm ! i
      in (ReleasedState, snd (notifyRsrcStatus
           \<lparr>rcver = For s, rsrcStatus = RSRC_UNSUBSCRIBE, postNotifyDelete = False\<rparr> s sm)))"
| "released_onRsrcEvent send _ _ sm = (ReleasedState, sm)"

fun pending_onRsrcEvent :: "send_fun \<Rightarrow> AgpsRsrcStatus \<Rightarrow> event_data \<Rightarrow> agps_sm \<Rightarrow> agps_state \<times> agps_sm" where
  "pending_onRsrcEvent send RSRC_SUBSCRIBE (NewSub s) sm = (PendingState, addSubscriber s sm)"
| "pending_onRsrcEvent send RSRC_UNSUBSCRIBE (ListSub i) sm =
     release_if_unused send PendingState (close_subscriber i sm)"
| "pending_onRsrcEvent send RSRC_GRANTED _ sm =
     (AcquiredState, notifySubscribers
        \<lparr>rcver = BROADCAST_ACTIVE, rsrcStatus = RSRC_GRANTED, postNotifyDelete = False\<rparr> sm)"
| "pending_onRsrcEvent send RSRC_DENIED _ sm =
     (ReleasedState, notifySubscribers
        \<lparr>rcver = BROADCAST_ALL, rsrcStatus = RSRC_DENIED, postNotifyDelete = True\<rparr> sm)"
| "pending_onRsrcEvent send _ _ sm = (PendingState, sm)"

fun acquired_onRsrcEvent :: "send_fun \<Rightarrow> AgpsRsrcStatus \<Rightarrow> event_data \<Rightarrow> agps_sm \<Rightarrow> agps_state \<times> agps_sm" where
  "acquired_onRsrcEvent send RSRC_SUBSCRIBE (NewSub s) sm =
     (AcquiredState, addSubscriber s (snd (notifyRsrcStatus
        \<lparr>rcver = For s, rsrcStatus = RSRC_GRANTED, postNotifyDelete = False\<rparr> s sm)))"
| "acquired_onRsrcEvent send RSRC_UNSUBSCRIBE (ListSub i) sm =
     release_if_unused send AcquiredState (close_subscriber i sm)"
| "acquired_onRsrcEvent send RSRC_RELEASED _ sm =
     (ReleasedState, notifySubscribers
        \<lparr>rcver = BROADCAST_ALL, rsrcStatus = RSRC_RELEASED, postNotifyDelete = True\<rparr> sm)"
| "acquired_onRsrcEvent send _ _ sm = (AcquiredState, sm)"

definition releasing_done :: "send_fun \<Rightarrow> AgpsRsrcStatus \<Rightarrow> agps_sm \<Rightarrow> agps_state \<times> agps_sm" where
  "releasing_done send event sm =
     (let sm1 = notifySubscribers
            \<lparr>rcver = BROADCAST_INACTIVE, rsrcStatus = event, postNotifyDelete = True\<rparr> sm
      in if hasActiveSubscribers sm1 then (PendingState, snd (send GPS_REQUEST_AGPS_DATA_CONN sm1))
         else (ReleasedState, sm1))"

fun releasing_onRsrcEvent :: "send_fun \<Rightarrow> AgpsRsrcStatus \<Rightarrow> event_data \<Rightarrow> agps_sm \<Rightarrow> agps_state \<times> agps_sm" where
  "releasing_onRsrcEvent send RSRC_SUBSCRIBE (NewSub s) sm = (ReleasingState, addSubscriber s sm)"
| "releasing_onRsrcEvent send RSRC_UNSUBSCRIBE (ListSub i) sm =
     (let sm1 = close_subscriber i sm
      in (if \<not> hasSubscribers sm1 then ReleasedState else ReleasingState, sm1))"
| "releasing_onRsrcEvent send RSRC_DENIED _ sm = releasing_done send RSRC_DENIED sm"
| "releasing_onRsrcEvent send RSRC_RELEASED _ sm = releasing_done send RSRC_RELEASED sm"
| "releasing_onRsrcEvent send _ _ sm = (ReleasingState, sm)"

text \<open>The virtual call through \<open>mStatePtr\<close>, and the assignment of the next state.\<close>

definition state_onRsrcEvent :: "send_fun \<Rightarrow> AgpsRsrcStatus \<Rightarrow> event_data \<Rightarrow> agps_sm \<Rightarrow> agps_sm" where
  "state_onRsrcEvent send event data sm =
     (case (case mStatePtr sm of
              ReleasedState \<Rightarrow> released_onRsrcEvent send event data sm
            | PendingState \<Rightarrow> pending_onRsrcEvent send event data sm
            | AcquiredState \<Rightarrow> acquired_onRsrcEvent send event data sm
            | ReleasingState \<Rightarrow> releasing_onRsrcEvent send event data sm) of
        (nextState, sm1) \<Rightarrow> sm1\<lparr>mStatePtr := nextState\<rparr>)"

section \<open>The interface of the machine\<close>

definition agps_new :: "servicerType \<Rightarrow> int \<Rightarrow> bool \<Rightarrow> agps_sm" where
  "agps_new servType type enforceSingleSubscriber =
     \<lparr>mStatePtr = ReleasedState, mSubscribers = [], mServicer = servType, mType = type, mAPN = None,
      mBearer = - 1, mEnforceSingleSubscriber = enforceSingleSubscriber, mRetries = 0, agps_out = []\<rparr>"

definition setAPN :: "string option \<Rightarrow> nat \<Rightarrow> agps_sm \<Rightarrow> agps_sm" where
  "setAPN apn len sm = sm\<lparr>mAPN := map_option (take len) apn\<rparr>"

definition agps_onRsrcEvent :: "send_fun \<Rightarrow> AgpsRsrcStatus \<Rightarrow> agps_sm \<Rightarrow> agps_sm" where
  "agps_onRsrcEvent send event sm =
     (if event \<in> {RSRC_GRANTED, RSRC_RELEASED, RSRC_DENIED} then state_onRsrcEvent send event NoData sm else sm)"

definition subscribeRsrc :: "send_fun \<Rightarrow> subscriber \<Rightarrow> agps_sm \<Rightarrow> agps_sm" where
  "subscribeRsrc send s sm =
     (if mEnforceSingleSubscriber sm \<and> hasSubscribers sm
      then snd (notifySubscriber \<lparr>rcver = BROADCAST_ALL, rsrcStatus = RSRC_DENIED, postNotifyDelete = True\<rparr> s sm)
      else state_onRsrcEvent send RSRC_SUBSCRIBE (NewSub s) sm)"

text \<open>The position of the subscriber that a search with \<open>hasSubscriber\<close> finds.\<close>

fun find_pos :: "('a \<Rightarrow> bool) \<Rightarrow> 'a list \<Rightarrow> nat option" where
  "find_pos f [] = None"
| "find_pos f (x # xs) = (if f x then Some 0 else map_option Suc (find_pos f xs))"

definition unsubscribeRsrc :: "send_fun \<Rightarrow> subscriber \<Rightarrow> agps_sm \<Rightarrow> bool \<times> agps_sm" where
  "unsubscribeRsrc send s sm =
     (case find_pos (forMe (search_notification (For s))) (mSubscribers sm) of
        None \<Rightarrow> (False, sm)
      | Some i \<Rightarrow> (True, state_onRsrcEvent send RSRC_UNSUBSCRIBE (ListSub i) sm))"

text \<open>\<^verbatim>\<open>DSStateMachine::onRsrcEvent\<close>: a release that changes no state is handled as a denial.\<close>

definition ds_onRsrcEvent :: "send_fun \<Rightarrow> AgpsRsrcStatus \<Rightarrow> agps_sm \<Rightarrow> agps_sm" where
  "ds_onRsrcEvent send event sm =
     (case event of
        RSRC_GRANTED \<Rightarrow> state_onRsrcEvent send event NoData sm
      | RSRC_RELEASED \<Rightarrow>
          (let sm1 = state_onRsrcEvent send event NoData sm
           in if mStatePtr sm1 \<noteq> mStatePtr sm then sm1 else state_onRsrcEvent send RSRC_DENIED NoData sm1)
      | RSRC_DENIED \<Rightarrow> state_onRsrcEvent send event NoData sm
      | _ \<Rightarrow> sm)"

section \<open>What notifications do\<close>

text \<open>Only the calls out and the retry count of the machine change.\<close>

definition same_but_out :: "agps_sm \<Rightarrow> agps_sm \<Rightarrow> bool" where
  "same_but_out sm sm' \<longleftrightarrow> sm' = sm\<lparr>mRetries := mRetries sm', agps_out := agps_out sm'\<rparr>"

lemma same_but_out_refl [simp]: "same_but_out sm sm"
  by (simp add: same_but_out_def)

lemma same_but_out_trans: "same_but_out a b \<Longrightarrow> same_but_out b c \<Longrightarrow> same_but_out a c"
  unfolding same_but_out_def by (metis agps_sm.surjective agps_sm.update_convs(8,9))

lemma same_but_outD:
  assumes "same_but_out sm sm'"
  shows "mSubscribers sm' = mSubscribers sm" "mStatePtr sm' = mStatePtr sm" "mServicer sm' = mServicer sm"
    "mType sm' = mType sm" "mAPN sm' = mAPN sm" "mBearer sm' = mBearer sm"
    "mEnforceSingleSubscriber sm' = mEnforceSingleSubscriber sm"
  using assms unfolding same_but_out_def
  by (metis agps_sm.surjective agps_sm.update_convs(8,9) agps_sm.select_convs)+

lemma same_out [simp]: "same_but_out sm (agps_call_out c sm)"
  by (simp add: same_but_out_def agps_call_out_def)

lemma same_inform [simp]: "same_but_out sm (informStatus st i sm)"
  by (cases st) (simp_all add: same_but_out_def agps_call_out_def)

lemma same_notify: "same_but_out sm (snd (notifyRsrcStatus n s sm))"
  by (cases s) (auto simp: bit_notify_def atl_notify_def wifi_notify_def ds_notify_def Let_def
      split: AgpsRsrcStatus.split)

abbreviation real_status :: "AgpsRsrcStatus \<Rightarrow> bool" where
  "real_status st \<equiv> st \<in> {RSRC_UNSUBSCRIBE, RSRC_GRANTED, RSRC_RELEASED, RSRC_DENIED}"

lemma notify_forMe:
  "real_status (rsrcStatus n) \<Longrightarrow> fst (notifyRsrcStatus n s sm) = forMe n s"
  by (cases s) (auto simp: bit_notify_def atl_notify_def wifi_notify_def ds_notify_def Let_def
      split: AgpsRsrcStatus.split)

lemma notify_not_forMe: "\<not> forMe n s \<Longrightarrow> notifyRsrcStatus n s sm = (False, sm)"
  by (cases s) (simp_all add: bit_notify_def atl_notify_def wifi_notify_def ds_notify_def)

text \<open>The message each kind of subscriber gets for a status.\<close>

fun call_of :: "agps_sm \<Rightarrow> AgpsRsrcStatus \<Rightarrow> subscriber \<Rightarrow> agps_call list" where
  "call_of sm st (BITSubscriber i v6) =
     (case st of RSRC_GRANTED \<Rightarrow> [DataConn GPSONE_DAEMON GPSONE_LOC_API_IF_REQUEST_SUCCESS]
      | RSRC_DENIED \<Rightarrow> [DataConn GPSONE_DAEMON GPSONE_LOC_API_IF_FAILURE]
      | RSRC_SUBSCRIBE \<Rightarrow> [] | RSRC_STATUS_MAX \<Rightarrow> []
      | _ \<Rightarrow> [DataConn GPSONE_DAEMON GPSONE_LOC_API_IF_RELEASE_SUCCESS])"
| "call_of sm st (ATLSubscriber i c) =
     (case st of RSRC_GRANTED \<Rightarrow> [AtlOpenStatus i 1 (mAPN sm) (mBearer sm) (if c then - 1 else mType sm)]
      | RSRC_DENIED \<Rightarrow> [AtlOpenStatus i 0 (mAPN sm) (mBearer sm) (if c then - 1 else mType sm)]
      | RSRC_SUBSCRIBE \<Rightarrow> [] | RSRC_STATUS_MAX \<Rightarrow> []
      | _ \<Rightarrow> [AtlCloseStatus i 1])"
| "call_of sm st (WIFISubscriber i ss pw b) =
     (case st of RSRC_GRANTED \<Rightarrow> [DataConn i GPSONE_LOC_API_IF_REQUEST_SUCCESS]
      | RSRC_DENIED \<Rightarrow> [DataConn i GPSONE_LOC_API_IF_FAILURE]
      | RSRC_RELEASED \<Rightarrow> [DataConn i GPSONE_LOC_API_IF_RELEASE_SUCCESS]
      | _ \<Rightarrow> [])"
| "call_of sm st (DSSubscriber i b) =
     (case st of RSRC_GRANTED \<Rightarrow> [AtlOpenStatus i 1 None (- 1) (- 1)]
      | RSRC_DENIED \<Rightarrow> [RequestATL i]
      | RSRC_RELEASED \<Rightarrow> [CloseDataCall]
      | RSRC_UNSUBSCRIBE \<Rightarrow> [AtlCloseStatus i 1]
      | _ \<Rightarrow> [])"

lemma notify_out:
  "forMe n s \<Longrightarrow> agps_out (snd (notifyRsrcStatus n s sm)) = agps_out sm @ call_of sm (rsrcStatus n) s"
  by (cases s) (auto simp: bit_notify_def atl_notify_def wifi_notify_def ds_notify_def Let_def
      agps_call_out_def split: AgpsRsrcStatus.split)

lemma call_of_cong: "same_but_out sm sm' \<Longrightarrow> call_of sm' st s = call_of sm st s"
  using same_but_outD(4-6) [of sm sm'] by (cases s) (simp_all cong: AgpsRsrcStatus.case_cong)

definition notify_all :: "Notification \<Rightarrow> subscriber list \<Rightarrow> agps_sm \<Rightarrow> agps_sm" where
  "notify_all n ss sm = fold (\<lambda>s sm. snd (notifyRsrcStatus n s sm)) ss sm"

lemma notify_all_simps [simp]:
  "notify_all n [] sm = sm"
  "notify_all n (s # ss) sm = notify_all n ss (snd (notifyRsrcStatus n s sm))"
  by (simp_all add: notify_all_def)

lemma same_notify_all: "same_but_out sm (notify_all n ss sm)"
  by (induction ss arbitrary: sm) (auto intro: same_but_out_trans same_notify)

lemma notify_all_out:
  "\<forall>s \<in> set ss. forMe n s \<Longrightarrow>
   agps_out (notify_all n ss sm) = agps_out sm @ concat (map (call_of sm (rsrcStatus n)) ss)"
proof (induction ss arbitrary: sm)
  case (Cons s ss)
  have "call_of (snd (notifyRsrcStatus n s sm)) (rsrcStatus n) = call_of sm (rsrcStatus n)"
    by (intro ext call_of_cong same_notify)
  with Cons show ?case by (simp add: notify_out)
qed simp

lemma search_keep:
  "\<not> postNotifyDelete n \<Longrightarrow>
   list_search (notifySubscriber n) False xs sm = (None, xs, notify_all n (filter (forMe n) xs) sm)"
  by (induction xs arbitrary: sm) (auto simp: notifySubscriber_def notify_not_forMe split: prod.splits)

lemma search_delete_none:
  "\<forall>s \<in> set xs. \<not> forMe n s \<Longrightarrow> list_search (notifySubscriber n) rm xs sm = (None, xs, sm)"
  by (induction xs arbitrary: sm) (auto simp: notifySubscriber_def notify_not_forMe split: prod.splits)

lemma search_delete_some:
  "real_status (rsrcStatus n) \<Longrightarrow> postNotifyDelete n \<Longrightarrow> \<forall>s \<in> set us. \<not> forMe n s \<Longrightarrow> forMe n x \<Longrightarrow>
   list_search (notifySubscriber n) True (us @ x # vs) sm = (Some x, us @ vs, snd (notifyRsrcStatus n x sm))"
proof (induction us arbitrary: sm)
  case Nil
  then show ?case using notify_forMe [of n x sm] by (auto simp: notifySubscriber_def split: prod.splits)
next
  case (Cons u us)
  then show ?case by (auto simp: notifySubscriber_def notify_not_forMe)
qed

lemma notify_upd_subs: "snd (notifyRsrcStatus n s (sm\<lparr>mSubscribers := ys\<rparr>)) =
    (snd (notifyRsrcStatus n s sm))\<lparr>mSubscribers := ys\<rparr>"
proof -
  have inform: "informStatus st i (sm\<lparr>mSubscribers := ys\<rparr>) = (informStatus st i sm)\<lparr>mSubscribers := ys\<rparr>" for st i
    by (cases st) (simp_all add: agps_call_out_def)
  show ?thesis
    by (cases s) (auto simp: bit_notify_def atl_notify_def wifi_notify_def ds_notify_def Let_def inform
        agps_call_out_def split: AgpsRsrcStatus.split)
qed

lemma notify_all_upd_subs: "notify_all n ss (sm\<lparr>mSubscribers := ys\<rparr>) = (notify_all n ss sm)\<lparr>mSubscribers := ys\<rparr>"
  by (induction ss arbitrary: sm) (simp_all add: notify_upd_subs)

text \<open>The loop with deletions notifies each addressee once, in list order, and removes it.\<close>

lemma notify_delete_loop_eq:
  assumes "real_status (rsrcStatus n)" and "postNotifyDelete n"
  shows "notify_delete_loop n sm = (notify_all n (filter (forMe n) (mSubscribers sm)) sm)
    \<lparr>mSubscribers := filter (\<lambda>s. \<not> forMe n s) (mSubscribers sm)\<rparr>"
proof (induction "length (mSubscribers sm)" arbitrary: sm rule: less_induct)
  case less
  let ?xs = "mSubscribers sm"
  show ?case
  proof (cases "\<forall>s \<in> set ?xs. \<not> forMe n s")
    case True
    then have "filter (forMe n) ?xs = []" "filter (\<lambda>s. \<not> forMe n s) ?xs = ?xs"
      by (auto simp: filter_empty_conv filter_id_conv)
    with True show ?thesis
      by (subst notify_delete_loop.simps) (simp add: search_delete_none)
  next
    case False
    then obtain us x vs where xs: "?xs = us @ x # vs" "\<forall>s \<in> set us. \<not> forMe n s" "forMe n x"
      using split_list_first_prop [of ?xs "forMe n"] by blast
    let ?sm = "(snd (notifyRsrcStatus n x sm))\<lparr>mSubscribers := us @ vs\<rparr>"
    have "notify_delete_loop n sm = notify_delete_loop n ?sm"
      using search_delete_some [OF assms xs(2,3), of vs sm]
      by (subst notify_delete_loop.simps) (simp add: xs(1))
    also have "\<dots> = (notify_all n (filter (forMe n) (us @ vs)) ?sm)\<lparr>mSubscribers := filter (\<lambda>s. \<not> forMe n s) (us @ vs)\<rparr>"
      using less [of ?sm] xs(1) by simp
    finally have "notify_delete_loop n sm = \<dots>" .
    moreover have "filter (forMe n) us = []" using xs(2) by (simp add: filter_empty_conv)
    ultimately show ?thesis
      using xs by (simp add: notify_all_upd_subs)
  qed
qed

lemma notifySubscribers_eq:
  assumes "real_status (rsrcStatus n)"
  shows "notifySubscribers n sm = (notify_all n (filter (forMe n) (mSubscribers sm)) sm)
    \<lparr>mSubscribers := (if postNotifyDelete n then filter (\<lambda>s. \<not> forMe n s) (mSubscribers sm) else mSubscribers sm)\<rparr>"
proof (cases "postNotifyDelete n")
  case True
  with assms show ?thesis by (simp add: notifySubscribers_def notify_delete_loop_eq)
next
  case False
  let ?sm = "notify_all n (filter (forMe n) (mSubscribers sm)) sm"
  have "mSubscribers ?sm = mSubscribers sm" by (rule same_but_outD(1) [OF same_notify_all])
  then have "?sm\<lparr>mSubscribers := mSubscribers sm\<rparr> = ?sm" by (cases ?sm) simp
  with False show ?thesis by (simp add: notifySubscribers_def search_keep)
qed


section \<open>Searches\<close>

lemma findSubscriber_eq: "findSubscriber n sm = find (forMe n) (mSubscribers sm)"
proof -
  have "fst (list_search (hasSubscriber n) False xs sm) = find (forMe n) xs" for xs
    by (induction xs) (auto simp: hasSubscriber_def split: prod.split)
  then show ?thesis by (simp add: findSubscriber_def)
qed

abbreviation has_active :: "subscriber list \<Rightarrow> bool" where
  "has_active ss \<equiv> \<exists>s \<in> set ss. \<not> isInactive s"

lemma hasActive_eq: "hasActiveSubscribers sm \<longleftrightarrow> has_active (mSubscribers sm)"
  by (auto simp: hasActiveSubscribers_def findSubscriber_eq find_None_iff forMe_def search_notification_def)

lemma find_active_None: "find (forMe (search_notification BROADCAST_ACTIVE)) xs = None \<longleftrightarrow> \<not> has_active xs"
  by (auto simp: find_None_iff forMe_def search_notification_def)

lemma forMe_broadcast [simp]:
  "forMe \<lparr>rcver = BROADCAST_ALL, rsrcStatus = st, postNotifyDelete = d\<rparr> s"
  "forMe \<lparr>rcver = BROADCAST_ACTIVE, rsrcStatus = st, postNotifyDelete = d\<rparr> s \<longleftrightarrow> \<not> isInactive s"
  "forMe \<lparr>rcver = BROADCAST_INACTIVE, rsrcStatus = st, postNotifyDelete = d\<rparr> s \<longleftrightarrow> isInactive s"
  "forMe \<lparr>rcver = For r, rsrcStatus = st, postNotifyDelete = d\<rparr> s \<longleftrightarrow> sub_equals s r"
  by (simp_all add: forMe_def)

lemma forMe_broadcast_fun [simp]:
  "forMe \<lparr>rcver = BROADCAST_ALL, rsrcStatus = st, postNotifyDelete = d\<rparr> = (\<lambda>s. True)"
  "forMe \<lparr>rcver = BROADCAST_ACTIVE, rsrcStatus = st, postNotifyDelete = d\<rparr> = (\<lambda>s. \<not> isInactive s)"
  "forMe \<lparr>rcver = BROADCAST_INACTIVE, rsrcStatus = st, postNotifyDelete = d\<rparr> = isInactive"
  by (simp_all add: fun_eq_iff)

lemma active_clone [simp]: "\<not> isInactive (sub_clone s)"
  by (cases s) simp_all

lemma addSubscriber_subs:
  "mSubscribers (addSubscriber s sm) =
     (if \<exists>x \<in> set (mSubscribers sm). sub_equals x s then mSubscribers sm else sub_clone s # mSubscribers sm)"
proof -
  have "findSubscriber (search_notification (For s)) sm = None \<longleftrightarrow> \<not> (\<exists>x \<in> set (mSubscribers sm). sub_equals x s)"
    by (auto simp: findSubscriber_eq find_None_iff forMe_def search_notification_def)
  then show ?thesis by (auto simp: addSubscriber_def split: option.split)
qed

text \<open>The search of the machine is the search of the linked list that holds the subscribers' addresses.\<close>

lemma list_search_linked:
  fixes obj :: "nat \<Rightarrow> 'a"
  shows "list_search equal rm (map (obj \<circ> (fst \<circ> snd)) items) s =
    (case find_from (\<lambda>d. equal (obj d)) items s of
       (None, s') \<Rightarrow> (None, map (obj \<circ> (fst \<circ> snd)) items, s')
     | (Some (us, (b, d, f), vs), s') \<Rightarrow>
         (Some (obj d), map (obj \<circ> (fst \<circ> snd)) (if rm then us @ vs else items), s'))"
  by (induction "\<lambda>d. equal (obj d)" items s rule: find_from.induct)
    (auto split: prod.splits option.splits if_splits dest: find_from_Some)

section \<open>The invariant of the machine\<close>

fun agps_inv_of :: "agps_state \<Rightarrow> subscriber list \<Rightarrow> bool" where
  "agps_inv_of ReleasedState ss = (ss = [])"
| "agps_inv_of PendingState ss = has_active ss"
| "agps_inv_of AcquiredState ss = has_active ss"
| "agps_inv_of ReleasingState ss = (ss \<noteq> [])"

definition agps_inv :: "agps_sm \<Rightarrow> bool" where
  "agps_inv sm = agps_inv_of (mStatePtr sm) (mSubscribers sm)"

text \<open>The requests on the connectivity service, and their bracketing: no release without a request before.\<close>

fun nif_action :: "agps_call \<Rightarrow> AGpsStatusValue list" where
  "nif_action (NifRequest _ _ a _) = [a]"
| "nif_action _ = []"

definition nif_log :: "agps_sm \<Rightarrow> AGpsStatusValue list" where
  "nif_log sm = concat (map nif_action (agps_out sm))"

fun paired :: "bool \<Rightarrow> AGpsStatusValue list \<Rightarrow> bool" where
  "paired held [] = True"
| "paired held (GPS_REQUEST_AGPS_DATA_CONN # xs) = paired True xs"
| "paired held (GPS_RELEASE_AGPS_DATA_CONN # xs) = (held \<and> paired False xs)"

definition nif_held :: "AGpsStatusValue list \<Rightarrow> bool" where
  "nif_held xs \<longleftrightarrow> xs \<noteq> [] \<and> last xs = GPS_REQUEST_AGPS_DATA_CONN"

lemma paired_snoc:
  "paired h (xs @ [GPS_REQUEST_AGPS_DATA_CONN]) = paired h xs"
  "paired h (xs @ [GPS_RELEASE_AGPS_DATA_CONN]) \<longleftrightarrow>
     paired h xs \<and> (if xs = [] then h else last xs = GPS_REQUEST_AGPS_DATA_CONN)"
  by (induction h xs rule: paired.induct) auto

lemma nif_log_call_of: "concat (map nif_action (call_of sm st s)) = []"
  by (cases s; cases st) simp_all

lemma nif_log_notify_all: "\<forall>s \<in> set ss. forMe n s \<Longrightarrow> nif_log (notify_all n ss sm) = nif_log sm"
  using nif_log_call_of by (simp add: nif_log_def notify_all_out)

text \<open>What each building block of the handlers does to the subscribers, the state and the requests.\<close>

lemma notifySubscribers_facts:
  assumes "real_status (rsrcStatus n)"
  shows "mSubscribers (notifySubscribers n sm) =
      (if postNotifyDelete n then filter (\<lambda>s. \<not> forMe n s) (mSubscribers sm) else mSubscribers sm)"
    and "mStatePtr (notifySubscribers n sm) = mStatePtr sm"
    and "nif_log (notifySubscribers n sm) = nif_log sm"
proof -
  let ?ss = "filter (forMe n) (mSubscribers sm)"
  have "nif_log (notify_all n ?ss sm) = nif_log sm"
    by (rule nif_log_notify_all) simp
  then show "mSubscribers (notifySubscribers n sm) =
      (if postNotifyDelete n then filter (\<lambda>s. \<not> forMe n s) (mSubscribers sm) else mSubscribers sm)"
    and "mStatePtr (notifySubscribers n sm) = mStatePtr sm"
    and "nif_log (notifySubscribers n sm) = nif_log sm"
    using same_but_outD(2) [OF same_notify_all, of n ?ss sm]
    by (simp_all add: notifySubscribers_eq [OF assms] nif_log_def)
qed

lemma sendRsrcRequest_facts:
  "fst (sendRsrcRequest a sm) = 0"
  "mSubscribers (snd (sendRsrcRequest a sm)) = mSubscribers sm"
  "mStatePtr (snd (sendRsrcRequest a sm)) = mStatePtr sm"
  "nif_log (snd (sendRsrcRequest a sm)) =
     nif_log sm @ (if has_active (mSubscribers sm) \<longleftrightarrow> a = GPS_REQUEST_AGPS_DATA_CONN then [a] else [])"
  using find_active_None [of "mSubscribers sm"]
  by (cases a; auto simp: sendRsrcRequest_def Let_def findSubscriber_eq agps_call_out_def nif_log_def)+

lemma close_subscriber_facts:
  "nif_log (close_subscriber i sm) = nif_log sm"
  "mStatePtr (close_subscriber i sm) = mStatePtr sm"
proof -
  have inform: "nif_log (informStatus RSRC_UNSUBSCRIBE j sm') = nif_log sm'"
    "mStatePtr (informStatus RSRC_UNSUBSCRIBE j sm') = mStatePtr sm'" for j sm'
    by (simp_all add: nif_log_def agps_call_out_def)
  have set: "nif_log (setInactive_at i sm) = nif_log sm \<and> mStatePtr (setInactive_at i sm) = mStatePtr sm"
    by (cases "mSubscribers sm ! i") (simp_all only: setInactive_at_def Let_def setInactive_out.simps inform, simp_all add: nif_log_def)
  show "nif_log (close_subscriber i sm) = nif_log sm" "mStatePtr (close_subscriber i sm) = mStatePtr sm"
    using set by (simp_all add: close_subscriber_def Let_def notifySubscribers_facts)
qed


definition agps_ok :: "agps_state \<Rightarrow> agps_sm \<Rightarrow> bool" where
  "agps_ok st sm \<longleftrightarrow> agps_inv_of st (mSubscribers sm) \<and> paired False (nif_log sm) \<and>
     (st \<in> {PendingState, AcquiredState} \<longrightarrow> nif_held (nif_log sm)) \<and>
     (st = ReleasingState \<longrightarrow> \<not> nif_held (nif_log sm))"

lemmas agps_facts = notifySubscribers_facts sendRsrcRequest_facts close_subscriber_facts

lemma agps_ok_release:
  assumes "paired False (nif_log sm)" and "nif_held (nif_log sm)" and "this \<in> {PendingState, AcquiredState}"
    and "release_if_unused sendRsrcRequest this sm = (st, sm')"
  shows "agps_ok st sm'"
proof -
  have subs: "hasSubscribers sm \<longleftrightarrow> mSubscribers sm \<noteq> []" by (simp add: hasSubscribers_def)
  show ?thesis
    using assms
    by (auto simp: release_if_unused_def subs hasActive_eq agps_ok_def sendRsrcRequest_facts paired_snoc
        nif_held_def split: if_splits)
qed

lemma agps_ok_add: "nif_log (addSubscriber s sm) = nif_log sm" "mStatePtr (addSubscriber s sm) = mStatePtr sm"
  by (simp_all add: addSubscriber_def nif_log_def split: option.split)

lemma nif_log_notify: "nif_log (snd (notifyRsrcStatus n s sm)) = nif_log sm"
  using notify_out [of n s sm] notify_not_forMe [of n s sm] nif_log_call_of
  by (cases "forMe n s") (simp_all add: nif_log_def)

lemma agps_ok_handlers:
  assumes "agps_ok st sm"
  shows "st = ReleasedState \<Longrightarrow> released_onRsrcEvent sendRsrcRequest ev d sm = (st', sm') \<Longrightarrow> agps_ok st' sm'"
    and "st = PendingState \<Longrightarrow> pending_onRsrcEvent sendRsrcRequest ev d sm = (st', sm') \<Longrightarrow> agps_ok st' sm'"
    and "st = AcquiredState \<Longrightarrow> acquired_onRsrcEvent sendRsrcRequest ev d sm = (st', sm') \<Longrightarrow> agps_ok st' sm'"
    and "st = ReleasingState \<Longrightarrow> releasing_onRsrcEvent sendRsrcRequest ev d sm = (st', sm') \<Longrightarrow> agps_ok st' sm'"
proof -
  assume st: "st = ReleasedState" and "released_onRsrcEvent sendRsrcRequest ev d sm = (st', sm')"
  then show "agps_ok st' sm'"
    using assms
    by (cases ev; cases d; auto simp: agps_ok_def split_beta sendRsrcRequest_facts addSubscriber_subs agps_ok_add
        paired_snoc nif_held_def nif_log_notify same_but_outD(1) [OF same_notify] Let_def)
next
  assume st: "st = PendingState" and step: "pending_onRsrcEvent sendRsrcRequest ev d sm = (st', sm')"
  have log: "paired False (nif_log sm)" "nif_held (nif_log sm)"
    using assms st by (simp_all add: agps_ok_def)
  show "agps_ok st' sm'"
  proof (cases "ev = RSRC_UNSUBSCRIBE \<and> (\<exists>i. d = ListSub i)")
    case True
    then obtain i where "release_if_unused sendRsrcRequest PendingState (close_subscriber i sm) = (st', sm')"
      using step by auto
    then show ?thesis
      using log by (intro agps_ok_release [of "close_subscriber i sm" PendingState]) (simp_all add: agps_facts)
  next
    case False
    with assms st step show ?thesis
      by (cases ev; cases d; auto simp: agps_ok_def addSubscriber_subs agps_ok_add notifySubscribers_facts)
  qed
next
  assume st: "st = AcquiredState" and step: "acquired_onRsrcEvent sendRsrcRequest ev d sm = (st', sm')"
  have log: "paired False (nif_log sm)" "nif_held (nif_log sm)"
    using assms st by (simp_all add: agps_ok_def)
  show "agps_ok st' sm'"
  proof (cases "ev = RSRC_UNSUBSCRIBE \<and> (\<exists>i. d = ListSub i)")
    case True
    then obtain i where "release_if_unused sendRsrcRequest AcquiredState (close_subscriber i sm) = (st', sm')"
      using step by auto
    then show ?thesis
      using log by (intro agps_ok_release [of "close_subscriber i sm" AcquiredState]) (simp_all add: agps_facts)
  next
    case False
    with assms st step show ?thesis
      by (cases ev; cases d; auto simp: agps_ok_def addSubscriber_subs agps_ok_add notifySubscribers_facts
          same_but_outD(1) [OF same_notify] nif_log_notify)
  qed
next
  assume st: "st = ReleasingState" and step: "releasing_onRsrcEvent sendRsrcRequest ev d sm = (st', sm')"
  have fin: "agps_ok st' sm'" if "releasing_done sendRsrcRequest ev sm = (st', sm')" "ev \<in> {RSRC_DENIED, RSRC_RELEASED}"
    using that assms st
    by (auto simp: releasing_done_def Let_def agps_ok_def hasActive_eq agps_facts paired_snoc nif_held_def
        filter_empty_conv split: if_splits)
  show "agps_ok st' sm'"
    using assms st step fin
    by (cases ev; cases d; auto simp: agps_ok_def addSubscriber_subs agps_ok_add agps_facts hasSubscribers_def Let_def
        split: if_splits)
qed

lemma agps_ok_upd [simp]: "agps_ok st (sm\<lparr>mStatePtr := x\<rparr>) = agps_ok st sm"
  by (simp add: agps_ok_def nif_log_def)

lemma agps_ok_state_event:
  assumes "agps_ok (mStatePtr sm) sm"
  shows "agps_ok (mStatePtr (state_onRsrcEvent sendRsrcRequest ev d sm)) (state_onRsrcEvent sendRsrcRequest ev d sm)"
  using agps_ok_handlers [OF assms]
  by (cases "mStatePtr sm") (auto simp: state_onRsrcEvent_def split: prod.split)

section \<open>Runs of the machine\<close>

inductive agps_reachable :: "agps_sm \<Rightarrow> bool" where
  agps_init: "agps_reachable (agps_new servType type enf)"
| agps_subscribe: "agps_reachable sm \<Longrightarrow> agps_reachable (subscribeRsrc sendRsrcRequest s sm)"
| agps_unsubscribe: "agps_reachable sm \<Longrightarrow> agps_reachable (snd (unsubscribeRsrc sendRsrcRequest s sm))"
| agps_event: "agps_reachable sm \<Longrightarrow> agps_reachable (agps_onRsrcEvent sendRsrcRequest ev sm)"
| agps_setAPN: "agps_reachable sm \<Longrightarrow> agps_reachable (setAPN apn len sm)"
| agps_setBearer: "agps_reachable sm \<Longrightarrow> agps_reachable (sm\<lparr>mBearer := b\<rparr>)"

lemma agps_reachable_ok: "agps_reachable sm \<Longrightarrow> agps_ok (mStatePtr sm) sm"
proof (induction rule: agps_reachable.induct)
  case (agps_init servType type enf)
  show ?case by (simp add: agps_ok_def agps_new_def nif_log_def)
next
  case (agps_subscribe sm s)
  let ?n = "\<lparr>rcver = BROADCAST_ALL, rsrcStatus = RSRC_DENIED, postNotifyDelete = True\<rparr>"
  have "snd (notifySubscriber ?n s sm) = snd (notifyRsrcStatus ?n s sm)"
    by (simp add: notifySubscriber_def split: prod.split)
  then show ?case
    using agps_subscribe agps_ok_state_event same_but_outD(1,2) [OF same_notify, of ?n s sm]
    by (simp add: subscribeRsrc_def) (simp add: agps_ok_def nif_log_notify)
next
  case (agps_unsubscribe sm s)
  then show ?case by (simp add: unsubscribeRsrc_def agps_ok_state_event split: option.split)
next
  case (agps_event sm ev)
  then show ?case by (simp add: agps_onRsrcEvent_def agps_ok_state_event)
qed (simp_all add: agps_ok_def setAPN_def nif_log_def)


section \<open>Properties\<close>


definition agps_example :: agps_sm where
  "agps_example = subscribeRsrc sendRsrcRequest (WIFISubscriber 1 (Some ''net'') None False)
     (subscribeRsrc sendRsrcRequest (ATLSubscriber 7 False) (agps_new servicerTypeAgps 1 False))"

lemma agps_example_reachable: "agps_reachable agps_example"
  unfolding agps_example_def by (intro agps_subscribe agps_init)

lemma agps_example_simps:
  "mStatePtr agps_example = PendingState"
  "mSubscribers agps_example = [WIFISubscriber 1 (Some ''net'') None False, ATLSubscriber 7 False]"
  "nif_log agps_example = [GPS_REQUEST_AGPS_DATA_CONN]"
  by code_simp+


text \<open>C20: The connectivity service sees properly bracketed requests: a release is only sent right after a
  request (never twice, never first), and whenever the machine is Pending or Acquired its last message
  was a request, whenever it is Releasing its last message was a release.\<close>

theorem agps_requests_bracketed:
  assumes "agps_reachable sm"
  shows "paired False (nif_log sm) \<and>
    (mStatePtr sm \<in> {PendingState, AcquiredState} \<longrightarrow> nif_held (nif_log sm)) \<and>
    (mStatePtr sm = ReleasingState \<longrightarrow> \<not> nif_held (nif_log sm))"
  using agps_reachable_ok [OF assms] by (simp add: agps_ok_def)

lemma agps_requests_bracketed_witness:
  "paired False (nif_log agps_example) \<and> nif_held (nif_log agps_example)"
  using agps_requests_bracketed [OF agps_example_reachable] by (simp add: agps_example_simps)

text \<open>When a pending machine is granted the resource, it becomes Acquired, keeps its subscribers, and
  tells every active subscriber exactly once, in list order, and no inactive one.\<close>

theorem agps_grant_notifies:
  assumes "mStatePtr sm = PendingState"
  shows "let sm' = agps_onRsrcEvent sendRsrcRequest RSRC_GRANTED sm
    in mStatePtr sm' = AcquiredState \<and> mSubscribers sm' = mSubscribers sm \<and>
       agps_out sm' = agps_out sm @
         concat (map (call_of sm RSRC_GRANTED) (filter (\<lambda>s. \<not> isInactive s) (mSubscribers sm)))"
  using assms
  by (simp add: agps_onRsrcEvent_def state_onRsrcEvent_def notifySubscribers_eq notify_all_out Let_def)

lemma agps_grant_notifies_witness:
  "agps_out (agps_onRsrcEvent sendRsrcRequest RSRC_GRANTED agps_example) =
     agps_out agps_example @ [DataConn 1 GPSONE_LOC_API_IF_REQUEST_SUCCESS, AtlOpenStatus 7 1 None (- 1) 1]"
proof -
  have "mAPN agps_example = None" "mBearer agps_example = - 1" "mType agps_example = 1" by code_simp+
  then show ?thesis
    using agps_grant_notifies [OF agps_example_simps(1)] by (simp add: agps_example_simps Let_def)
qed

text \<open>C36: A denial while Pending, or a forced release while Acquired, tells every subscriber exactly once
  and leaves a Released machine without subscribers.\<close>

theorem agps_denial_notifies_all:
  assumes "mStatePtr sm = PendingState \<and> ev = RSRC_DENIED \<or> mStatePtr sm = AcquiredState \<and> ev = RSRC_RELEASED"
  shows "let sm' = agps_onRsrcEvent sendRsrcRequest ev sm
    in mStatePtr sm' = ReleasedState \<and> mSubscribers sm' = [] \<and>
       agps_out sm' = agps_out sm @ concat (map (call_of sm ev) (mSubscribers sm))"
  using assms
  by (auto simp: agps_onRsrcEvent_def state_onRsrcEvent_def notifySubscribers_eq notify_all_out Let_def)

lemma agps_denial_notifies_all_witness:
  "mSubscribers (agps_onRsrcEvent sendRsrcRequest RSRC_DENIED agps_example) = []"
  using agps_denial_notifies_all [of agps_example RSRC_DENIED] by (simp add: agps_example_simps Let_def)

text \<open>The end of a release tells exactly the inactive subscribers and removes them; if active ones
  subscribed meanwhile the resource is requested again at once, otherwise the machine is Released.\<close>

theorem agps_release_completes:
  assumes "mStatePtr sm = ReleasingState" and "ev = RSRC_RELEASED \<or> ev = RSRC_DENIED"
  shows "let sm' = agps_onRsrcEvent sendRsrcRequest ev sm; rest = filter (\<lambda>s. \<not> isInactive s) (mSubscribers sm)
    in mSubscribers sm' = rest \<and> mStatePtr sm' = (if rest = [] then ReleasedState else PendingState) \<and>
       nif_log sm' = nif_log sm @ (if rest = [] then [] else [GPS_REQUEST_AGPS_DATA_CONN]) \<and>
       (\<exists>req. agps_out sm' = agps_out sm @
          concat (map (call_of sm ev) (filter isInactive (mSubscribers sm))) @ req)"
proof -
  let ?n = "\<lparr>rcver = BROADCAST_INACTIVE, rsrcStatus = ev, postNotifyDelete = True\<rparr>"
  let ?sm = "notifySubscribers ?n sm"
  have real: "real_status (rsrcStatus ?n)" using assms(2) by auto
  have out: "agps_out ?sm = agps_out sm @ concat (map (call_of sm ev) (filter isInactive (mSubscribers sm)))"
    by (simp add: notifySubscribers_eq [OF real] notify_all_out)
  have subs: "mSubscribers ?sm = filter (\<lambda>s. \<not> isInactive s) (mSubscribers sm)"
    by (simp add: notifySubscribers_facts(1) [OF real])
  have step: "agps_onRsrcEvent sendRsrcRequest ev sm =
      (case releasing_done sendRsrcRequest ev sm of (st, sm') \<Rightarrow> sm'\<lparr>mStatePtr := st\<rparr>)"
    using assms by (auto simp: agps_onRsrcEvent_def state_onRsrcEvent_def)
  have req: "\<exists>req. agps_out (snd (sendRsrcRequest a x)) = agps_out x @ req" for a x
    by (simp add: sendRsrcRequest_def Let_def agps_call_out_def)
  have "has_active (mSubscribers ?sm) \<longleftrightarrow> filter (\<lambda>s. \<not> isInactive s) (mSubscribers sm) \<noteq> []"
    by (auto simp: subs filter_empty_conv)
  then show ?thesis
    using subs out req [of GPS_REQUEST_AGPS_DATA_CONN ?sm] notifySubscribers_facts(3) [OF real, of sm]
      sendRsrcRequest_facts(2,4) [of GPS_REQUEST_AGPS_DATA_CONN ?sm]
    by (auto simp: step releasing_done_def Let_def hasActive_eq) (auto simp: nif_log_def)
qed

definition releasing_example :: agps_sm where
  "releasing_example = \<lparr>mStatePtr = ReleasingState,
     mSubscribers = [ATLSubscriber 9 True, WIFISubscriber 1 None None True], mServicer = servicerTypeAgps,
     mType = 1, mAPN = None, mBearer = - 1, mEnforceSingleSubscriber = False, mRetries = 0, agps_out = []\<rparr>"

lemma agps_release_completes_witness:
  "mStatePtr (agps_onRsrcEvent sendRsrcRequest RSRC_RELEASED releasing_example) = PendingState"
  using agps_release_completes [of releasing_example RSRC_RELEASED]
  by (simp add: releasing_example_def Let_def)


text \<open>A subscriber that gives up on a pending or acquired resource and does not wait for the close is
  told so and removed, with every subscriber that equals it; the resource is released exactly when no
  active subscriber is left.\<close>

theorem agps_unsubscribe_removes:
  assumes "mStatePtr sm \<in> {PendingState, AcquiredState}"
    and "find_pos (forMe (search_notification (For s))) (mSubscribers sm) = Some i"
    and "\<not> waitForCloseComplete (mSubscribers sm ! i)"
  shows "let t = mSubscribers sm ! i; rest = filter (\<lambda>x. \<not> sub_equals x t) (mSubscribers sm);
      sm' = snd (unsubscribeRsrc sendRsrcRequest s sm)
    in mSubscribers sm' = rest \<and>
       nif_log sm' = nif_log sm @ (if has_active rest then [] else [GPS_RELEASE_AGPS_DATA_CONN]) \<and>
       mStatePtr sm' = (if rest = [] then ReleasedState else if has_active rest then mStatePtr sm else ReleasingState)"
proof -
  let ?t = "mSubscribers sm ! i"
  let ?n = "\<lparr>rcver = For ?t, rsrcStatus = RSRC_UNSUBSCRIBE, postNotifyDelete = True\<rparr>"
  have close: "close_subscriber i sm = notifySubscribers ?n sm"
    using assms(3) by (simp add: close_subscriber_def Let_def)
  have step: "snd (unsubscribeRsrc sendRsrcRequest s sm) =
      (case release_if_unused sendRsrcRequest (mStatePtr sm) (notifySubscribers ?n sm) of (st, sm') \<Rightarrow> sm'\<lparr>mStatePtr := st\<rparr>)"
    using assms(1,2) close by (auto simp: unsubscribeRsrc_def state_onRsrcEvent_def)
  show ?thesis
    unfolding step
    by (simp add: release_if_unused_def hasSubscribers_def hasActive_eq notifySubscribers_facts Let_def)
      (auto simp: nif_log_def [of "_\<lparr>mStatePtr := _\<rparr>"] nif_log_def [symmetric] sendRsrcRequest_facts
        notifySubscribers_facts filter_empty_conv)
qed

lemma agps_unsubscribe_removes_witness:
  "mSubscribers (snd (unsubscribeRsrc sendRsrcRequest (ATLSubscriber 7 False) agps_example)) =
     [WIFISubscriber 1 (Some ''net'') None False]"
  using agps_unsubscribe_removes [of agps_example "ATLSubscriber 7 False" 1]
  by (simp add: agps_example_simps search_notification_def forMe_def Let_def)

text \<open>The data-service machine retries a busy engine at most four times: five busy answers in a row
  start four retry timers, then the fifth falls back to a normal ATL request and resets the count.\<close>

theorem ds_retry_bounded:
  assumes "\<And>sm a. ext sm a = 6" and "mRetries sm = 0" and "find (\<lambda>s. \<not> isInactive s) (mSubscribers sm) = Some d"
  shows "let sm' = ((\<lambda>sm. snd (ds_sendRsrcRequest ext GPS_REQUEST_AGPS_DATA_CONN sm)) ^^ 5) sm
    in mRetries sm' = 0 \<and> agps_out sm' = agps_out sm @
         concat (replicate 4 [DataCall GPS_REQUEST_AGPS_DATA_CONN, TimerStart]) @
         [DataCall GPS_REQUEST_AGPS_DATA_CONN, RequestATL (sub_ID d)]"
proof -
  let ?f = "\<lambda>sm. snd (ds_sendRsrcRequest ext GPS_REQUEST_AGPS_DATA_CONN sm)"
  have fm: "forMe (search_notification BROADCAST_ACTIVE) = (\<lambda>s. \<not> isInactive s)"
    by (simp add: search_notification_def)
  have step: "?f x = (if mRetries x + 1 > 4
      then x\<lparr>mRetries := 0, agps_out := agps_out x @ [DataCall GPS_REQUEST_AGPS_DATA_CONN, RequestATL (sub_ID d)]\<rparr>
      else x\<lparr>mRetries := mRetries x + 1, agps_out := agps_out x @ [DataCall GPS_REQUEST_AGPS_DATA_CONN, TimerStart]\<rparr>)"
    if "mSubscribers x = mSubscribers sm" for x
    using assms(1,3) that
    by (simp add: ds_sendRsrcRequest_def findSubscriber_eq fm agps_call_out_def Let_def)
  have five: "(?f ^^ 5) sm = ?f (?f (?f (?f (?f sm))))"
    by (simp add: eval_nat_numeral)
  have four: "replicate 4 y = [y, y, y, y]" for y :: "agps_call list"
    by (simp add: eval_nat_numeral)
  show ?thesis
    unfolding five four Let_def using assms(2) by (simp add: step)
qed

definition ds_example :: agps_sm where
  "ds_example = (agps_new servicerTypeExt (- 1) False)\<lparr>mSubscribers := [DSSubscriber 4 False]\<rparr>"

lemma ds_retry_bounded_witness:
  "mRetries (((\<lambda>sm. snd (ds_sendRsrcRequest (\<lambda>_ _. 6) GPS_REQUEST_AGPS_DATA_CONN sm)) ^^ 5) ds_example) = 0"
  using ds_retry_bounded [of "\<lambda>_ _. 6" ds_example "DSSubscriber 4 False"]
  by (simp add: ds_example_def agps_new_def Let_def)

text \<open>A release that reaches the data-service machine while Pending is handled as a denial: every
  subscriber is told RSRC_DENIED once and the machine ends Released without subscribers.\<close>

theorem ds_release_in_pending_denies:
  assumes "mStatePtr sm = PendingState"
  shows "let sm' = ds_onRsrcEvent send RSRC_RELEASED sm
    in mStatePtr sm' = ReleasedState \<and> mSubscribers sm' = [] \<and>
       agps_out sm' = agps_out sm @ concat (map (call_of sm RSRC_DENIED) (mSubscribers sm))"
proof -
  have "state_onRsrcEvent send RSRC_RELEASED NoData sm = sm"
    using assms by (simp add: state_onRsrcEvent_def)
  then show ?thesis
    using assms by (simp add: ds_onRsrcEvent_def Let_def)
      (simp add: state_onRsrcEvent_def notifySubscribers_eq notify_all_out)
qed

lemma ds_release_in_pending_denies_witness:
  "agps_out (ds_onRsrcEvent sendRsrcRequest RSRC_RELEASED (ds_example\<lparr>mStatePtr := PendingState\<rparr>)) = [RequestATL 4]"
  using ds_release_in_pending_denies [of "ds_example\<lparr>mStatePtr := PendingState\<rparr>" sendRsrcRequest]
  by (simp add: ds_example_def agps_new_def Let_def)

text \<open>The search and the removal that the machine performs on its subscriber list is what the linked list
  implementation performs on the addresses of the subscribers, whatever the comparison callback does.\<close>

theorem agps_search_is_linked_search:
  fixes obj :: "nat \<Rightarrow> subscriber" and sm :: agps_sm
  assumes "ll_rep m h items"
    and "list_search equal rm (map (\<lambda>x. obj (fst (snd x))) items) sm = (r, ys, sm')"
  shows "\<exists>err out m' items'.
    linked_list_search h True (\<lambda>d. equal (obj d)) rm m sm = Some (err, out, m', sm') \<and>
    map_option obj out = r \<and> ll_rep m' h items' \<and> map (\<lambda>x. obj (fst (snd x))) items' = ys"
proof -
  obtain res s' where res: "find_from (\<lambda>d. equal (obj d)) items sm = (res, s')" by fastforce
  obtain err out m' where srch: "linked_list_search h True (\<lambda>d. equal (obj d)) rm m sm = Some (err, out, m', s')"
    and post: "search_post True rm h m [] res out m'"
    by (rule ll_search [OF assms(1) res])
  show ?thesis
    using list_search_linked [of equal rm obj items sm] assms res srch post
    by (cases res) (auto simp: search_post_def comp_def split: prod.splits if_splits dest: find_from_Some)
qed

lemma agps_search_is_linked_search_witness:
  "\<exists>err out m' items'.
    linked_list_search 1 True (\<lambda>d. hasSubscriber (search_notification BROADCAST_ALL) (ATLSubscriber (of_nat d) False))
      True two_items agps_example = Some (err, out, m', agps_example) \<and>
    map_option (\<lambda>d. ATLSubscriber (of_nat d) False) out = Some (ATLSubscriber 80 False) \<and> ll_rep m' 1 items'"
proof -
  let ?obj = "\<lambda>d. ATLSubscriber (of_nat d) False"
  have "list_search (hasSubscriber (search_notification BROADCAST_ALL)) True
      (map (\<lambda>x. ?obj (fst (snd x))) [(11, 80, False), (10, 70, True)]) agps_example
      = (Some (?obj 80), [?obj 70], agps_example)"
    by (simp add: hasSubscriber_def search_notification_def)
  from agps_search_is_linked_search [OF two_items_rep this] show ?thesis
    by auto
qed

subsection \<open>A subscriber that re-subscribes while the resource is released\<close>

text \<open>Its inactive twin is still in the list, so the new subscription is dropped silently: when the
  release ends it is told that the resource is released, and nothing is requested for it.\<close>

lemma resubscribe_while_releasing_is_dropped:
  "(let w = WIFISubscriber 1 None None False;
        sm1 = agps_onRsrcEvent sendRsrcRequest RSRC_GRANTED (subscribeRsrc sendRsrcRequest w (agps_new servicerTypeAgps 1 False));
        sm2 = subscribeRsrc sendRsrcRequest w (snd (unsubscribeRsrc sendRsrcRequest w sm1));
        sm3 = agps_onRsrcEvent sendRsrcRequest RSRC_RELEASED sm2
    in mStatePtr sm3 = ReleasedState \<and> mSubscribers sm3 = [])"
  by code_simp

end
