(* ===== verification/Nmea.thy ===== *)
theory Nmea
  imports Complex_Main Prelude "HOL-Library.Monad_Syntax"
begin

text \<open>
  The NMEA generator of \<^verbatim>\<open>loc_eng_nmea.cpp\<close>: position and satellite reports are formatted
  into a buffer of 200 bytes, closed with a checksum and handed to the client.  The buffer is the
  string written so far; a formatting that does not fit ends the function early (\<open>None\<close>), as the
  checks after \<^verbatim>\<open>snprintf\<close> do, and the unchecked ones truncate.  Floating-point values are
  rationals: the rounding of the arithmetic is not modelled, the rounding of \<^verbatim>\<open>printf\<close> is.
\<close>

section \<open>Formatting\<close>

definition NMEA_MAX :: nat where
  "NMEA_MAX = 200"

fun nat_str :: "nat \<Rightarrow> string" where
  "nat_str n = (if n < 10 then [char_of (48 + n)] else nat_str (n div 10) @ [char_of (48 + n mod 10)])"

declare nat_str.simps [simp del]

definition pad0 :: "nat \<Rightarrow> string \<Rightarrow> string" where
  "pad0 w s = replicate (w - length s) CHR ''0'' @ s"

text \<open>\<^verbatim>\<open>%0wd\<close>: the sign counts for the width.\<close>

definition fmt_d :: "nat \<Rightarrow> int \<Rightarrow> string" where
  "fmt_d w i = (if i < 0 then CHR ''-'' # pad0 (w - 1) (nat_str (nat (- i))) else pad0 w (nat_str (nat i)))"

definition round_half_even :: "rat \<Rightarrow> int" where
  "round_half_even y =
     (let f = \<lfloor>y\<rfloor>; r = y - of_int f
      in if r < 1 / 2 \<or> r = 1 / 2 \<and> even f then f else f + 1)"

text \<open>\<^verbatim>\<open>%0w.dlf\<close>: \<open>d\<close> digits after the point.\<close>

definition fmt_f :: "nat \<Rightarrow> nat \<Rightarrow> rat \<Rightarrow> string" where
  "fmt_f w d x =
     (let n = nat (round_half_even (\<bar>x\<bar> * 10 ^ d));
          body = nat_str (n div 10 ^ d) @ CHR ''.'' # pad0 d (nat_str (n mod 10 ^ d))
      in if x < 0 then CHR ''-'' # pad0 (w - 1) body else pad0 w body)"

definition hex_digit :: "nat \<Rightarrow> char" where
  "hex_digit n = (if n < 10 then char_of (48 + n) else char_of (55 + n))"

definition hex2 :: "u8 \<Rightarrow> string" where
  "hex2 b = [hex_digit (unat b div 16), hex_digit (unat b mod 16)]"

text \<open>\<^verbatim>\<open>snprintf\<close> at the marker with the check that follows it, and without one.\<close>

definition app :: "string \<Rightarrow> string \<Rightarrow> string option" where
  "app buf s = (if length s \<ge> NMEA_MAX - length buf then None else Some (buf @ s))"

definition app_unchecked :: "string \<Rightarrow> string \<Rightarrow> string" where
  "app_unchecked buf s = buf @ take (NMEA_MAX - length buf - 1) s"

section \<open>Checksum and sending\<close>

definition nmea_checksum :: "string \<Rightarrow> u8" where
  "nmea_checksum s = fold (\<lambda>c sum. sum XOR of_char c) s 0"

text \<open>
  \<^verbatim>\<open>loc_eng_nmea_put_checksum\<close>: the returned length and the sentence.  The \<open>$\<close> is skipped
  and not counted.
\<close>

definition put_checksum :: "string \<Rightarrow> nat \<Rightarrow> int \<times> string" where
  "put_checksum pNmea maxSize =
     (let body = tl pNmea; len = length body;
          tail = CHR ''*'' # hex2 (nmea_checksum body) @ [CHR 0x0D, CHR 0x0A]
      in (int len + 5, pNmea @ take (maxSize - len - 1 - 1) tail))"

record nmea_state =
  sv_used_mask :: u32
  c_pdop :: rat
  c_hdop :: rat
  c_vdop :: rat
  nmea_sent :: "(string \<times> int) list"   \<comment> \<open>the sentences and lengths passed to \<open>nmea_cb\<close>, if one is registered\<close>

definition nmea_send :: "string \<Rightarrow> int \<Rightarrow> nmea_state \<Rightarrow> nmea_state" where
  "nmea_send pNmea len s = s\<lparr>nmea_sent := nmea_sent s @ [(pNmea, len)]\<rparr>"

text \<open>The two calls that end every sentence.\<close>

definition send_sentence :: "string \<Rightarrow> nmea_state \<Rightarrow> nmea_state" where
  "send_sentence buf s = (case put_checksum buf NMEA_MAX of (len, sentence) \<Rightarrow> nmea_send sentence len s)"

section \<open>Reports\<close>

record gps_location =
  has_lat_long :: bool
  has_altitude :: bool
  has_speed :: bool
  has_bearing :: bool
  latitude :: rat
  longitude :: rat
  altitude :: rat
  speed :: rat
  bearing :: rat
  timestamp :: int

record location_extended =
  has_dop :: bool
  has_msl :: bool
  has_mag_dev :: bool
  altitudeMeanSeaLevel :: rat
  pdop :: rat
  hdop :: rat
  vdop :: rat
  magneticDeviation :: rat

record tm =
  tm_year :: int
  tm_mon :: int
  tm_mday :: int
  tm_hour :: int
  tm_min :: int
  tm_sec :: int

text \<open>\<^verbatim>\<open>gmtime\<close>: the proleptic Gregorian date of a number of days since 1970-01-01.\<close>

definition civil_of_days :: "int \<Rightarrow> int \<times> int \<times> int" where
  "civil_of_days days =
     (let z = days + 719468; era = z div 146097; doe = z mod 146097;
          yoe = (doe - doe div 1460 + doe div 36524 - doe div 146096) div 365;
          doy = doe - (365 * yoe + yoe div 4 - yoe div 100);
          mp = (5 * doy + 2) div 153;
          m = (if mp < 10 then mp + 3 else mp - 9)
      in (yoe + era * 400 + (if m \<le> 2 then 1 else 0), m, doy - (153 * mp + 2) div 5 + 1))"

definition gmtime :: "int \<Rightarrow> tm" where
  "gmtime t =
     (let s = t mod 86400
      in case civil_of_days (t div 86400) of
           (y, m, d) \<Rightarrow> \<lparr>tm_year = y - 1900, tm_mon = m - 1, tm_mday = d,
             tm_hour = s div 3600, tm_min = s mod 3600 div 60, tm_sec = s mod 60\<rparr>)"

section \<open>Sentences of a position report\<close>

text \<open>The list of used satellites: the positions of the bits of the mask, from 1.\<close>

fun sv_used_list :: "nat \<Rightarrow> nat \<Rightarrow> u32 \<Rightarrow> nat list" where
  "sv_used_list 0 i m = []"
| "sv_used_list (Suc n) i m =
     (if m = 0 then []
      else (if m AND 1 = 1 then [i] else []) @ sv_used_list n (i + 1) (drop_bit 1 m))"

fun gsa_svs :: "nat \<Rightarrow> nat list \<Rightarrow> string \<Rightarrow> string option" where
  "gsa_svs 0 used buf = Some buf"
| "gsa_svs (Suc n) [] buf = Option.bind (app buf '','') (gsa_svs n [])"
| "gsa_svs (Suc n) (i # used) buf = Option.bind (app buf (fmt_d 2 (int i) @ '','')) (gsa_svs n used)"

definition dop_text :: "location_extended \<Rightarrow> nmea_state \<Rightarrow> string" where
  "dop_text ext s =
     (if has_dop ext then fmt_f 0 1 (pdop ext) @ '','' @ fmt_f 0 1 (hdop ext) @ '','' @ fmt_f 0 1 (vdop ext)
      else if c_pdop s > 0 \<and> c_hdop s > 0 \<and> c_vdop s > 0
      then fmt_f 0 1 (c_pdop s) @ '','' @ fmt_f 0 1 (c_hdop s) @ '','' @ fmt_f 0 1 (c_vdop s)
      else '',,'')"

definition gen_gsa :: "nat list \<Rightarrow> location_extended \<Rightarrow> nmea_state \<Rightarrow> string option" where
  "gen_gsa used ext s = do {
     let fixType = (if length used = 0 then ''1'' else if length used \<le> 3 then ''2'' else ''3'');
     b \<leftarrow> app [] (''$GPGSA,A,'' @ fixType @ '','');
     b \<leftarrow> gsa_svs 12 used b;
     Some (app_unchecked b (dop_text ext s))
   }"

text \<open>The magnetic track that is printed is the bearing: the inner \<open>magTrack\<close> is another variable.\<close>

definition mode_char :: "gps_location \<Rightarrow> bool \<Rightarrow> string" where
  "mode_char loc standalone = (if \<not> has_lat_long loc then ''N'' else if standalone then ''A'' else ''D'')"

definition gen_vtg :: "gps_location \<Rightarrow> location_extended \<Rightarrow> bool \<Rightarrow> string option" where
  "gen_vtg loc ext standalone = do {
     b \<leftarrow> (if has_bearing loc then
             (let magTrack = bearing loc
              in app [] (''$GPVTG,'' @ fmt_f 0 1 (bearing loc) @ '',T,'' @ fmt_f 0 1 magTrack @ '',M,''))
           else app [] ''$GPVTG,,T,,M,'');
     b \<leftarrow> (if has_speed loc then
             app b (fmt_f 0 1 (speed loc * (3600 / 1852)) @ '',N,'' @ fmt_f 0 1 (speed loc * (36 / 10)) @ '',K,'')
           else app b '',N,,K,'');
     Some (app_unchecked b (mode_char loc standalone))
   }"

definition uint8_floor :: "rat \<Rightarrow> int" where
  "uint8_floor x = \<lfloor>x\<rfloor> mod 256"

definition fmod60 :: "rat \<Rightarrow> rat" where
  "fmod60 x = x - 60 * of_int \<lfloor>x / 60\<rfloor>"

definition lat_long_text :: "gps_location \<Rightarrow> string" where
  "lat_long_text loc =
     (let (lat, latHemisphere) = (if latitude loc > 0 then (latitude loc, ''N'') else (- latitude loc, ''S''));
          (lon, lonHemisphere) = (if longitude loc < 0 then (- longitude loc, ''W'') else (longitude loc, ''E''))
      in fmt_d 2 (uint8_floor lat) @ fmt_f 9 6 (fmod60 (lat * 60)) @ '','' @ latHemisphere @ '','' @
         fmt_d 3 (uint8_floor lon) @ fmt_f 9 6 (fmod60 (lon * 60)) @ '','' @ lonHemisphere @ '','')"

definition time_text :: "tm \<Rightarrow> string" where
  "time_text t = fmt_d 2 (tm_hour t) @ fmt_d 2 (tm_min t) @ fmt_d 2 (tm_sec t)"

definition gen_rmc :: "tm \<Rightarrow> gps_location \<Rightarrow> location_extended \<Rightarrow> bool \<Rightarrow> string option" where
  "gen_rmc t loc ext standalone = do {
     b \<leftarrow> app [] (''$GPRMC,'' @ time_text t @ '',A,'');
     b \<leftarrow> app b (if has_lat_long loc then lat_long_text loc else '',,,,'');
     b \<leftarrow> app b (if has_speed loc then fmt_f 0 1 (speed loc * (3600 / 1852)) @ '','' else '','');
     b \<leftarrow> app b (if has_bearing loc then fmt_f 0 1 (bearing loc) @ '','' else '','');
     b \<leftarrow> app b (fmt_d 2 (tm_mday t) @ fmt_d 2 (tm_mon t + 1) @ fmt_d 2 (tm_year t mod 100) @ '','');
     b \<leftarrow> app b (if has_mag_dev ext then
            (if magneticDeviation ext < 0 then fmt_f 0 1 (- magneticDeviation ext) @ '',W,''
             else fmt_f 0 1 (magneticDeviation ext) @ '',E,'')
          else '',,'');
     Some (app_unchecked b (mode_char loc standalone))
   }"

definition gen_gga :: "tm \<Rightarrow> nat \<Rightarrow> gps_location \<Rightarrow> location_extended \<Rightarrow> bool \<Rightarrow> nmea_state \<Rightarrow> string option" where
  "gen_gga t svUsedCount loc ext standalone s = do {
     b \<leftarrow> app [] (''$GPGGA,'' @ time_text t @ '','');
     b \<leftarrow> app b (if has_lat_long loc then lat_long_text loc else '',,,,'');
     let gpsQuality = (if \<not> has_lat_long loc then ''0'' else if standalone then ''1'' else ''2'');
     b \<leftarrow> app b (gpsQuality @ '','' @ fmt_d 2 (int svUsedCount) @ '','' @
            (if has_dop ext then fmt_f 0 1 (hdop ext) @ '',''
             else if c_pdop s > 0 \<and> c_hdop s > 0 \<and> c_vdop s > 0 then fmt_f 0 1 (c_hdop s) @ '',''
             else '',''));
     b \<leftarrow> app b (if has_msl ext then fmt_f 0 1 (altitudeMeanSeaLevel ext) @ '',M,'' else '',,'');
     Some (app_unchecked b (if has_altitude loc \<and> has_msl ext
            then fmt_f 0 1 (altitude loc - altitudeMeanSeaLevel ext) @ '',M,,'' else '',,,''))
   }"

text \<open>C division truncates towards zero.\<close>

definition c_div :: "int \<Rightarrow> int \<Rightarrow> int" where
  "c_div a b = (if a < 0 then - ((- a) div b) else a div b)"

text \<open>
  \<^verbatim>\<open>loc_eng_nmea_generate_pos\<close>; an early return keeps what has been sent before it and does
  not reach the clearing of the cached dilutions of precision.
\<close>

definition nmea_generate_pos ::
  "gps_location \<Rightarrow> location_extended \<Rightarrow> bool \<Rightarrow> bool \<Rightarrow> nmea_state \<Rightarrow> nmea_state" where
  "nmea_generate_pos loc ext generate_nmea standalone s =
     (let t = gmtime (sint (word_of_int (c_div (timestamp loc) 1000) :: u32));
          clear_dop = (\<lambda>s. s\<lparr>c_pdop := 0, c_hdop := 0, c_vdop := 0\<rparr>)
      in if generate_nmea then
           (let used = sv_used_list 32 1 (sv_used_mask s);
                s = s\<lparr>sv_used_mask := 0\<rparr>
            in case gen_gsa used ext s of None \<Rightarrow> s
               | Some b \<Rightarrow> (let s = send_sentence b s in
            case gen_vtg loc ext standalone of None \<Rightarrow> s
               | Some b \<Rightarrow> (let s = send_sentence b s in
            case gen_rmc t loc ext standalone of None \<Rightarrow> s
               | Some b \<Rightarrow> (let s = send_sentence b s in
            case gen_gga t (length used) loc ext standalone s of None \<Rightarrow> s
               | Some b \<Rightarrow> clear_dop (send_sentence b s)))))
         else clear_dop (fold send_sentence
           [''$GPGSA,A,1,,,,,,,,,,,,,,,'', ''$GPVTG,,T,,M,,N,,K,N'', ''$GPRMC,,V,,,,,,,,,,N'',
            ''$GPGGA,,,,,,0,,,,,,,,''] s))"

section \<open>Sentences of a satellite report\<close>

record sv_info =
  prn :: int
  elevation :: rat
  azimuth :: rat
  snr :: rat

definition is_gps :: "sv_info \<Rightarrow> bool" where
  "is_gps sv \<longleftrightarrow> 1 \<le> prn sv \<and> prn sv \<le> 32"

definition is_gln :: "sv_info \<Rightarrow> bool" where
  "is_gln sv \<longleftrightarrow> 65 \<le> prn sv \<and> prn sv \<le> 96"

text \<open>A C conversion to \<open>int\<close> truncates towards zero.\<close>

definition c_trunc :: "rat \<Rightarrow> int" where
  "c_trunc x = (if x < 0 then - \<lfloor>- x\<rfloor> else \<lfloor>x\<rfloor>)"

definition gsv_sat :: "sv_info \<Rightarrow> string \<Rightarrow> string option" where
  "gsv_sat sv b = do {
     b \<leftarrow> app b ('','' @ fmt_d 2 (prn sv) @ '','' @ fmt_d 2 (c_trunc (1 / 2 + elevation sv)) @ '','' @
            fmt_d 3 (c_trunc (1 / 2 + azimuth sv)) @ '','');
     if snr sv > 0 then app b (fmt_d 2 (c_trunc (1 / 2 + snr sv))) else Some b
   }"

text \<open>The inner loop: up to four satellites of the constellation; the rest of the list is left over.\<close>

fun gsv_sats :: "(sv_info \<Rightarrow> bool) \<Rightarrow> nat \<Rightarrow> sv_info list \<Rightarrow> string \<Rightarrow> (string \<times> sv_info list) option" where
  "gsv_sats P i [] b = Some (b, [])"
| "gsv_sats P i (sv # svs) b =
     (if i \<ge> 4 then Some (b, sv # svs)
      else if P sv then Option.bind (gsv_sat sv b) (gsv_sats P (i + 1) svs)
      else gsv_sats P i svs b)"

text \<open>The outer loop: \<open>n\<close> sentences are still to be sent; \<open>False\<close> on an early return.\<close>

fun gsv_loop :: "string \<Rightarrow> (sv_info \<Rightarrow> bool) \<Rightarrow> nat \<Rightarrow> nat \<Rightarrow> nat \<Rightarrow> nat \<Rightarrow> sv_info list \<Rightarrow> nmea_state \<Rightarrow> bool \<times> nmea_state" where
  "gsv_loop hdr P cnt sentenceCount 0 number svs s = (True, s)"
| "gsv_loop hdr P cnt sentenceCount (Suc n) number svs s =
     (case Option.bind (app [] (hdr @ '','' @ fmt_d 0 (int sentenceCount) @ '','' @ fmt_d 0 (int number) @ '','' @ fmt_d 2 (int cnt)))
             (gsv_sats P 0 svs) of
        None \<Rightarrow> (False, s)
      | Some (b, svs') \<Rightarrow> gsv_loop hdr P cnt sentenceCount n (number + 1) svs' (send_sentence b s))"

definition gsv_all :: "string \<Rightarrow> (sv_info \<Rightarrow> bool) \<Rightarrow> sv_info list \<Rightarrow> nmea_state \<Rightarrow> bool \<times> nmea_state" where
  "gsv_all hdr P svs s =
     (let cnt = length (filter P svs)
      in if cnt = 0 then (True, send_sentence (hdr @ '',1,1,0,'') s)
         else (let sentenceCount = cnt div 4 + (if cnt mod 4 \<noteq> 0 then 1 else 0)
               in gsv_loop hdr P cnt sentenceCount sentenceCount 1 svs s))"

definition nmea_generate_sv :: "sv_info list \<Rightarrow> u32 \<Rightarrow> location_extended \<Rightarrow> nmea_state \<Rightarrow> nmea_state" where
  "nmea_generate_sv sv_list used_mask ext s =
     (case gsv_all ''$GPGSV'' is_gps sv_list s of
        (False, s) \<Rightarrow> s
      | (True, s) \<Rightarrow>
     (case gsv_all ''$GLGSV'' is_gln sv_list s of
        (False, s) \<Rightarrow> s
      | (True, s) \<Rightarrow>
          (let s = s\<lparr>sv_used_mask := used_mask\<rparr>
           in if has_dop ext then s\<lparr>c_pdop := pdop ext, c_hdop := hdop ext, c_vdop := vdop ext\<rparr>
              else s\<lparr>c_pdop := 0, c_hdop := 0, c_vdop := 0\<rparr>)))"

section \<open>Characters and lengths of formatted numbers\<close>

definition plain :: "string \<Rightarrow> bool" where
  "plain s \<longleftrightarrow> CHR ''*'' \<notin> set s"

lemma plain_simps [simp]:
  "plain []" "plain (c # s) \<longleftrightarrow> c \<noteq> CHR ''*'' \<and> plain s" "plain (s @ t) \<longleftrightarrow> plain s \<and> plain t"
  "plain (replicate n CHR ''0'')"
  by (auto simp: plain_def)

lemma digit_not_star: "(k :: nat) < 10 \<Longrightarrow> char_of (48 + k) \<noteq> CHR ''*''"
proof
  assume "k < 10" and "char_of (48 + k) = CHR ''*''"
  then have "of_char (char_of (48 + k) :: char) = (42 :: nat)" by simp
  with \<open>k < 10\<close> show False by simp
qed

lemma plain_nat_str [simp]: "plain (nat_str n)"
proof (induction n rule: nat_str.induct)
  case (1 n)
  then show ?case
    by (subst nat_str.simps) (use digit_not_star [of n] digit_not_star [of "n mod 10"] in auto)
qed

lemma plain_pad0 [simp]: "plain (pad0 w s) = plain s"
  by (simp add: pad0_def)

lemma plain_fmt [simp]: "plain (fmt_d w i)" "plain (fmt_f w d x)"
  by (simp_all add: fmt_d_def fmt_f_def Let_def)

lemma nat_str_nonempty: "nat_str n \<noteq> []"
  by (subst nat_str.simps) simp

lemma length_nat_str: "n < 10 ^ k \<Longrightarrow> 0 < k \<Longrightarrow> length (nat_str n) \<le> k"
proof (induction k arbitrary: n)
  case (Suc k)
  show ?case
  proof (cases "n < 10")
    case True
    then show ?thesis by (subst nat_str.simps) simp
  next
    case False
    then have "n div 10 < 10 ^ k" and "0 < k"
      using Suc.prems by (auto simp: less_mult_imp_div_less mult.commute intro: Suc_leI gr0I)
    then have "length (nat_str (n div 10)) \<le> k" by (rule Suc.IH)
    with False show ?thesis by (subst nat_str.simps) simp
  qed
qed simp

lemma length_pad0: "length (pad0 w s) = max w (length s)"
  by (simp add: pad0_def)

lemma length_fmt_d:
  assumes "\<bar>i\<bar> < 10 ^ k" and "0 < k"
  shows "length (fmt_d w i) \<le> max w (k + 1)"
proof -
  have "length (nat_str (nat \<bar>i\<bar>)) \<le> k"
    using assms by (intro length_nat_str) (simp_all add: nat_less_iff)
  then show ?thesis by (auto simp: fmt_d_def length_pad0)
qed

lemma length_fmt_d_nonneg:
  assumes "0 \<le> i" and "i < 10 ^ k" and "0 < k"
  shows "length (fmt_d w i) \<le> max w k"
proof -
  have "length (nat_str (nat i)) \<le> k"
    using assms by (intro length_nat_str) (simp_all add: nat_less_iff)
  with assms(1) show ?thesis by (simp add: fmt_d_def length_pad0)
qed

lemma round_half_even_le: "round_half_even y \<le> \<lfloor>y\<rfloor> + 1"
  by (simp add: round_half_even_def Let_def)

text \<open>A value below \<open>10 ^ k\<close> in magnitude prints at most \<open>k + 1\<close> digits before the point.\<close>

lemma length_fmt_f:
  assumes "\<bar>x\<bar> < 10 ^ k" and "0 < d"
  shows "length (fmt_f w d x) \<le> max w (k + d + 3)"
proof -
  define n where "n = nat (round_half_even (\<bar>x\<bar> * 10 ^ d))"
  have "\<bar>x\<bar> * 10 ^ d < 10 ^ k * 10 ^ d"
    using assms by (intro mult_strict_right_mono) simp_all
  then have "\<lfloor>\<bar>x\<bar> * 10 ^ d\<rfloor> < 10 ^ (k + d)"
    by (simp add: floor_less_iff power_add)
  then have "round_half_even (\<bar>x\<bar> * 10 ^ d) \<le> 10 ^ (k + d)"
    using round_half_even_le [of "\<bar>x\<bar> * 10 ^ d"] by linarith
  then have n: "n \<le> 10 ^ (k + d)"
    by (simp add: n_def nat_le_iff)
  have "n div 10 ^ d \<le> 10 ^ (k + d) div 10 ^ d" using n by (rule div_le_mono)
  also have "\<dots> < 10 ^ (k + 1)" by (simp add: power_add)
  finally have "n div 10 ^ d < 10 ^ (k + 1)" .
  then have int: "length (nat_str (n div 10 ^ d)) \<le> k + 1" by (rule length_nat_str) simp
  have "length (nat_str (n mod 10 ^ d)) \<le> d"
    using assms(2) length_nat_str [of "n mod 10 ^ d" d] by simp
  with int show ?thesis
    unfolding fmt_f_def Let_def n_def [symmetric] by (auto simp: length_pad0)
qed

section \<open>Checksums\<close>

text \<open>What a receiver checks: the text between \<open>$\<close> and \<open>*\<close> has the checksum that follows.\<close>

definition nmea_check :: "string \<Rightarrow> bool" where
  "nmea_check s =
     (case s of [] \<Rightarrow> False
      | c # rest \<Rightarrow> c = CHR ''$'' \<and>
          (let body = takeWhile (\<lambda>c. c \<noteq> CHR ''*'') rest
           in drop (length body) rest = CHR ''*'' # hex2 (nmea_checksum body) @ [CHR 0x0D, CHR 0x0A]))"

definition entry_ok :: "string \<times> int \<Rightarrow> bool" where
  "entry_ok e = (case e of (sentence, len) \<Rightarrow> length sentence < NMEA_MAX \<and>
     (len \<le> 198 \<longrightarrow> nmea_check sentence \<and> int (length sentence) = len + 1))"

definition ok_buf :: "string \<Rightarrow> bool" where
  "ok_buf b \<longleftrightarrow> (\<exists>body. b = CHR ''$'' # body \<and> plain body \<and> length b < NMEA_MAX)"

lemma nmea_check_checksum:
  assumes "plain body"
  shows "nmea_check (CHR ''$'' # body @ CHR ''*'' # hex2 (nmea_checksum body) @ [CHR 0x0D, CHR 0x0A])"
proof -
  have "takeWhile (\<lambda>c. c \<noteq> CHR ''*'') (body @ CHR ''*'' # r) = body" for r
    using assms by (subst takeWhile_append2) (auto simp: plain_def)
  then show ?thesis by (simp add: nmea_check_def Let_def)
qed

lemma entry_ok_put_checksum:
  assumes "ok_buf b"
  shows "entry_ok (case put_checksum b NMEA_MAX of (len, sentence) \<Rightarrow> (sentence, len))"
proof -
  obtain body where b: "b = CHR ''$'' # body" "plain body" "length body < 199"
    using assms by (auto simp: ok_buf_def NMEA_MAX_def)
  let ?tail = "CHR ''*'' # hex2 (nmea_checksum body) @ [CHR 0x0D, CHR 0x0A]"
  have tl: "length ?tail = 5" by (simp add: hex2_def)
  have eq: "put_checksum b NMEA_MAX = (int (length body) + 5, b @ take (198 - length body) ?tail)"
    by (simp add: put_checksum_def b NMEA_MAX_def Let_def)
  show ?thesis
  proof (cases "int (length body) + 5 \<le> 198")
    case True
    then have "take (198 - length body) ?tail = ?tail" using tl by (intro take_all) simp
    with True b tl nmea_check_checksum [OF b(2)] show ?thesis
      unfolding eq by (simp add: entry_ok_def NMEA_MAX_def)
  next
    case False
    with b tl show ?thesis unfolding eq by (simp add: entry_ok_def NMEA_MAX_def)
  qed
qed

definition nmea_inv :: "nmea_state \<Rightarrow> bool" where
  "nmea_inv s \<longleftrightarrow> (\<forall>e \<in> set (nmea_sent s). entry_ok e)"

lemma nmea_inv_send: "nmea_inv s \<Longrightarrow> ok_buf b \<Longrightarrow> nmea_inv (send_sentence b s)"
  using entry_ok_put_checksum [of b] by (auto simp: nmea_inv_def send_sentence_def nmea_send_def split: prod.splits)

lemma ok_buf_app:
  "app b t = Some b' \<Longrightarrow> plain t \<Longrightarrow> ok_buf b \<Longrightarrow> ok_buf b'"
  by (auto simp: app_def ok_buf_def split: if_splits)

lemma ok_buf_first: "app [] t = Some b \<Longrightarrow> t = CHR ''$'' # u \<Longrightarrow> plain u \<Longrightarrow> ok_buf b"
  by (auto simp: app_def ok_buf_def split: if_splits)

lemma ok_buf_unchecked: "ok_buf b \<Longrightarrow> plain t \<Longrightarrow> ok_buf (app_unchecked b t)"
  by (auto simp: app_unchecked_def ok_buf_def plain_def dest: in_set_takeD)

lemma plain_texts [simp]:
  "plain (dop_text ext s)" "plain (mode_char loc sa)" "plain (lat_long_text loc)" "plain (time_text t)"
  by (auto simp: dop_text_def mode_char_def lat_long_text_def time_text_def Let_def split: prod.splits)

lemma ok_gsa_svs: "gsa_svs n used b = Some b' \<Longrightarrow> ok_buf b \<Longrightarrow> ok_buf b'"
  by (induction n used b rule: gsa_svs.induct)
    (auto simp: bind_eq_Some_conv, (drule ok_buf_app; simp)+)

lemma ok_gen_gsa: "gen_gsa used ext s = Some b \<Longrightarrow> ok_buf b"
  by (auto simp: gen_gsa_def bind_eq_Some_conv Let_def
      intro!: ok_buf_unchecked elim!: ok_gsa_svs ok_buf_first)

lemma ok_gen_vtg: "gen_vtg loc ext sa = Some b \<Longrightarrow> ok_buf b"
  by (auto simp: gen_vtg_def bind_eq_Some_conv Let_def split: if_splits
      intro!: ok_buf_unchecked elim!: ok_buf_app ok_buf_first)

lemma ok_gen_rmc: "gen_rmc t loc ext sa = Some b \<Longrightarrow> ok_buf b"
  by (auto simp: gen_rmc_def bind_eq_Some_conv
      intro!: ok_buf_unchecked elim!: ok_buf_app ok_buf_first)

lemma ok_gen_gga: "gen_gga t n loc ext sa s = Some b \<Longrightarrow> ok_buf b"
  by (auto simp: gen_gga_def bind_eq_Some_conv Let_def
      intro!: ok_buf_unchecked elim!: ok_buf_app ok_buf_first)

lemma nmea_inv_upd [simp]:
  "nmea_inv (s\<lparr>sv_used_mask := m\<rparr>) = nmea_inv s" "nmea_inv (s\<lparr>c_pdop := p, c_hdop := h, c_vdop := v\<rparr>) = nmea_inv s"
  by (simp_all add: nmea_inv_def)

lemma nmea_inv_fold: "\<forall>b \<in> set bs. ok_buf b \<Longrightarrow> nmea_inv s \<Longrightarrow> nmea_inv (fold send_sentence bs s)"
  by (induction bs arbitrary: s) (auto intro: nmea_inv_send)

lemma nmea_inv_pos: "nmea_inv s \<Longrightarrow> nmea_inv (nmea_generate_pos loc ext gen sa s)"
proof (cases gen)
  case False
  assume "nmea_inv s"
  moreover have "\<forall>b \<in> set [''$GPGSA,A,1,,,,,,,,,,,,,,,'', ''$GPVTG,,T,,M,,N,,K,N'', ''$GPRMC,,V,,,,,,,,,,N'',
      ''$GPGGA,,,,,,0,,,,,,,,'']. ok_buf b"
    by (simp add: ok_buf_def NMEA_MAX_def)
  ultimately have "nmea_inv (fold send_sentence [''$GPGSA,A,1,,,,,,,,,,,,,,,'', ''$GPVTG,,T,,M,,N,,K,N'',
      ''$GPRMC,,V,,,,,,,,,,N'', ''$GPGGA,,,,,,0,,,,,,,,''] s)"
    by (intro nmea_inv_fold)
  then show ?thesis
    unfolding nmea_generate_pos_def Let_def if_not_P [OF False] nmea_inv_upd .
next
  case True
  assume "nmea_inv s"
  with True show ?thesis
    by (auto simp: nmea_generate_pos_def Let_def intro!: nmea_inv_send
        dest: ok_gen_gsa ok_gen_vtg ok_gen_rmc ok_gen_gga split: option.split)
qed

lemma ok_gsv_sat: "gsv_sat sv b = Some b' \<Longrightarrow> ok_buf b \<Longrightarrow> ok_buf b'"
  by (auto simp: gsv_sat_def bind_eq_Some_conv split: if_splits elim!: ok_buf_app)

lemma ok_gsv_sats: "gsv_sats P i svs b = Some (b', svs') \<Longrightarrow> ok_buf b \<Longrightarrow> ok_buf b'"
  by (induction P i svs b rule: gsv_sats.induct)
    (auto simp: bind_eq_Some_conv split: if_splits dest: ok_gsv_sat)

lemma nmea_inv_loop:
  "nmea_inv s \<Longrightarrow> hdr = CHR ''$'' # h \<Longrightarrow> plain h \<Longrightarrow> nmea_inv (snd (gsv_loop hdr P cnt tot n number svs s))"
proof (induction hdr P cnt tot n number svs s rule: gsv_loop.induct)
  case (2 hdr P cnt tot n number svs s)
  show ?case
  proof (cases "Option.bind (app [] (hdr @ '','' @ fmt_d 0 (int tot) @ '','' @ fmt_d 0 (int number) @ '','' @ fmt_d 2 (int cnt)))
      (gsv_sats P 0 svs)")
    case None
    then show ?thesis using 2 by simp
  next
    case (Some r)
    obtain b svs' where r: "r = (b, svs')" by fastforce
    with Some 2 have "ok_buf b"
      by (auto simp: bind_eq_Some_conv dest!: ok_gsv_sats elim: ok_buf_first)
    then have "nmea_inv (snd (gsv_loop hdr P cnt tot n (number + 1) svs' (send_sentence b s)))"
      using "2.IH" [OF Some r [symmetric]] "2.prems" by (auto intro: nmea_inv_send)
    then show ?thesis using Some r by simp
  qed
qed simp

lemma nmea_inv_all:
  "nmea_inv s \<Longrightarrow> hdr = CHR ''$'' # h \<Longrightarrow> plain h \<Longrightarrow> length h < 100 \<Longrightarrow> nmea_inv (snd (gsv_all hdr P svs s))"
proof -
  assume a: "nmea_inv s" "hdr = CHR ''$'' # h" "plain h" "length h < 100"
  then have "ok_buf (hdr @ '',1,1,0,'')" by (simp add: ok_buf_def NMEA_MAX_def)
  with a show ?thesis
    by (simp add: gsv_all_def Let_def nmea_inv_send nmea_inv_loop del: gsv_loop.simps)
qed

lemma nmea_inv_sv: "nmea_inv s \<Longrightarrow> nmea_inv (nmea_generate_sv svs m ext s)"
  using nmea_inv_all [of s "''$GPGSV''" "''GPGSV''" is_gps svs]
    nmea_inv_all [of "snd (gsv_all ''$GPGSV'' is_gps svs s)" "''$GLGSV''" "''GLGSV''" is_gln svs]
  by (auto simp: nmea_generate_sv_def Let_def split: prod.split bool.split)

section \<open>The satellites in view\<close>

definition sat_text :: "sv_info \<Rightarrow> string" where
  "sat_text sv = '','' @ fmt_d 2 (prn sv) @ '','' @ fmt_d 2 (c_trunc (1 / 2 + elevation sv)) @ '','' @
     fmt_d 3 (c_trunc (1 / 2 + azimuth sv)) @ '','' @
     (if snr sv > 0 then fmt_d 2 (c_trunc (1 / 2 + snr sv)) else [])"

definition gsv_header :: "string \<Rightarrow> nat \<Rightarrow> nat \<Rightarrow> nat \<Rightarrow> string" where
  "gsv_header hdr sentenceCount number cnt =
     hdr @ '','' @ fmt_d 0 (int sentenceCount) @ '','' @ fmt_d 0 (int number) @ '','' @ fmt_d 2 (int cnt)"

definition sv_plausible :: "sv_info \<Rightarrow> bool" where
  "sv_plausible sv \<longleftrightarrow> 0 < prn sv \<and> prn sv < 1000 \<and> \<bar>elevation sv\<bar> < 10 ^ 6 \<and> \<bar>azimuth sv\<bar> < 10 ^ 6 \<and>
     \<bar>snr sv\<bar> < 10 ^ 6"

lemma app_Some: "length b + length t < NMEA_MAX \<Longrightarrow> app b t = Some (b @ t)"
  by (simp add: app_def)

lemma c_trunc_bound:
  assumes "\<bar>x\<bar> < 10 ^ 6"
  shows "\<bar>c_trunc (1 / 2 + x)\<bar> < 10 ^ 7"
proof -
  have "- (10 ^ 6) < x" "x < 10 ^ 6" using assms by linarith+
  then have "\<lfloor>1 / 2 + x\<rfloor> < 10 ^ 7" "\<lfloor>- (1 / 2 + x)\<rfloor> < 10 ^ 7"
    by (simp_all add: floor_less_iff)
  then show ?thesis by (auto simp: c_trunc_def)
qed

lemma sat_text_short:
  assumes "sv_plausible sv"
  shows "length (sat_text sv) \<le> 31"
proof -
  have "length (fmt_d 2 (prn sv)) \<le> 3"
    using assms length_fmt_d_nonneg [of "prn sv" 3 2] by (simp add: sv_plausible_def)
  moreover have "length (fmt_d w (c_trunc (1 / 2 + x))) \<le> 8" if "w \<le> 3" "\<bar>x\<bar> < 10 ^ 6" for w x
    using length_fmt_d [OF c_trunc_bound [OF that(2)], of w] that(1) by simp
  from this [of 2 "elevation sv"] this [of 3 "azimuth sv"] this [of 2 "snr sv"]
  have "length (fmt_d 2 (c_trunc (1 / 2 + elevation sv))) \<le> 8" "length (fmt_d 3 (c_trunc (1 / 2 + azimuth sv))) \<le> 8"
    "length (fmt_d 2 (c_trunc (1 / 2 + snr sv))) \<le> 8"
    using assms by (simp_all add: sv_plausible_def)
  ultimately show ?thesis by (simp add: sat_text_def)
qed

lemma gsv_sat_Some:
  "length b + length (sat_text sv) < NMEA_MAX \<Longrightarrow> gsv_sat sv b = Some (b @ sat_text sv)"
  by (auto simp: gsv_sat_def sat_text_def app_Some)

lemma gsv_sats_Some:
  "\<forall>sv \<in> set svs. P sv \<longrightarrow> sv_plausible sv \<Longrightarrow> i \<le> 4 \<Longrightarrow> length b + 31 * (4 - i) < NMEA_MAX \<Longrightarrow>
   \<exists>rest. gsv_sats P i svs b = Some (b @ concat (map sat_text (take (4 - i) (filter P svs))), rest) \<and>
     filter P rest = drop (4 - i) (filter P svs) \<and> set rest \<subseteq> set svs"
proof (induction P i svs b rule: gsv_sats.induct)
  case (2 P i sv svs b)
  show ?case
  proof (cases "P sv \<and> i < 4")
    case True
    then have short: "length (sat_text sv) \<le> 31" using 2 by (intro sat_text_short) simp
    obtain k where k: "4 - i = Suc k" "4 - (i + 1) = k" using True by (cases "4 - i") auto
    have "length b + length (sat_text sv) < NMEA_MAX" "length (b @ sat_text sv) + 31 * k < NMEA_MAX"
      using short 2(5) k by simp_all
    then have sat: "gsv_sat sv b = Some (b @ sat_text sv)" by (simp add: gsv_sat_Some)
    moreover have "\<exists>rest. gsv_sats P (i + 1) svs (b @ sat_text sv) =
        Some ((b @ sat_text sv) @ concat (map sat_text (take k (filter P svs))), rest) \<and>
        filter P rest = drop k (filter P svs) \<and> set rest \<subseteq> set svs"
      using "2.IH"(1) [of "b @ sat_text sv"] sat True 2(3) k \<open>length (b @ sat_text sv) + 31 * k < NMEA_MAX\<close> by simp
    ultimately show ?thesis using True k by auto
  next
    case False
    then show ?thesis using "2.IH"(2) 2 by (cases "4 \<le> i") auto
  qed
qed auto

lemma gsv_header_short:
  assumes "length hdr \<le> 6" and "k < 1000" and "n < 1000" and "cnt < 1000"
  shows "length (gsv_header hdr k n cnt) \<le> 18"
  using assms length_fmt_d_nonneg [of "int k" 3 0] length_fmt_d_nonneg [of "int n" 3 0]
    length_fmt_d_nonneg [of "int cnt" 3 2]
  by (simp add: gsv_header_def)

definition gsv_chunk :: "sv_info list \<Rightarrow> nat \<Rightarrow> sv_info list" where
  "gsv_chunk xs j = take 4 (drop (4 * j) xs)"

lemma gsv_loop_eq:
  assumes "length hdr \<le> 6" and "tot < 1000" and "cnt < 1000"
  shows "\<forall>sv \<in> set svs. P sv \<longrightarrow> sv_plausible sv \<Longrightarrow> number + n \<le> 1000 \<Longrightarrow>
    gsv_loop hdr P cnt tot n number svs s =
      (True, fold send_sentence (map (\<lambda>j. gsv_header hdr tot (number + j) cnt @
         concat (map sat_text (gsv_chunk (filter P svs) j))) [0..<n]) s)"
proof (induction n arbitrary: number svs s)
  case (Suc n)
  let ?b = "gsv_header hdr tot number cnt"
  have b: "length ?b \<le> 18" using assms Suc.prems by (intro gsv_header_short) simp_all
  then have "app [] ?b = Some ?b" by (simp add: app_Some NMEA_MAX_def)
  moreover obtain rest where rest: "gsv_sats P 0 svs ?b = Some (?b @ concat (map sat_text (take 4 (filter P svs))), rest)"
    "filter P rest = drop 4 (filter P svs)" "set rest \<subseteq> set svs"
    using gsv_sats_Some [of svs P 0 ?b] Suc.prems b by (auto simp: NMEA_MAX_def)
  ultimately have step: "gsv_loop hdr P cnt tot (Suc n) number svs s =
      gsv_loop hdr P cnt tot n (number + 1) rest (send_sentence (?b @ concat (map sat_text (gsv_chunk (filter P svs) 0))) s)"
    by (simp add: gsv_header_def gsv_chunk_def)
  have chunk: "gsv_chunk (filter P rest) j = gsv_chunk (filter P svs) (Suc j)" for j
    by (simp add: gsv_chunk_def rest(2) add.commute)
  have "[0..<Suc n] = 0 # map Suc [0..<n]" by (simp add: map_Suc_upt upt_conv_Cons)
  then show ?case
    unfolding step using Suc.IH [of rest "number + 1"] Suc.prems rest(3)
    by (auto simp: chunk comp_def)
qed simp

lemma concat_chunks: "length xs \<le> 4 * n \<Longrightarrow> concat (map (gsv_chunk xs) [0..<n]) = xs"
proof (induction n arbitrary: xs)
  case (Suc n)
  have "gsv_chunk (drop 4 xs) j = gsv_chunk xs (Suc j)" for j
    by (simp add: gsv_chunk_def add.commute)
  then have "map (gsv_chunk xs) [0..<Suc n] = take 4 xs # map (gsv_chunk (drop 4 xs)) [0..<n]"
    by (simp add: upt_conv_Cons map_Suc_upt [symmetric] gsv_chunk_def del: upt_Suc)
  moreover have "concat (map (gsv_chunk (drop 4 xs)) [0..<n]) = drop 4 xs"
    using Suc.prems by (intro Suc.IH) simp
  ultimately show ?case by simp
qed simp

lemma gsv_all_eq:
  assumes "length hdr \<le> 6" and "\<forall>sv \<in> set svs. P sv \<longrightarrow> sv_plausible sv" and "length svs < 1000"
  shows "gsv_all hdr P svs s = (True, fold send_sentence
    (if filter P svs = [] then [hdr @ '',1,1,0,'']
     else map (\<lambda>j. gsv_header hdr ((length (filter P svs) + 3) div 4) (1 + j) (length (filter P svs)) @
         concat (map sat_text (gsv_chunk (filter P svs) j))) [0..<(length (filter P svs) + 3) div 4]) s)"
proof (cases "filter P svs = []")
  case True
  then show ?thesis by (simp add: gsv_all_def Let_def)
next
  case False
  let ?n = "length (filter P svs)"
  have n: "?n < 1000" using assms(3) length_filter_le [of P svs] by linarith
  have tot: "?n div 4 + (if ?n mod 4 \<noteq> 0 then 1 else 0) = (?n + 3) div 4" by auto presburger+
  have small: "(?n + 3) div 4 < 1000" using n by linarith
  have "gsv_all hdr P svs s = gsv_loop hdr P ?n ((?n + 3) div 4) ((?n + 3) div 4) 1 svs s"
    using False by (simp add: gsv_all_def Let_def tot [symmetric])
  also have "\<dots> = (True, fold send_sentence (map (\<lambda>j. gsv_header hdr ((?n + 3) div 4) (1 + j) ?n @
       concat (map sat_text (gsv_chunk (filter P svs) j))) [0..<(?n + 3) div 4]) s)"
    using assms small n by (intro gsv_loop_eq) simp_all
  finally show ?thesis using False by simp
qed

section \<open>The sentences of a plausible position report\<close>

definition small :: "rat \<Rightarrow> bool" where
  "small x \<longleftrightarrow> \<bar>x\<bar> < 10 ^ 6"

definition loc_plausible :: "gps_location \<Rightarrow> location_extended \<Rightarrow> nmea_state \<Rightarrow> bool" where
  "loc_plausible loc ext s \<longleftrightarrow> small (10 * speed loc) \<and> small (bearing loc) \<and>
     small (altitude loc - altitudeMeanSeaLevel ext) \<and> small (altitudeMeanSeaLevel ext) \<and>
     small (pdop ext) \<and> small (hdop ext) \<and> small (vdop ext) \<and> small (magneticDeviation ext) \<and>
     small (c_pdop s) \<and> small (c_hdop s) \<and> small (c_vdop s)"

lemma fmt_f_small: "small x \<Longrightarrow> length (fmt_f 0 1 x) \<le> 10"
  using length_fmt_f [of x 6 1 0] by (simp add: small_def)

lemma small_mult:
  assumes "small (10 * x)" and "\<bar>k\<bar> \<le> 10"
  shows "small (x * k)"
proof -
  have "\<bar>x\<bar> * \<bar>k\<bar> \<le> \<bar>x\<bar> * 10" using assms(2) by (intro mult_left_mono) simp_all
  with assms(1) show ?thesis by (simp add: small_def abs_mult)
qed

lemma small_minus: "small x \<Longrightarrow> small (- x)"
  by (simp add: small_def)

lemma fmod60_bounds: "\<bar>fmod60 x\<bar> < 10 ^ 2"
proof -
  have "of_int \<lfloor>x / 60\<rfloor> \<le> x / 60" "x / 60 < of_int \<lfloor>x / 60\<rfloor> + 1"
    using floor_correct [of "x / 60"] by simp_all
  then have "0 \<le> fmod60 x" "fmod60 x < 60" unfolding fmod60_def by linarith+
  then show ?thesis by simp
qed

lemma lat_long_short: "length (lat_long_text loc) \<le> 34"
proof -
  have "length (fmt_f 9 6 (fmod60 x)) \<le> 11" for x
    using length_fmt_f [OF fmod60_bounds, of 6 9 x] by simp
  moreover have "length (fmt_d w (uint8_floor x)) \<le> 3" if "w \<le> 3" for w x
    using length_fmt_d_nonneg [of "uint8_floor x" 3 w] that by (simp add: uint8_floor_def)
  ultimately have key: "length (fmt_d 2 (uint8_floor lat) @ fmt_f 9 6 (fmod60 (lat * 60)) @ '','' @ [a] @ '','' @
      fmt_d 3 (uint8_floor lon) @ fmt_f 9 6 (fmod60 (lon * 60)) @ '','' @ [b] @ '','') \<le> 34" for lat lon a b
    using add_mono [OF add_mono add_mono, of "length (fmt_d 2 (uint8_floor lat))" 3
        "length (fmt_f 9 6 (fmod60 (lat * 60)))" 11 "length (fmt_d 3 (uint8_floor lon))" 3
        "length (fmt_f 9 6 (fmod60 (lon * 60)))" 11] by simp
  show ?thesis
    unfolding lat_long_text_def Let_def
    by (cases "latitude loc > 0"; cases "longitude loc < 0"; simp only: if_True if_False prod.case; rule key)
qed

lemma dop_text_short: "loc_plausible loc ext s \<Longrightarrow> length (dop_text ext s) \<le> 32"
  using fmt_f_small [of "pdop ext"] fmt_f_small [of "hdop ext"] fmt_f_small [of "vdop ext"]
    fmt_f_small [of "c_pdop s"] fmt_f_small [of "c_hdop s"] fmt_f_small [of "c_vdop s"]
  by (auto simp: dop_text_def loc_plausible_def)

lemma gmtime_fields:
  "tm_hour (gmtime t) = t mod 86400 div 3600" "tm_min (gmtime t) = t mod 86400 mod 3600 div 60"
  "tm_sec (gmtime t) = t mod 86400 mod 60"
  by (simp_all add: gmtime_def Let_def split: prod.split)

lemma time_text_short: "length (time_text (gmtime t)) \<le> 6"
proof -
  have two: "length (fmt_d 2 i) \<le> 2" if "0 \<le> i" "i < 100" for i
    using length_fmt_d_nonneg [of i 2 2] that by simp
  have "t mod 86400 < 86400" "t mod 86400 mod 3600 < 3600" "t mod 86400 mod 60 < 60" by simp_all
  then have "length (fmt_d 2 (t mod 86400 div 3600)) \<le> 2" "length (fmt_d 2 (t mod 86400 mod 3600 div 60)) \<le> 2"
    "length (fmt_d 2 (t mod 86400 mod 60)) \<le> 2"
    by (intro two; simp add: pos_imp_zdiv_nonneg_iff)+
  then show ?thesis by (simp add: time_text_def gmtime_fields)
qed

lemma civil_bounds:
  assumes "\<bar>days\<bar> < 10 ^ 6"
  shows "case civil_of_days days of (y, m, d) \<Rightarrow> \<bar>m\<bar> < 10 ^ 8 \<and> \<bar>d\<bar> < 10 ^ 8"
proof -
  define doe where "doe = (days + 719468) mod 146097"
  define yoe where "yoe = (doe - doe div 1460 + doe div 36524 - doe div 146096) div 365"
  define doy where "doy = doe - (365 * yoe + yoe div 4 - yoe div 100)"
  define mp where "mp = (5 * doy + 2) div 153"
  have "0 \<le> doe" "doe < 146097" by (simp_all add: doe_def)
  then have "\<bar>yoe\<bar> < 10 ^ 3" unfolding yoe_def by (simp add: abs_less_iff)
  then have "\<bar>doy\<bar> < 10 ^ 6" unfolding doy_def using \<open>0 \<le> doe\<close> \<open>doe < 146097\<close> by (simp add: abs_less_iff) linarith
  then have "\<bar>mp\<bar> < 10 ^ 5" unfolding mp_def by (simp add: abs_less_iff) linarith
  define md where "md = (153 * mp + 2) div 5"
  have "5 * md \<le> 153 * mp + 2" "153 * mp + 2 < 5 * md + 5"
    unfolding md_def by linarith+
  with \<open>\<bar>mp\<bar> < 10 ^ 5\<close> \<open>\<bar>doy\<bar> < 10 ^ 6\<close> have "\<bar>doy - md + 1\<bar> < 10 ^ 8" and "\<bar>mp + 3\<bar> < 10 ^ 8" and "\<bar>mp - 9\<bar> < 10 ^ 8"
    by (simp_all add: abs_less_iff)
  then show ?thesis
    unfolding civil_of_days_def Let_def doe_def [symmetric] yoe_def [symmetric] doy_def [symmetric] mp_def [symmetric]
      md_def [symmetric] by (simp add: abs_less_iff)
qed

lemma date_short:
  assumes "t = gmtime (sint (x :: u32))"
  shows "length (fmt_d 2 (tm_mday t) @ fmt_d 2 (tm_mon t + 1) @ fmt_d 2 (tm_year t mod 100) @ '','') \<le> 25"
proof -
  let ?d = "sint x div 86400"
  obtain y m d where ymd: "civil_of_days ?d = (y, m, d)" by (cases "civil_of_days ?d") auto
  have "- (2 ^ 31) \<le> sint x" "sint x < 2 ^ 31"
    using sint_range_size [of x] by (simp_all add: word_size)
  then have "\<bar>?d\<bar> < 10 ^ 6" by (simp add: abs_less_iff) linarith
  from civil_bounds [OF this] ymd have b: "\<bar>m\<bar> < 10 ^ 8" "\<bar>d\<bar> < 10 ^ 8" by simp_all
  have t: "tm_mday t = d" "tm_mon t + 1 = m" "tm_year t = y - 1900"
    using assms ymd by (simp_all add: gmtime_def Let_def)
  have "length (fmt_d 2 d) \<le> 9" "length (fmt_d 2 m) \<le> 9"
    using length_fmt_d [OF b(1), of 2] length_fmt_d [OF b(2), of 2] by simp_all
  moreover have "length (fmt_d 2 ((y - 1900) mod 100)) \<le> 2"
    using length_fmt_d_nonneg [of "(y - 1900) mod 100" 2 2] by simp
  ultimately show ?thesis unfolding t by simp
qed

lemma sv_used_list_bound: "k \<in> set (sv_used_list n i m) \<Longrightarrow> k < n + i"
  by (induction n i m rule: sv_used_list.induct) (auto split: if_splits)

lemma sv_used_list_length: "length (sv_used_list n i m) \<le> n"
  by (induction n i m rule: sv_used_list.induct) auto

lemma gsa_svs_Some:
  "\<forall>k \<in> set used. k < 100 \<Longrightarrow> length b + 3 * n < NMEA_MAX \<Longrightarrow>
   \<exists>t. gsa_svs n used b = Some (b @ t) \<and> length t \<le> 3 * n"
proof (induction n used b rule: gsa_svs.induct)
  case (2 n b)
  then show ?case by (auto simp: app_Some)
next
  case (3 n i used b)
  have "length (fmt_d 2 (int i)) \<le> 2"
    using 3 length_fmt_d_nonneg [of "int i" 2 2] by simp
  then have len: "length (fmt_d 2 (int i) @ '','') \<le> 3" by simp
  then have "app b (fmt_d 2 (int i) @ '','') = Some (b @ fmt_d 2 (int i) @ '','')"
    using 3(3) by (intro app_Some) simp
  moreover obtain t where "gsa_svs n used (b @ fmt_d 2 (int i) @ '','') = Some ((b @ fmt_d 2 (int i) @ '','') @ t)" "length t \<le> 3 * n"
    using "3.IH" [of "b @ fmt_d 2 (int i) @ '',''"] 3(2,3) len calculation by auto
  ultimately show ?case using len by (auto intro!: exI [of _ "fmt_d 2 (int i) @ '','' @ t"])
qed simp

lemma app_unchecked_all: "length b + length t < NMEA_MAX \<Longrightarrow> app_unchecked b t = b @ t"
  by (simp add: app_unchecked_def)

definition sentence_for :: "string \<Rightarrow> string \<Rightarrow> bool" where
  "sentence_for prefix b \<longleftrightarrow> take 6 b = prefix \<and> length b \<le> 190"

lemma gen_gsa_plausible:
  assumes "loc_plausible loc ext s" and "\<forall>k \<in> set used. k < 100"
  shows "\<exists>b. gen_gsa used ext s = Some b \<and> sentence_for ''$GPGSA'' b"
proof -
  define fixType where "fixType = (if length used = 0 then ''1'' else if length used \<le> 3 then ''2'' else ''3'')"
  let ?b = "''$GPGSA,A,'' @ fixType @ '',''"
  have b: "length ?b = 11" "app [] ?b = Some ?b" by (simp_all add: fixType_def app_def NMEA_MAX_def)
  obtain t where t: "gsa_svs 12 used ?b = Some (?b @ t)" "length t \<le> 36"
    using gsa_svs_Some [OF assms(2), of ?b 12] b(1) by (auto simp: NMEA_MAX_def)
  have "app_unchecked (?b @ t) (dop_text ext s) = (?b @ t) @ dop_text ext s"
    using dop_text_short [OF assms(1)] t b(1) by (intro app_unchecked_all) (simp add: NMEA_MAX_def)
  then have "gen_gsa used ext s = Some ((?b @ t) @ dop_text ext s)"
    using b(2) t(1) unfolding gen_gsa_def Let_def fixType_def [symmetric] by simp
  moreover have "sentence_for ''$GPGSA'' ((?b @ t) @ dop_text ext s)"
    using dop_text_short [OF assms(1)] t(2) b(1) by (simp add: sentence_for_def)
  ultimately show ?thesis by blast
qed

lemma loc_lengths:
  assumes "loc_plausible loc ext s"
  shows "length (fmt_f 0 1 (bearing loc)) \<le> 10" "length (fmt_f 0 1 (speed loc * (3600 / 1852))) \<le> 10"
    "length (fmt_f 0 1 (speed loc * (36 / 10))) \<le> 10" "length (fmt_f 0 1 (magneticDeviation ext)) \<le> 10"
    "length (fmt_f 0 1 (- magneticDeviation ext)) \<le> 10" "length (fmt_f 0 1 (hdop ext)) \<le> 10"
    "length (fmt_f 0 1 (c_hdop s)) \<le> 10" "length (fmt_f 0 1 (altitudeMeanSeaLevel ext)) \<le> 10"
    "length (fmt_f 0 1 (altitude loc - altitudeMeanSeaLevel ext)) \<le> 10"
proof -
  have sm: "small (bearing loc)" "small (speed loc * (3600 / 1852))" "small (speed loc * (36 / 10))"
    "small (magneticDeviation ext)" "small (- magneticDeviation ext)" "small (hdop ext)" "small (c_hdop s)"
    "small (altitudeMeanSeaLevel ext)" "small (altitude loc - altitudeMeanSeaLevel ext)"
  proof -
    have sp: "small (10 * speed loc)" using assms by (simp add: loc_plausible_def)
    show "small (speed loc * (3600 / 1852))" by (rule small_mult [OF sp]) simp
    show "small (speed loc * (36 / 10))" by (rule small_mult [OF sp]) simp
  qed (use assms in \<open>simp_all add: loc_plausible_def small_minus\<close>)
  then show "length (fmt_f 0 1 (bearing loc)) \<le> 10" "length (fmt_f 0 1 (speed loc * (3600 / 1852))) \<le> 10"
    "length (fmt_f 0 1 (speed loc * (36 / 10))) \<le> 10" "length (fmt_f 0 1 (magneticDeviation ext)) \<le> 10"
    "length (fmt_f 0 1 (- magneticDeviation ext)) \<le> 10" "length (fmt_f 0 1 (hdop ext)) \<le> 10"
    "length (fmt_f 0 1 (c_hdop s)) \<le> 10" "length (fmt_f 0 1 (altitudeMeanSeaLevel ext)) \<le> 10"
    "length (fmt_f 0 1 (altitude loc - altitudeMeanSeaLevel ext)) \<le> 10"
    by - (rule fmt_f_small, assumption)+
qed

lemma gen_vtg_plausible:
  assumes "loc_plausible loc ext s"
  shows "\<exists>b. gen_vtg loc ext sa = Some b \<and> sentence_for ''$GPVTG'' b"
proof -
  define t1 where "t1 = (if has_bearing loc
    then ''$GPVTG,'' @ fmt_f 0 1 (bearing loc) @ '',T,'' @ fmt_f 0 1 (bearing loc) @ '',M,'' else ''$GPVTG,,T,,M,'')"
  define t2 where "t2 = (if has_speed loc
    then fmt_f 0 1 (speed loc * (3600 / 1852)) @ '',N,'' @ fmt_f 0 1 (speed loc * (36 / 10)) @ '',K,'' else '',N,,K,'')"
  have len: "length t1 \<le> 33" "length t2 \<le> 26"
    using loc_lengths(1-3) [OF assms] by (simp_all add: t1_def t2_def)
  have pre: "take 6 t1 = ''$GPVTG''" "6 \<le> length t1" by (simp_all add: t1_def)
  have m: "length (mode_char loc sa) = 1" by (simp add: mode_char_def)
  have "app [] t1 = Some t1" "app t1 t2 = Some (t1 @ t2)"
    "app_unchecked (t1 @ t2) (mode_char loc sa) = (t1 @ t2) @ mode_char loc sa"
    using len m by (simp_all add: app_def NMEA_MAX_def app_unchecked_all)
  then have "gen_vtg loc ext sa = Some ((t1 @ t2) @ mode_char loc sa)"
    unfolding gen_vtg_def Let_def t1_def t2_def by (cases "has_bearing loc"; cases "has_speed loc"; simp)
  moreover have "sentence_for ''$GPVTG'' ((t1 @ t2) @ mode_char loc sa)"
    using len m pre by (simp add: sentence_for_def)
  ultimately show ?thesis by blast
qed


lemma gen_rmc_plausible:
  assumes "loc_plausible loc ext s" and "t = gmtime (sint (x :: u32))"
  shows "\<exists>b. gen_rmc t loc ext sa = Some b \<and> sentence_for ''$GPRMC'' b"
proof -
  define t1 where "t1 = ''$GPRMC,'' @ time_text t @ '',A,''"
  define t2 where "t2 = (if has_lat_long loc then lat_long_text loc else '',,,,'')"
  define t3 where "t3 = (if has_speed loc then fmt_f 0 1 (speed loc * (3600 / 1852)) @ '','' else '','')"
  define t4 where "t4 = (if has_bearing loc then fmt_f 0 1 (bearing loc) @ '','' else '','')"
  define t5 where "t5 = fmt_d 2 (tm_mday t) @ fmt_d 2 (tm_mon t + 1) @ fmt_d 2 (tm_year t mod 100) @ '',''"
  define t6 where "t6 = (if has_mag_dev ext
    then (if magneticDeviation ext < 0 then fmt_f 0 1 (- magneticDeviation ext) @ '',W,''
          else fmt_f 0 1 (magneticDeviation ext) @ '',E,'') else '',,'')"
  have len: "length t1 \<le> 16" "length t2 \<le> 34" "length t3 \<le> 11" "length t4 \<le> 11" "length t5 \<le> 25" "length t6 \<le> 13"
    using loc_lengths [OF assms(1)] lat_long_short [of loc] date_short [OF assms(2)] time_text_short [of "sint x"]
    by (simp_all add: t1_def t2_def t3_def t4_def t5_def t6_def assms(2))
  have pre: "take 6 t1 = ''$GPRMC''" "6 \<le> length t1" by (simp_all add: t1_def)
  have m: "length (mode_char loc sa) = 1" by (simp add: mode_char_def)
  have "app [] t1 = Some t1" "app t1 t2 = Some (t1 @ t2)" "app (t1 @ t2) t3 = Some ((t1 @ t2) @ t3)"
    "app ((t1 @ t2) @ t3) t4 = Some (((t1 @ t2) @ t3) @ t4)"
    "app (((t1 @ t2) @ t3) @ t4) t5 = Some ((((t1 @ t2) @ t3) @ t4) @ t5)"
    "app ((((t1 @ t2) @ t3) @ t4) @ t5) t6 = Some (((((t1 @ t2) @ t3) @ t4) @ t5) @ t6)"
    "app_unchecked (((((t1 @ t2) @ t3) @ t4) @ t5) @ t6) (mode_char loc sa) = (((((t1 @ t2) @ t3) @ t4) @ t5) @ t6) @ mode_char loc sa"
    by ((rule app_Some app_unchecked_all | subst append_Nil [symmetric], rule app_Some); use len m in \<open>simp add: NMEA_MAX_def\<close>)+
  then have "gen_rmc t loc ext sa = Some ((((((t1 @ t2) @ t3) @ t4) @ t5) @ t6) @ mode_char loc sa)"
    unfolding gen_rmc_def t1_def [symmetric] t2_def [symmetric] t3_def [symmetric] t4_def [symmetric] t5_def [symmetric]
      t6_def [symmetric] by (simp del: append_assoc)
  moreover have "sentence_for ''$GPRMC'' ((((((t1 @ t2) @ t3) @ t4) @ t5) @ t6) @ mode_char loc sa)"
    using len m pre by (simp add: sentence_for_def)
  ultimately show ?thesis by blast
qed

lemma gen_gga_plausible:
  assumes "loc_plausible loc ext s" and "t = gmtime (sint (x :: u32))" and "n < 100"
  shows "\<exists>b. gen_gga t n loc ext sa s = Some b \<and> sentence_for ''$GPGGA'' b"
proof -
  define gpsQuality where "gpsQuality = (if \<not> has_lat_long loc then ''0'' else if sa then ''1'' else ''2'')"
  define t1 where "t1 = ''$GPGGA,'' @ time_text t @ '',''"
  define t2 where "t2 = (if has_lat_long loc then lat_long_text loc else '',,,,'')"
  define t3 where "t3 = gpsQuality @ '','' @ fmt_d 2 (int n) @ '','' @
    (if has_dop ext then fmt_f 0 1 (hdop ext) @ '',''
     else if c_pdop s > 0 \<and> c_hdop s > 0 \<and> c_vdop s > 0 then fmt_f 0 1 (c_hdop s) @ '','' else '','')"
  define t4 where "t4 = (if has_msl ext then fmt_f 0 1 (altitudeMeanSeaLevel ext) @ '',M,'' else '',,'')"
  define t5 where "t5 = (if has_altitude loc \<and> has_msl ext
    then fmt_f 0 1 (altitude loc - altitudeMeanSeaLevel ext) @ '',M,,'' else '',,,'')"
  have "length (fmt_d 2 (int n)) \<le> 2" using length_fmt_d_nonneg [of "int n" 2 2] assms(3) by simp
  then have len: "length t1 \<le> 14" "length t2 \<le> 34" "length t3 \<le> 16" "length t4 \<le> 13" "length t5 \<le> 14"
    using loc_lengths [OF assms(1)] lat_long_short [of loc] time_text_short [of "sint x"]
    by (simp_all add: t1_def t2_def t3_def t4_def t5_def assms(2) gpsQuality_def)
  have pre: "take 6 t1 = ''$GPGGA''" "6 \<le> length t1" by (simp_all add: t1_def)
  have "app [] t1 = Some t1" "app t1 t2 = Some (t1 @ t2)" "app (t1 @ t2) t3 = Some ((t1 @ t2) @ t3)"
    "app ((t1 @ t2) @ t3) t4 = Some (((t1 @ t2) @ t3) @ t4)"
    "app_unchecked (((t1 @ t2) @ t3) @ t4) t5 = (((t1 @ t2) @ t3) @ t4) @ t5"
    by ((rule app_Some app_unchecked_all | subst append_Nil [symmetric], rule app_Some); use len in \<open>simp add: NMEA_MAX_def\<close>)+
  then have "gen_gga t n loc ext sa s = Some ((((t1 @ t2) @ t3) @ t4) @ t5)"
    unfolding gen_gga_def Let_def gpsQuality_def [symmetric] t1_def [symmetric] t2_def [symmetric] t3_def [symmetric]
      t4_def [symmetric] t5_def [symmetric] by (simp del: append_assoc)
  moreover have "sentence_for ''$GPGGA'' ((((t1 @ t2) @ t3) @ t4) @ t5)"
    using len pre by (simp add: sentence_for_def)
  ultimately show ?thesis by blast
qed

section \<open>What the client receives\<close>

definition sealed :: "string \<Rightarrow> string \<times> int" where
  "sealed b = (case put_checksum b NMEA_MAX of (len, sentence) \<Rightarrow> (sentence, len))"

lemma send_sentence_eq: "send_sentence b s = s\<lparr>nmea_sent := nmea_sent s @ [sealed b]\<rparr>"
  by (simp add: send_sentence_def nmea_send_def sealed_def split: prod.split)

lemma fold_send_eq: "fold send_sentence bs s = s\<lparr>nmea_sent := nmea_sent s @ map sealed bs\<rparr>"
  by (induction bs arbitrary: s) (simp_all add: send_sentence_eq)

definition gsv_texts :: "string \<Rightarrow> sv_info list list \<Rightarrow> string list" where
  "gsv_texts hdr chunks =
     (if chunks = [] then [hdr @ '',1,1,0,'']
      else map (\<lambda>j. gsv_header hdr (length chunks) (1 + j) (length (concat chunks)) @ concat (map sat_text (chunks ! j)))
             [0..<length chunks])"

lemma chunks_exist:
  "\<exists>chunks. concat chunks = xs \<and> (\<forall>c \<in> set chunks. c \<noteq> [] \<and> length c \<le> 4) \<and>
     length chunks = (length xs + 3) div 4 \<and> (\<forall>j < length chunks. chunks ! j = gsv_chunk xs j)"
proof -
  let ?cs = "map (gsv_chunk xs) [0..<(length xs + 3) div 4]"
  have "length xs \<le> 4 * ((length xs + 3) div 4)" by presburger
  then have "concat ?cs = xs" by (rule concat_chunks)
  moreover have "gsv_chunk xs j \<noteq> [] \<and> length (gsv_chunk xs j) \<le> 4" if "j < (length xs + 3) div 4" for j
    using that by (simp add: gsv_chunk_def)
  ultimately show ?thesis by (intro exI [of _ ?cs]) auto
qed

lemma gsv_all_texts:
  assumes "length hdr \<le> 6" and "\<forall>sv \<in> set svs. P sv \<longrightarrow> sv_plausible sv" and "length svs < 1000"
  shows "\<exists>chunks. concat chunks = filter P svs \<and> (\<forall>c \<in> set chunks. c \<noteq> [] \<and> length c \<le> 4) \<and>
    (\<forall>s. gsv_all hdr P svs s = (True, fold send_sentence (gsv_texts hdr chunks) s))"
proof -
  obtain chunks where c: "concat chunks = filter P svs" "\<forall>c \<in> set chunks. c \<noteq> [] \<and> length c \<le> 4"
    "length chunks = (length (filter P svs) + 3) div 4" "\<forall>j < length chunks. chunks ! j = gsv_chunk (filter P svs) j"
    using chunks_exist [of "filter P svs"] by blast
  have empty: "chunks = [] \<longleftrightarrow> filter P svs = []"
  proof
    assume "filter P svs = []"
    with c(3) show "chunks = []" by simp
  qed (use c(1) in auto)
  have texts: "map (\<lambda>j. f j @ concat (map sat_text (gsv_chunk (filter P svs) j))) [0..<length chunks] =
      map (\<lambda>j. f j @ concat (map sat_text (chunks ! j))) [0..<length chunks]" for f
    using c(4) by (intro map_cong) simp_all
  have "gsv_all hdr P svs s = (True, fold send_sentence (gsv_texts hdr chunks) s)" for s
    unfolding gsv_all_eq [OF assms] gsv_texts_def empty c(1) c(3) [symmetric] texts ..
  with c(1,2) show ?thesis by blast
qed

text \<open>C34: Every sentence handed to the client, by any mix of position and satellite reports, fits the
  buffer of 200 bytes with its terminator, and whenever the reported length is at most 198 it starts with
  a dollar sign and ends with an asterisk, the checksum of everything between them in two hexadecimal
  digits, and a line end. The reported length is then one short of the sentence, the dollar sign not
  being counted.\<close>

theorem nmea_checksums_valid:
  assumes "\<forall>e \<in> set (nmea_sent s). entry_ok e"
  shows "(\<forall>e \<in> set (nmea_sent (nmea_generate_pos loc ext gen sa s)). entry_ok e) \<and>
    (\<forall>e \<in> set (nmea_sent (nmea_generate_sv svs m ext s)). entry_ok e)"
  using assms nmea_inv_pos [of s] nmea_inv_sv [of s] unfolding nmea_inv_def by blast

lemma nmea_checksums_valid_witness:
  "list_all entry_ok (nmea_sent (nmea_generate_sv [\<lparr>prn = 3, elevation = 40, azimuth = 100, snr = 30\<rparr>] 4
      \<lparr>has_dop = False, has_msl = False, has_mag_dev = False, altitudeMeanSeaLevel = 0, pdop = 0, hdop = 0,
       vdop = 0, magneticDeviation = 0\<rparr>
      \<lparr>sv_used_mask = 0, c_pdop = 0, c_hdop = 0, c_vdop = 0, nmea_sent = []\<rparr>))"
  unfolding list_all_iff by (rule nmea_checksums_valid [THEN conjunct2]) simp

text \<open>C33: A satellite report is complete: for each of the two constellations the sentences carry every
  satellite of it exactly once, in the order of the report, in sentences of one to four satellites
  numbered from 1 to their count, which every one of them states with the number of satellites; an empty
  constellation is reported by one sentence. The mask of used satellites and the dilutions of precision
  are then cached for the next position report.\<close>

theorem nmea_gsv_complete:
  assumes "\<forall>sv \<in> set svs. is_gps sv \<or> is_gln sv \<longrightarrow> sv_plausible sv" and "length svs < 1000"
  shows "\<exists>gps gln. concat gps = filter is_gps svs \<and> concat gln = filter is_gln svs \<and>
    (\<forall>c \<in> set (gps @ gln). c \<noteq> [] \<and> length c \<le> 4) \<and>
    nmea_generate_sv svs m ext s =
      s\<lparr>nmea_sent := nmea_sent s @ map sealed (gsv_texts ''$GPGSV'' gps @ gsv_texts ''$GLGSV'' gln),
        sv_used_mask := m, c_pdop := (if has_dop ext then pdop ext else 0),
        c_hdop := (if has_dop ext then hdop ext else 0), c_vdop := (if has_dop ext then vdop ext else 0)\<rparr>"
proof -
  obtain gps where gps: "concat gps = filter is_gps svs" "\<forall>c \<in> set gps. c \<noteq> [] \<and> length c \<le> 4"
    "\<forall>s. gsv_all ''$GPGSV'' is_gps svs s = (True, fold send_sentence (gsv_texts ''$GPGSV'' gps) s)"
    using gsv_all_texts [of "''$GPGSV''" svs is_gps] assms by auto
  obtain gln where gln: "concat gln = filter is_gln svs" "\<forall>c \<in> set gln. c \<noteq> [] \<and> length c \<le> 4"
    "\<forall>s. gsv_all ''$GLGSV'' is_gln svs s = (True, fold send_sentence (gsv_texts ''$GLGSV'' gln) s)"
    using gsv_all_texts [of "''$GLGSV''" svs is_gln] assms by auto
  have all: "gsv_all ''$GPGSV'' is_gps svs s = (True, s\<lparr>nmea_sent := nmea_sent s @ map sealed (gsv_texts ''$GPGSV'' gps)\<rparr>)"
    "gsv_all ''$GLGSV'' is_gln svs t = (True, t\<lparr>nmea_sent := nmea_sent t @ map sealed (gsv_texts ''$GLGSV'' gln)\<rparr>)" for t
    using gps(3) gln(3) by (simp_all only: fold_send_eq)
  have "nmea_generate_sv svs m ext s =
      s\<lparr>nmea_sent := nmea_sent s @ map sealed (gsv_texts ''$GPGSV'' gps @ gsv_texts ''$GLGSV'' gln),
        sv_used_mask := m, c_pdop := (if has_dop ext then pdop ext else 0),
        c_hdop := (if has_dop ext then hdop ext else 0), c_vdop := (if has_dop ext then vdop ext else 0)\<rparr>"
    unfolding nmea_generate_sv_def all Let_def by simp
  moreover have "\<forall>c \<in> set (gps @ gln). c \<noteq> [] \<and> length c \<le> 4"
    using gps(2) gln(2) by (simp add: ball_Un)
  ultimately show ?thesis
    using gps(1) gln(1) by (intro exI [of _ gps] exI [of _ gln] conjI)
qed

lemma nmea_gsv_complete_witness:
  "sv_used_mask (nmea_generate_sv [\<lparr>prn = 3, elevation = 40, azimuth = 100, snr = 30\<rparr>] 4
      \<lparr>has_dop = False, has_msl = False, has_mag_dev = False, altitudeMeanSeaLevel = 0, pdop = 0, hdop = 0,
       vdop = 0, magneticDeviation = 0\<rparr>
      \<lparr>sv_used_mask = 0, c_pdop = 0, c_hdop = 0, c_vdop = 0, nmea_sent = []\<rparr>) = 4"
  (is "_ (nmea_generate_sv ?svs 4 ?ext ?s) = _")
proof -
  have "\<forall>sv \<in> set ?svs. is_gps sv \<or> is_gln sv \<longrightarrow> sv_plausible sv" and "length ?svs < 1000"
    by (simp_all add: sv_plausible_def)
  from nmea_gsv_complete [OF this, of 4 ?ext ?s] show ?thesis by (elim exE conjE) simp
qed

lemma sealed_ok:
  assumes "ok_buf b" and "length b \<le> 190"
  shows "nmea_check (fst (sealed b))"
proof -
  have "snd (sealed b) \<le> 198" using assms(2) by (simp add: sealed_def put_checksum_def Let_def)
  with entry_ok_put_checksum [OF assms(1)] show ?thesis
    by (auto simp: sealed_def entry_ok_def split: prod.splits)
qed

text \<open>For a report whose quantities are below a million, none of the formatting checks fires:
  the client gets exactly one GSA, one VTG, one RMC and one GGA sentence, each of at most 196
  characters and with a valid checksum, and the cached satellite mask and dilutions of precision
  are cleared.\<close>

theorem nmea_pos_four_sentences:
  assumes "loc_plausible loc ext s"
  shows "\<exists>gsa vtg rmc gga.
    nmea_generate_pos loc ext True sa s = s\<lparr>sv_used_mask := 0, c_pdop := 0, c_hdop := 0, c_vdop := 0,
      nmea_sent := nmea_sent s @ map sealed [gsa, vtg, rmc, gga]\<rparr> \<and>
    take 6 gsa = ''$GPGSA'' \<and> take 6 vtg = ''$GPVTG'' \<and> take 6 rmc = ''$GPRMC'' \<and> take 6 gga = ''$GPGGA'' \<and>
    (\<forall>b \<in> {gsa, vtg, rmc, gga}. length b \<le> 190 \<and> nmea_check (fst (sealed b)))"
proof -
  let ?t = "gmtime (sint (word_of_int (c_div (timestamp loc) 1000) :: u32))"
  let ?used = "sv_used_list 32 1 (sv_used_mask s)"
  have cong: "loc_plausible loc ext (s\<lparr>sv_used_mask := 0, nmea_sent := e\<rparr>)" for e
    using assms(1) by (simp add: loc_plausible_def)
  have used: "\<forall>k \<in> set ?used. k < 100" "length ?used < 100"
    using sv_used_list_bound [of _ 32 1 "sv_used_mask s"] sv_used_list_length [of 32 1 "sv_used_mask s"]
    by fastforce+
  obtain a where a: "gen_gsa ?used ext (s\<lparr>sv_used_mask := 0\<rparr>) = Some a" "sentence_for ''$GPGSA'' a"
    using gen_gsa_plausible [OF cong [of "nmea_sent s"] used(1)] by auto
  obtain b where b: "gen_vtg loc ext sa = Some b" "sentence_for ''$GPVTG'' b"
    using gen_vtg_plausible [OF assms(1)] by blast
  obtain c where c: "gen_rmc ?t loc ext sa = Some c" "sentence_for ''$GPRMC'' c"
    using gen_rmc_plausible [OF assms(1) refl] by blast
  let ?s3 = "s\<lparr>sv_used_mask := 0, nmea_sent := nmea_sent s @ map sealed [a, b, c]\<rparr>"
  obtain d where d: "gen_gga ?t (length ?used) loc ext sa ?s3 = Some d" "sentence_for ''$GPGGA'' d"
    using gen_gga_plausible [OF cong refl used(2)] by blast
  have eq: "nmea_generate_pos loc ext True sa s = s\<lparr>sv_used_mask := 0, c_pdop := 0, c_hdop := 0, c_vdop := 0,
      nmea_sent := nmea_sent s @ map sealed [a, b, c, d]\<rparr>"
    using a(1) b(1) c(1) d(1) unfolding nmea_generate_pos_def Let_def
    by (simp add: send_sentence_eq)
  have "\<forall>x \<in> {a, b, c, d}. length x \<le> 190 \<and> nmea_check (fst (sealed x))"
    using a b c d ok_gen_gsa [OF a(1)] ok_gen_vtg [OF b(1)] ok_gen_rmc [OF c(1)] ok_gen_gga [OF d(1)]
    by (simp add: sentence_for_def sealed_ok)
  with eq show ?thesis
    using a(2) b(2) c(2) d(2) unfolding sentence_for_def by blast
qed

lemma nmea_pos_four_sentences_witness:
  "sv_used_mask (nmea_generate_pos
      \<lparr>has_lat_long = True, has_altitude = True, has_speed = True, has_bearing = True, latitude = 48, longitude = - 11,
       altitude = 500, speed = 3, bearing = 90, timestamp = 1400000000000\<rparr>
      \<lparr>has_dop = True, has_msl = True, has_mag_dev = True, altitudeMeanSeaLevel = 450, pdop = 2, hdop = 1,
       vdop = 1, magneticDeviation = 3\<rparr> True True
      \<lparr>sv_used_mask = 5, c_pdop = 0, c_hdop = 0, c_vdop = 0, nmea_sent = []\<rparr>) = 0"
  (is "_ (nmea_generate_pos ?loc ?ext True True ?s) = _")
proof -
  have "loc_plausible ?loc ?ext ?s" by (simp add: loc_plausible_def small_def)
  from nmea_pos_four_sentences [OF this, of True] show ?thesis by (elim exE conjE) simp
qed

end
