(* ===== verification/Gps_Types.thy ===== *)
theory Gps_Types
  imports Nmea
begin

text \<open>
  The vocabulary of \<^verbatim>\<open>gps_extended.h\<close> and \<^verbatim>\<open>gps_extended_c.h\<close> that the layers above the modem
  interface share: statuses, position modes, reports, notifications and event masks.  Pointers are
  numbers (\<open>None\<close> for NULL); text fields that are only logged are left out.
\<close>

section \<open>Statuses\<close>

datatype GpsStatusValue =
  GPS_STATUS_NONE | GPS_STATUS_SESSION_BEGIN | GPS_STATUS_SESSION_END | GPS_STATUS_ENGINE_ON | GPS_STATUS_ENGINE_OFF

datatype loc_sess_status = LOC_SESS_SUCCESS | LOC_SESS_INTERMEDIATE | LOC_SESS_FAILURE

text \<open>The results of calls into the modem interface, by their numbers.\<close>

definition LOC_API_ADAPTER_ERR_SUCCESS :: int where "LOC_API_ADAPTER_ERR_SUCCESS = 0"
definition LOC_API_ADAPTER_ERR_PHONE_OFFLINE :: int where "LOC_API_ADAPTER_ERR_PHONE_OFFLINE = 7"
definition LOC_API_ADAPTER_ERR_ENGINE_DOWN :: int where "LOC_API_ADAPTER_ERR_ENGINE_DOWN = LOC_API_ADAPTER_ERR_PHONE_OFFLINE"
definition LOC_API_ADAPTER_ERR_INTERNAL :: int where "LOC_API_ADAPTER_ERR_INTERNAL = 10"

lemmas err_defs = LOC_API_ADAPTER_ERR_SUCCESS_def LOC_API_ADAPTER_ERR_PHONE_OFFLINE_def
  LOC_API_ADAPTER_ERR_ENGINE_DOWN_def LOC_API_ADAPTER_ERR_INTERNAL_def

section \<open>Position modes\<close>

datatype LocPositionMode =
  LOC_POSITION_MODE_INVALID | LOC_POSITION_MODE_STANDALONE | LOC_POSITION_MODE_MS_BASED
| LOC_POSITION_MODE_MS_ASSISTED | LOC_POSITION_MODE_RESERVED nat

datatype recurrence = GPS_POSITION_RECURRENCE_PERIODIC | GPS_POSITION_RECURRENCE_SINGLE

record LocPosMode =
  pm_mode :: LocPositionMode
  pm_recurrence :: recurrence
  pm_min_interval :: u32
  pm_preferred_accuracy :: u32
  pm_preferred_time :: u32

definition MIN_POSSIBLE_FIX_INTERVAL :: u32 where
  "MIN_POSSIBLE_FIX_INTERVAL = 1000"

text \<open>The two constructors; credentials and provider are not modelled.\<close>

definition LocPosMode_new :: "LocPositionMode \<Rightarrow> recurrence \<Rightarrow> u32 \<Rightarrow> u32 \<Rightarrow> u32 \<Rightarrow> LocPosMode" where
  "LocPosMode_new m recr gap accu time =
     \<lparr>pm_mode = m, pm_recurrence = recr,
      pm_min_interval = (if gap < MIN_POSSIBLE_FIX_INTERVAL then MIN_POSSIBLE_FIX_INTERVAL else gap),
      pm_preferred_accuracy = accu, pm_preferred_time = time\<rparr>"

definition LocPosMode_default :: LocPosMode where
  "LocPosMode_default =
     \<lparr>pm_mode = LOC_POSITION_MODE_MS_BASED, pm_recurrence = GPS_POSITION_RECURRENCE_PERIODIC,
      pm_min_interval = MIN_POSSIBLE_FIX_INTERVAL, pm_preferred_accuracy = 50, pm_preferred_time = 120000\<rparr>"

section \<open>Reports\<close>

record ulp_location = gps_location +
  has_accuracy :: bool
  accuracy :: rat
  position_source :: u32
  rawData :: "nat option"

definition LOC_POS_TECH_MASK_SATELLITE :: u32 where "LOC_POS_TECH_MASK_SATELLITE = 0x01"
definition LOC_POS_TECH_MASK_SENSORS :: u32 where "LOC_POS_TECH_MASK_SENSORS = 0x08"
definition LOC_POS_TECH_MASK_HYBRID :: u32 where "LOC_POS_TECH_MASK_HYBRID = 0x80"

lemmas tech_defs = LOC_POS_TECH_MASK_SATELLITE_def LOC_POS_TECH_MASK_SENSORS_def LOC_POS_TECH_MASK_HYBRID_def

record sv_status =
  sv_list :: "sv_info list"
  gps_used_in_fix_mask :: u32

section \<open>Network-initiated requests\<close>

text \<open>\<open>GPS_NI_RESPONSE_UNSET\<close> is the zero that a session holds before its first response.\<close>

datatype GpsUserResponse =
  GPS_NI_RESPONSE_UNSET | GPS_NI_RESPONSE_ACCEPT | GPS_NI_RESPONSE_DENY | GPS_NI_RESPONSE_NORESP | GPS_NI_RESPONSE_IGNORE

record GpsNiNotification =
  notification_id :: u32
  ni_type :: int
  notify_flags :: u32
  ni_timeout :: int

definition GPS_NI_TYPE_EMERGENCY_SUPL :: int where "GPS_NI_TYPE_EMERGENCY_SUPL = 4"
definition GPS_NI_PRIVACY_OVERRIDE :: u32 where "GPS_NI_PRIVACY_OVERRIDE = 4"
definition LOC_NI_NO_RESPONSE_TIME :: int where "LOC_NI_NO_RESPONSE_TIME = 20"

text \<open>Muting of one session.\<close>

datatype loc_mute_session = LOC_MUTE_SESS_NONE | LOC_MUTE_SESS_WAIT | LOC_MUTE_SESS_IN_SESSION

section \<open>Event masks\<close>

type_synonym event_mask = u32

definition LOC_API_ADAPTER_BIT_NMEA_1HZ_REPORT :: event_mask where
  "LOC_API_ADAPTER_BIT_NMEA_1HZ_REPORT = push_bit 2 1"

definition LOC_API_ADAPTER_BIT_GNSS_MEASUREMENT :: event_mask where
  "LOC_API_ADAPTER_BIT_GNSS_MEASUREMENT = push_bit 24 1"

datatype loc_registration_mask_status = LOC_REGISTRATION_MASK_ENABLED | LOC_REGISTRATION_MASK_DISABLED

end
