(* ===== verification/Loc_Api.thy ===== *)
theory Loc_Api
  imports Gps_Types
begin

text \<open>
  \<^verbatim>\<open>LocApiBase.cpp\<close>: the modem interface keeps an array of ten adapter pointers, without holes,
  broadcasts the modem's reports to all of them and hands its requests to the first that handles
  them.  What an adapter does with a call is a parameter (its virtual methods); the adapters of the
  engine are modelled in theory Eng_Adapter.  The decoding helpers of the file are at the end.
\<close>

section \<open>State\<close>

definition MAX_ADAPTERS :: nat where
  "MAX_ADAPTERS = 10"

text \<open>Messages posted to the message task, and the virtual \<open>open\<close> and \<open>close\<close> of the concrete interface.\<close>

datatype loc_api_msg = LocOpenMsg event_mask | LocSsrMsg

datatype loc_api_call = ApiOpen event_mask | ApiClose

record loc_api =
  mLocAdapters :: "nat option list"
  mExcludedMask :: event_mask
  mSupportedMsg :: "64 word"
  api_msgs :: "loc_api_msg list"
  api_calls :: "loc_api_call list"

definition LocApiBase_new :: "event_mask \<Rightarrow> loc_api" where
  "LocApiBase_new excludedMask =
     \<lparr>mLocAdapters = replicate MAX_ADAPTERS None, mExcludedMask = excludedMask, mSupportedMsg = 0,
      api_msgs = [], api_calls = []\<rparr>"

definition api_send :: "loc_api_msg \<Rightarrow> loc_api \<Rightarrow> loc_api" where
  "api_send m api = api\<lparr>api_msgs := api_msgs api @ [m]\<rparr>"

definition call_api :: "loc_api_call \<Rightarrow> loc_api \<Rightarrow> loc_api" where
  "call_api c api = api\<lparr>api_calls := api_calls api @ [c]\<rparr>"

section \<open>Dispatch\<close>

text \<open>
  The macros \<^verbatim>\<open>TO_ALL_ADAPTERS\<close> and \<^verbatim>\<open>TO_1ST_HANDLING_ADAPTER\<close>: from the first slot up to the
  first NULL, and for requests only until an adapter returns true.
\<close>

fun to_all_adapters :: "(nat \<Rightarrow> 'w \<Rightarrow> 'w) \<Rightarrow> nat option list \<Rightarrow> 'w \<Rightarrow> 'w" where
  "to_all_adapters call (Some a # slots) w = to_all_adapters call slots (call a w)"
| "to_all_adapters call _ w = w"

fun to_1st_handling_adapter :: "(nat \<Rightarrow> 'w \<Rightarrow> bool \<times> 'w) \<Rightarrow> nat option list \<Rightarrow> 'w \<Rightarrow> 'w" where
  "to_1st_handling_adapter call (Some a # slots) w =
     (case call a w of (handled, w1) \<Rightarrow> if handled then w1 else to_1st_handling_adapter call slots w1)"
| "to_1st_handling_adapter call _ w = w"

definition getEvtMask :: "(nat \<Rightarrow> event_mask) \<Rightarrow> loc_api \<Rightarrow> event_mask" where
  "getEvtMask masks api =
     to_all_adapters (\<lambda>a m. m OR masks a) (mLocAdapters api) 0 AND NOT (mExcludedMask api)"

fun in_session_loop :: "(nat \<Rightarrow> bool) \<Rightarrow> nat option list \<Rightarrow> bool \<Rightarrow> bool" where
  "in_session_loop sess (Some a # slots) inSession =
     (if \<not> inSession then in_session_loop sess slots (sess a) else inSession)"
| "in_session_loop sess _ inSession = inSession"

definition api_isInSession :: "(nat \<Rightarrow> bool) \<Rightarrow> loc_api \<Rightarrow> bool" where
  "api_isInSession sess api = in_session_loop sess (mLocAdapters api) False"

section \<open>Registration\<close>

function add_loop :: "(nat \<Rightarrow> event_mask) \<Rightarrow> nat \<Rightarrow> nat \<Rightarrow> loc_api \<Rightarrow> loc_api" where
  "add_loop masks adapter i api =
     (if i < MAX_ADAPTERS \<and> mLocAdapters api ! i \<noteq> Some adapter then
        (if mLocAdapters api ! i = None
         then api_send (LocOpenMsg (masks adapter)) (api\<lparr>mLocAdapters := (mLocAdapters api)[i := Some adapter]\<rparr>)
         else add_loop masks adapter (i + 1) api)
      else api)"
  by pat_completeness auto
termination
  by (relation "measure (\<lambda>(masks, adapter, i, api). MAX_ADAPTERS - i)") auto

definition addAdapter :: "(nat \<Rightarrow> event_mask) \<Rightarrow> nat \<Rightarrow> loc_api \<Rightarrow> loc_api" where
  "addAdapter masks adapter api = add_loop masks adapter 0 api"

text \<open>The inner \<open>while\<close> of \<open>removeAdapter\<close>: the first index from \<open>i\<close> on that is the end or NULL.\<close>

function skip_adapters :: "nat option list \<Rightarrow> nat \<Rightarrow> nat" where
  "skip_adapters slots i = (if i < MAX_ADAPTERS \<and> slots ! i \<noteq> None then skip_adapters slots (i + 1) else i)"
  by pat_completeness auto
termination
  by (relation "measure (\<lambda>(slots, i). MAX_ADAPTERS - i)") auto

declare add_loop.simps [simp del] skip_adapters.simps [simp del]

lemma skip_adapters_ge: "i \<le> skip_adapters slots i"
  by (induction slots i rule: skip_adapters.induct) (subst skip_adapters.simps, auto)

lemma skip_adapters_gt [simp]: "i \<le> skip_adapters slots (Suc i) - Suc 0"
  using skip_adapters_ge [of "Suc i" slots] by linarith

function remove_loop :: "(nat \<Rightarrow> event_mask) \<Rightarrow> nat \<Rightarrow> nat \<Rightarrow> loc_api \<Rightarrow> loc_api" where
  "remove_loop masks adapter i api =
     (if i < MAX_ADAPTERS \<and> mLocAdapters api ! i \<noteq> None then
        (if mLocAdapters api ! i = Some adapter then
           (let slots = (mLocAdapters api)[i := None];
                j = i;
                last = skip_adapters slots (i + 1) - 1;
                slots = slots[j := slots ! last];
                api1 = api\<lparr>mLocAdapters := slots[last := None]\<rparr>;
                api2 = (if last = 0 then call_api ApiClose api1
                        else api_send (LocOpenMsg (getEvtMask masks api1)) api1)
            in remove_loop masks adapter (last + 1) api2)
         else remove_loop masks adapter (i + 1) api)
      else api)"
  by pat_completeness auto
termination
  by (relation "measure (\<lambda>(masks, adapter, i, api). MAX_ADAPTERS - i)")
    (auto intro!: diff_less_mono2 simp: less_Suc_eq_le)

declare remove_loop.simps [simp del]

definition removeAdapter :: "(nat \<Rightarrow> event_mask) \<Rightarrow> nat \<Rightarrow> loc_api \<Rightarrow> loc_api" where
  "removeAdapter masks adapter api = remove_loop masks adapter 0 api"

definition updateEvtMask :: "(nat \<Rightarrow> event_mask) \<Rightarrow> loc_api \<Rightarrow> loc_api" where
  "updateEvtMask masks api = api_send (LocOpenMsg (getEvtMask masks api)) api"

definition saveSupportedMsgList :: "64 word \<Rightarrow> loc_api \<Rightarrow> loc_api" where
  "saveSupportedMsgList supportedMsgList api = api\<lparr>mSupportedMsg := supportedMsgList\<rparr>"

text \<open>\<open>proc\<close> of the two messages.\<close>

fun loc_api_proc :: "(nat \<Rightarrow> event_mask) \<Rightarrow> loc_api_msg \<Rightarrow> loc_api \<Rightarrow> loc_api" where
  "loc_api_proc masks LocSsrMsg api = call_api (ApiOpen (getEvtMask masks api)) (call_api ApiClose api)"
| "loc_api_proc masks (LocOpenMsg m) api = call_api (ApiOpen m) api"

section \<open>Calls from the modem\<close>

text \<open>The virtual methods of \<^verbatim>\<open>LocAdapterBase\<close> that the modem interface calls, with their arguments.\<close>

datatype up_call =
  handleEngineUpEvent
| handleEngineDownEvent
| reportPosition ulp_location location_extended loc_sess_status u32
| reportSv sv_status location_extended
| reportStatus GpsStatusValue
| reportNmea string
| reportXtraServer string string string nat
| requestXtraData
| requestTime
| requestLocation
| requestATL u32 int
| releaseATL u32
| requestSuplES u32
| reportDataCallOpened
| reportDataCallClosed
| requestNiNotify GpsNiNotification "nat option"
| reportGpsMeasurementData nat

text \<open>
  One equation per method of \<^verbatim>\<open>LocApiBase\<close>: \<open>vcall\<close> is the virtual call of an adapter, \<open>post\<close> the
  message queue (the engine-up event posts a message before the broadcast).
\<close>

fun api_upcall :: "(nat \<Rightarrow> up_call \<Rightarrow> 'w \<Rightarrow> bool \<times> 'w) \<Rightarrow> (loc_api_msg \<Rightarrow> 'w \<Rightarrow> 'w) \<Rightarrow> loc_api \<Rightarrow> up_call \<Rightarrow> 'w \<Rightarrow> 'w" where
  "api_upcall vcall post api handleEngineUpEvent w =
     to_all_adapters (\<lambda>a w. snd (vcall a handleEngineUpEvent w)) (mLocAdapters api) (post LocSsrMsg w)"
| "api_upcall vcall post api handleEngineDownEvent w =
     to_all_adapters (\<lambda>a w. snd (vcall a handleEngineDownEvent w)) (mLocAdapters api) w"
| "api_upcall vcall post api (reportPosition loc ext st tech) w =
     to_all_adapters (\<lambda>a w. snd (vcall a (reportPosition loc ext st tech) w)) (mLocAdapters api) w"
| "api_upcall vcall post api (reportSv sv ext) w =
     to_all_adapters (\<lambda>a w. snd (vcall a (reportSv sv ext) w)) (mLocAdapters api) w"
| "api_upcall vcall post api (reportStatus st) w =
     to_all_adapters (\<lambda>a w. snd (vcall a (reportStatus st) w)) (mLocAdapters api) w"
| "api_upcall vcall post api (reportNmea nmea) w =
     to_all_adapters (\<lambda>a w. snd (vcall a (reportNmea nmea) w)) (mLocAdapters api) w"
| "api_upcall vcall post api (reportXtraServer u1 u2 u3 maxlength) w =
     to_1st_handling_adapter (\<lambda>a w. vcall a (reportXtraServer u1 u2 u3 maxlength) w) (mLocAdapters api) w"
| "api_upcall vcall post api requestXtraData w =
     to_1st_handling_adapter (\<lambda>a w. vcall a requestXtraData w) (mLocAdapters api) w"
| "api_upcall vcall post api requestTime w =
     to_1st_handling_adapter (\<lambda>a w. vcall a requestTime w) (mLocAdapters api) w"
| "api_upcall vcall post api requestLocation w =
     to_1st_handling_adapter (\<lambda>a w. vcall a requestLocation w) (mLocAdapters api) w"
| "api_upcall vcall post api (requestATL connHandle agps_type) w =
     to_1st_handling_adapter (\<lambda>a w. vcall a (requestATL connHandle agps_type) w) (mLocAdapters api) w"
| "api_upcall vcall post api (releaseATL connHandle) w =
     to_1st_handling_adapter (\<lambda>a w. vcall a (releaseATL connHandle) w) (mLocAdapters api) w"
| "api_upcall vcall post api (requestSuplES connHandle) w =
     to_1st_handling_adapter (\<lambda>a w. vcall a (requestSuplES connHandle) w) (mLocAdapters api) w"
| "api_upcall vcall post api reportDataCallOpened w =
     to_1st_handling_adapter (\<lambda>a w. vcall a reportDataCallOpened w) (mLocAdapters api) w"
| "api_upcall vcall post api reportDataCallClosed w =
     to_1st_handling_adapter (\<lambda>a w. vcall a reportDataCallClosed w) (mLocAdapters api) w"
| "api_upcall vcall post api (requestNiNotify notif data) w =
     to_1st_handling_adapter (\<lambda>a w. vcall a (requestNiNotify notif data) w) (mLocAdapters api) w"
| "api_upcall vcall post api (reportGpsMeasurementData d) w =
     to_all_adapters (\<lambda>a w. snd (vcall a (reportGpsMeasurementData d) w)) (mLocAdapters api) w"

fun is_broadcast :: "up_call \<Rightarrow> bool" where
  "is_broadcast handleEngineUpEvent = True"
| "is_broadcast handleEngineDownEvent = True"
| "is_broadcast (reportPosition _ _ _ _) = True"
| "is_broadcast (reportSv _ _) = True"
| "is_broadcast (reportStatus _) = True"
| "is_broadcast (reportNmea _) = True"
| "is_broadcast (reportGpsMeasurementData _) = True"
| "is_broadcast _ = False"

section \<open>The array as a list without holes\<close>

definition slots_of :: "nat list \<Rightarrow> nat option list" where
  "slots_of as = map Some as @ replicate (MAX_ADAPTERS - length as) None"

definition adapters_of :: "loc_api \<Rightarrow> nat list" where
  "adapters_of api = map the (takeWhile (\<lambda>s. s \<noteq> None) (mLocAdapters api))"

definition api_ok :: "loc_api \<Rightarrow> bool" where
  "api_ok api \<longleftrightarrow> mLocAdapters api = slots_of (adapters_of api) \<and> length (adapters_of api) \<le> MAX_ADAPTERS \<and>
     distinct (adapters_of api)"

lemma adapters_slots_of: "map the (takeWhile (\<lambda>s. s \<noteq> None) (slots_of as)) = as"
proof -
  have "takeWhile (\<lambda>s. s \<noteq> None) (slots_of as) = map Some as"
    unfolding slots_of_def by (subst takeWhile_append2) (auto simp: takeWhile_replicate)
  then show ?thesis by (simp only: map_map comp_def option.sel map_ident)
qed

lemma adapters_of_slots: "mLocAdapters api = slots_of as \<Longrightarrow> adapters_of api = as"
  by (simp only: adapters_of_def adapters_slots_of)

lemma adapters_of_upd [simp]:
  "adapters_of (api_send m api) = adapters_of api" "adapters_of (call_api c api) = adapters_of api"
  "mLocAdapters (api_send m api) = mLocAdapters api" "mLocAdapters (call_api c api) = mLocAdapters api"
  "api_ok (api_send m api) = api_ok api" "api_ok (call_api c api) = api_ok api"
  by (simp_all add: adapters_of_def api_send_def call_api_def api_ok_def)

lemma length_slots_of [simp]: "length as \<le> MAX_ADAPTERS \<Longrightarrow> length (slots_of as) = MAX_ADAPTERS"
  by (simp add: slots_of_def)

lemma nth_slots_of: "i < MAX_ADAPTERS \<Longrightarrow> slots_of as ! i = (if i < length as then Some (as ! i) else None)"
  by (simp add: slots_of_def nth_append)

lemma slots_of_snoc: "length as < MAX_ADAPTERS \<Longrightarrow> (slots_of as)[length as := Some a] = slots_of (as @ [a])"
  by (intro nth_equalityI) (auto simp: slots_of_def nth_append nth_list_update)

lemma slots_of_remove:
  assumes "j < length as" and "length as \<le> MAX_ADAPTERS"
  shows "((slots_of as)[j := None])[j := (slots_of as)[j := None] ! (length as - 1), length as - 1 := None] =
    slots_of (butlast (as[j := last as]))"
proof -
  have "as \<noteq> []" using assms by auto
  with assms show ?thesis
    by (intro nth_equalityI)
      (auto simp: slots_of_def nth_append nth_list_update nth_butlast last_conv_nth)
qed

lemma to_all_slots: "to_all_adapters call (slots_of as) w = fold call as w"
proof -
  have "to_all_adapters call (map Some as @ replicate n None) w = fold call as w" for n
    by (induction as arbitrary: w) (cases n; simp)+
  then show ?thesis by (simp add: slots_of_def)
qed

text \<open>A request goes to the adapters in order, up to the first that handles it.\<close>

fun first_handling :: "(nat \<Rightarrow> 'w \<Rightarrow> bool \<times> 'w) \<Rightarrow> nat list \<Rightarrow> 'w \<Rightarrow> 'w" where
  "first_handling call [] w = w"
| "first_handling call (a # as) w =
     (if fst (call a w) then snd (call a w) else first_handling call as (snd (call a w)))"

lemma to_1st_slots: "to_1st_handling_adapter call (slots_of as) w = first_handling call as w"
proof -
  have "to_1st_handling_adapter call (map Some as @ replicate n None) w = first_handling call as w" for n
    by (induction as arbitrary: w) (cases n; simp split: prod.split)+
  then show ?thesis by (simp add: slots_of_def)
qed

lemma add_loop_slots:
  assumes "mLocAdapters api = slots_of as" and "length as \<le> MAX_ADAPTERS"
  shows "i \<le> length as \<Longrightarrow> a \<notin> set (take i as) \<Longrightarrow>
    add_loop masks a i api = (if a \<in> set as \<or> length as = MAX_ADAPTERS then api
      else api_send (LocOpenMsg (masks a)) (api\<lparr>mLocAdapters := slots_of (as @ [a])\<rparr>))"
proof (induction "length as - i" arbitrary: i)
  case 0
  then have "i = length as" by simp
  then show ?case
    using 0 assms by (subst add_loop.simps) (auto simp: nth_slots_of slots_of_snoc)
next
  case (Suc n)
  then have i: "i < length as" by linarith
  show ?case
  proof (cases "as ! i = a")
    case True
    then show ?thesis using i assms by (subst add_loop.simps) (auto simp: nth_slots_of)
  next
    case False
    have "a \<notin> set (take (i + 1) as)" using Suc.prems False i by (simp add: take_Suc_conv_app_nth)
    then have "add_loop masks a (i + 1) api = (if a \<in> set as \<or> length as = MAX_ADAPTERS then api
      else api_send (LocOpenMsg (masks a)) (api\<lparr>mLocAdapters := slots_of (as @ [a])\<rparr>))"
      using Suc i by (intro Suc.hyps) simp_all
    then show ?thesis using i assms False by (subst add_loop.simps) (simp add: nth_slots_of)
  qed
qed

lemma skip_slots:
  assumes "length as \<le> MAX_ADAPTERS"
  shows "j < i \<Longrightarrow> i \<le> length as \<Longrightarrow> skip_adapters ((slots_of as)[j := None]) i = length as"
proof (induction "length as - i" arbitrary: i)
  case 0
  then show ?case using assms by (subst skip_adapters.simps) (auto simp: nth_slots_of)
next
  case (Suc n)
  then have "skip_adapters ((slots_of as)[j := None]) (i + 1) = length as" by (intro Suc.hyps) simp_all
  moreover have "i < length as" using Suc by linarith
  ultimately show ?case using Suc assms by (subst skip_adapters.simps) (simp add: nth_slots_of)
qed

text \<open>What \<open>removeAdapter\<close> tells the interface: close it, or ask for the remaining events.\<close>

definition after_remove :: "(nat \<Rightarrow> event_mask) \<Rightarrow> nat list \<Rightarrow> loc_api \<Rightarrow> loc_api" where
  "after_remove masks as api =
     (let api1 = api\<lparr>mLocAdapters := slots_of as\<rparr>
      in if as = [] then call_api ApiClose api1 else api_send (LocOpenMsg (getEvtMask masks api1)) api1)"

lemma remove_loop_slots:
  assumes "mLocAdapters api = slots_of as" and "length as \<le> MAX_ADAPTERS" and "distinct as"
  shows "i \<le> length as \<Longrightarrow> a \<notin> set (take i as) \<Longrightarrow>
    (a \<notin> set as \<longrightarrow> remove_loop masks a i api = api) \<and>
    (\<forall>j < length as. as ! j = a \<longrightarrow>
       remove_loop masks a i api = after_remove masks (butlast (as[j := last as])) api)"
proof (induction "length as - i" arbitrary: i)
  case 0
  then have "i = length as" by simp
  then have "remove_loop masks a i api = api"
    using assms by (subst remove_loop.simps) (cases "i < MAX_ADAPTERS"; simp add: nth_slots_of)
  with 0 \<open>i = length as\<close> show ?case by auto
next
  case (Suc n)
  then have i: "i < length as" by linarith
  show ?case
  proof (cases "as ! i = a")
    case True
    define bs where "bs = butlast (as[i := last as])"
    have length_bs: "length bs = length as - 1" by (simp add: bs_def)
    have skip: "skip_adapters ((slots_of as)[i := None]) (i + 1) = length as"
      using i assms(2) by (intro skip_slots) simp_all
    have slots: "((slots_of as)[i := None])[i := (slots_of as)[i := None] ! (length as - 1), length as - 1 := None] =
        slots_of bs"
      unfolding bs_def using i assms(2) by (rule slots_of_remove)
    have cond: "i < MAX_ADAPTERS \<and> mLocAdapters api ! i \<noteq> None" "mLocAdapters api ! i = Some a"
      using i assms True by (simp_all add: nth_slots_of)
    have empty: "length as - 1 = 0 \<longleftrightarrow> bs = []" unfolding bs_def using i by (auto simp: butlast_conv_take)
    have stop: "remove_loop masks a (length as - 1 + 1) x = x" if "mLocAdapters x = slots_of bs" for x
      using i that assms(2) length_bs
      by (subst remove_loop.simps) (cases "length as < MAX_ADAPTERS"; simp add: nth_slots_of)
    have "remove_loop masks a i api = after_remove masks bs api"
      unfolding remove_loop.simps [of masks a i api] if_P [OF cond(1)] if_P [OF cond(2)]
      unfolding Let_def assms(1) skip slots empty after_remove_def
      by (rule stop) simp
    then have res: "remove_loop masks a i api = after_remove masks (butlast (as[i := last as])) api"
      unfolding bs_def .
    show ?thesis
    proof (intro conjI impI allI)
      assume "a \<notin> set as"
      with True i show "remove_loop masks a i api = api" using nth_mem by blast
    next
      fix j assume "j < length as" and "as ! j = a"
      then have "j = i" using True nth_eq_iff_index_eq [OF assms(3) \<open>j < length as\<close> i] by simp
      then show "remove_loop masks a i api = after_remove masks (butlast (as[j := last as])) api" using res by simp
    qed
  next
    case False
    have "a \<notin> set (take (i + 1) as)" using Suc.prems False i by (simp add: take_Suc_conv_app_nth)
    then have "(a \<notin> set as \<longrightarrow> remove_loop masks a (i + 1) api = api) \<and>
      (\<forall>j < length as. as ! j = a \<longrightarrow>
         remove_loop masks a (i + 1) api = after_remove masks (butlast (as[j := last as])) api)"
      using Suc i by (intro Suc.hyps) simp_all
    moreover have "remove_loop masks a i api = remove_loop masks a (i + 1) api"
      using i assms False by (subst remove_loop.simps) (simp add: nth_slots_of)
    ultimately show ?thesis by simp
  qed
qed

text \<open>The operations on the list of adapters: append, or overwrite with the last.\<close>

definition abs_add :: "nat \<Rightarrow> nat list \<Rightarrow> nat list" where
  "abs_add a as = (if a \<in> set as \<or> length as = MAX_ADAPTERS then as else as @ [a])"

definition abs_remove :: "nat \<Rightarrow> nat list \<Rightarrow> nat list" where
  "abs_remove a as =
     (case List.find (\<lambda>j. as ! j = a) [0..<length as] of None \<Rightarrow> as | Some j \<Rightarrow> butlast (as[j := last as]))"

lemma abs_add_props:
  "distinct as \<Longrightarrow> length as \<le> MAX_ADAPTERS \<Longrightarrow> distinct (abs_add a as) \<and> length (abs_add a as) \<le> MAX_ADAPTERS"
  by (auto simp: abs_add_def)

lemma mset_swap_remove:
  assumes "j < length as"
  shows "mset (butlast (as[j := last as])) = mset as - {#as ! j#}"
proof -
  let ?bs = "as[j := last as]"
  have ne: "?bs \<noteq> []" using assms by auto
  have "last ?bs = last as"
    using assms by (cases as rule: rev_cases) (auto simp: last_list_update)
  then have "mset ?bs = add_mset (last as) (mset (butlast ?bs))"
    using ne by (metis append_butlast_last_id mset.simps union_code add.commute add_mset_add_single mset_append)
  moreover have "mset ?bs = add_mset (last as) (mset as - {#as ! j#})"
    using assms by (simp add: mset_update)
  ultimately show ?thesis by simp
qed

lemma abs_remove_props:
  assumes "distinct as"
  shows "distinct (abs_remove a as) \<and> length (abs_remove a as) \<le> length as \<and> set (abs_remove a as) = set as - {a}"
proof (cases "List.find (\<lambda>j. as ! j = a) [0..<length as]")
  case None
  then have "a \<notin> set as" by (auto simp: find_None_iff in_set_conv_nth)
  with None assms show ?thesis by (simp add: abs_remove_def)
next
  case (Some j)
  then have j: "j < length as" "as ! j = a" by (auto simp: find_Some_iff)
  have m: "mset (abs_remove a as) = mset (remove1 a as)"
    using mset_swap_remove [OF j(1)] Some j(2) by (simp add: abs_remove_def)
  have "distinct (abs_remove a as)"
    using assms mset_eq_imp_distinct_iff [OF m] by simp
  moreover have "set (abs_remove a as) = set as - {a}"
    using assms mset_eq_setD [OF m] by simp
  moreover have "length (abs_remove a as) \<le> length as"
    using Some by (simp add: abs_remove_def)
  ultimately show ?thesis by blast
qed

lemma addAdapter_abs:
  assumes "api_ok api"
  shows "api_ok (addAdapter masks a api)" and "adapters_of (addAdapter masks a api) = abs_add a (adapters_of api)"
proof -
  let ?as = "adapters_of api"
  have ok: "mLocAdapters api = slots_of ?as" "length ?as \<le> MAX_ADAPTERS" "distinct ?as"
    using assms by (simp_all add: api_ok_def)
  have eq: "addAdapter masks a api = (if a \<in> set ?as \<or> length ?as = MAX_ADAPTERS then api
      else api_send (LocOpenMsg (masks a)) (api\<lparr>mLocAdapters := slots_of (?as @ [a])\<rparr>))"
    unfolding addAdapter_def by (rule add_loop_slots [OF ok(1,2)]) simp_all
  have new: "adapters_of (api\<lparr>mLocAdapters := slots_of (?as @ [a])\<rparr>) = ?as @ [a]"
    by (rule adapters_of_slots) simp
  show "adapters_of (addAdapter masks a api) = abs_add a ?as"
    unfolding eq abs_add_def by (simp add: new)
  show "api_ok (addAdapter masks a api)"
    unfolding eq using assms ok(2,3) by (auto simp: api_ok_def new)
qed

lemma removeAdapter_eq:
  assumes "api_ok api"
  shows "removeAdapter masks a api =
    (if a \<in> set (adapters_of api) then after_remove masks (abs_remove a (adapters_of api)) api else api)"
proof -
  let ?as = "adapters_of api"
  have ok: "mLocAdapters api = slots_of ?as" "length ?as \<le> MAX_ADAPTERS" "distinct ?as"
    using assms by (simp_all add: api_ok_def)
  have r: "(a \<notin> set ?as \<longrightarrow> removeAdapter masks a api = api) \<and>
    (\<forall>j < length ?as. ?as ! j = a \<longrightarrow>
       removeAdapter masks a api = after_remove masks (butlast (?as[j := last ?as])) api)"
    unfolding removeAdapter_def by (rule remove_loop_slots [OF ok]) simp_all
  show ?thesis
  proof (cases "List.find (\<lambda>j. ?as ! j = a) [0..<length ?as]")
    case None
    then have "a \<notin> set ?as" by (auto simp: find_None_iff in_set_conv_nth)
    with r show ?thesis by simp
  next
    case (Some j)
    then have j: "j < length ?as" "?as ! j = a" by (auto simp: find_Some_iff)
    then have "a \<in> set ?as" by auto
    moreover have "removeAdapter masks a api = after_remove masks (butlast (?as[j := last ?as])) api"
      using r j by blast
    ultimately show ?thesis using Some by (simp add: abs_remove_def)
  qed
qed

lemma after_remove_facts:
  "adapters_of (after_remove masks as api) = as"
  "mLocAdapters (after_remove masks as api) = slots_of as"
  by (auto simp: after_remove_def Let_def intro: adapters_of_slots)

lemma removeAdapter_abs:
  assumes "api_ok api"
  shows "api_ok (removeAdapter masks a api)"
    and "adapters_of (removeAdapter masks a api) = abs_remove a (adapters_of api)"
proof -
  have d: "distinct (adapters_of api)" "length (adapters_of api) \<le> MAX_ADAPTERS"
    using assms by (simp_all add: api_ok_def)
  have "abs_remove a (adapters_of api) = adapters_of api" if "a \<notin> set (adapters_of api)"
  proof -
    have "List.find (\<lambda>j. adapters_of api ! j = a) [0..<length (adapters_of api)] = None"
      using that by (auto simp: find_None_iff)
    then show ?thesis by (simp add: abs_remove_def)
  qed
  then show "adapters_of (removeAdapter masks a api) = abs_remove a (adapters_of api)"
    unfolding removeAdapter_eq [OF assms] by (simp add: after_remove_facts)
  show "api_ok (removeAdapter masks a api)"
    using assms abs_remove_props [OF d(1), of a] d(2)
    unfolding removeAdapter_eq [OF assms] by (auto simp: api_ok_def after_remove_facts)
qed

section \<open>Properties of the registry\<close>

datatype reg_op = AddAdapter nat | RemoveAdapter nat

fun api_op :: "(nat \<Rightarrow> event_mask) \<Rightarrow> reg_op \<Rightarrow> loc_api \<Rightarrow> loc_api" where
  "api_op masks (AddAdapter a) = addAdapter masks a"
| "api_op masks (RemoveAdapter a) = removeAdapter masks a"

fun abs_op :: "reg_op \<Rightarrow> nat list \<Rightarrow> nat list" where
  "abs_op (AddAdapter a) = abs_add a"
| "abs_op (RemoveAdapter a) = abs_remove a"

lemma api_op_abs:
  assumes "api_ok api"
  shows "api_ok (api_op masks op api) \<and> adapters_of (api_op masks op api) = abs_op op (adapters_of api)"
  using assms addAdapter_abs removeAdapter_abs by (cases op) simp_all

lemma api_run_abs:
  "api_ok api \<Longrightarrow> api_ok (fold (api_op masks) ops api) \<and>
     adapters_of (fold (api_op masks) ops api) = fold abs_op ops (adapters_of api)"
  by (induction ops arbitrary: api) (simp_all add: api_op_abs)

lemma api_ok_new: "api_ok (LocApiBase_new m)" "adapters_of (LocApiBase_new m) = []"
proof -
  have s: "mLocAdapters (LocApiBase_new m) = slots_of []" by (simp add: LocApiBase_new_def slots_of_def)
  from adapters_of_slots [OF s] show "adapters_of (LocApiBase_new m) = []" .
  with s show "api_ok (LocApiBase_new m)" by (simp add: api_ok_def)
qed

text \<open>C10: The adapter array refines a list: after any registrations and removals the array is the
  adapters of the list in its first slots and NULL in all others, with no hole and no adapter twice,
  where a registration appends (unless the adapter is there or all ten slots are taken) and a removal
  overwrites the adapter with the last one.\<close>

theorem api_adapters_refine:
  "let api = fold (api_op masks) ops (LocApiBase_new m); as = fold abs_op ops []
   in mLocAdapters api = map Some as @ replicate (10 - length as) None \<and> length as \<le> 10 \<and> distinct as"
  using api_run_abs [OF api_ok_new(1), of masks ops m]
  by (auto simp: Let_def api_ok_new api_ok_def slots_of_def MAX_ADAPTERS_def)

text \<open>Removing a registered adapter removes it and no other, and the modem is told: the interface
  is closed when no adapter is left, and otherwise reopened with exactly the events that some remaining
  adapter wants and that are not excluded. The messages sent before are kept.\<close>

theorem api_remove_tells_modem:
  assumes "api_ok api" and "a \<in> set (adapters_of api)"
  shows "let api' = removeAdapter masks a api; as = adapters_of api'
    in set as = set (adapters_of api) - {a} \<and> distinct as \<and>
       (if as = [] then api_calls api' = api_calls api @ [ApiClose] \<and> api_msgs api' = api_msgs api
        else api_calls api' = api_calls api \<and> api_msgs api' = api_msgs api @
               [LocOpenMsg (fold (\<lambda>a m. m OR masks a) as 0 AND NOT (mExcludedMask api))])"
proof -
  have d: "distinct (adapters_of api)" using assms(1) by (simp add: api_ok_def)
  have eq: "removeAdapter masks a api = after_remove masks (abs_remove a (adapters_of api)) api"
    using removeAdapter_eq [OF assms(1), of masks a] assms(2) by simp
  let ?as = "abs_remove a (adapters_of api)"
  have "if ?as = [] then api_calls (after_remove masks ?as api) = api_calls api @ [ApiClose] \<and>
          api_msgs (after_remove masks ?as api) = api_msgs api
        else api_calls (after_remove masks ?as api) = api_calls api \<and>
          api_msgs (after_remove masks ?as api) = api_msgs api @
            [LocOpenMsg (fold (\<lambda>a m. m OR masks a) ?as 0 AND NOT (mExcludedMask api))]"
    by (simp add: after_remove_def Let_def call_api_def api_send_def getEvtMask_def to_all_slots)
  then show ?thesis
    unfolding eq Let_def after_remove_facts using abs_remove_props [OF d, of a] by blast
qed

lemma api_remove_tells_modem_witness:
  "api_calls (removeAdapter (\<lambda>a. 1) 7 (addAdapter (\<lambda>a. 1) 7 (LocApiBase_new 0))) = [ApiClose]"
proof -
  let ?api = "addAdapter (\<lambda>a. 1) 7 (LocApiBase_new 0)"
  have ok: "api_ok ?api" "adapters_of ?api = [7]"
    using addAdapter_abs [OF api_ok_new(1), of "\<lambda>a. 1" 7 0]
    by (simp_all add: api_ok_new abs_add_def MAX_ADAPTERS_def)
  have after: "adapters_of (removeAdapter (\<lambda>a. 1) 7 ?api) = []"
    using removeAdapter_abs(2) [OF ok(1), of "\<lambda>a. 1" 7] ok(2) by (simp add: abs_remove_def)
  have calls: "api_calls ?api = []" by code_simp
  have "7 \<in> set (adapters_of ?api)" using ok(2) by simp
  from api_remove_tells_modem [OF ok(1) this, of "\<lambda>a. 1"] show ?thesis
    unfolding Let_def after calls by simp
qed

lemma to_1st_log:
  "first_handling (\<lambda>a w. (h a, w @ [f a])) as w =
     w @ map f (takeWhile (\<lambda>a. \<not> h a) as @ take 1 (dropWhile (\<lambda>a. \<not> h a) as))"
  by (induction as arbitrary: w) simp_all

lemma to_all_log: "fold (\<lambda>a w. w @ [f a]) as w = w @ map f as"
  by (induction as arbitrary: w) simp_all

text \<open>The modem's reports reach every registered adapter exactly once, in the order of registration
  of the array, and its requests reach the adapters in that order up to and including the first that
  handles them, and no further.\<close>

theorem api_report_dispatch:
  assumes "api_ok api"
  shows "api_upcall (\<lambda>a c log. (h a c, log @ [(a, c)])) (\<lambda>m log. log) api c [] =
    map (\<lambda>a. (a, c)) (if is_broadcast c then adapters_of api
      else takeWhile (\<lambda>a. \<not> h a c) (adapters_of api) @ take 1 (dropWhile (\<lambda>a. \<not> h a c) (adapters_of api)))"
proof -
  have "mLocAdapters api = slots_of (adapters_of api)" using assms by (simp add: api_ok_def)
  then show ?thesis
    by (cases c) (simp_all add: to_all_slots to_1st_slots to_1st_log to_all_log)
qed

lemma api_report_dispatch_witness:
  "api_upcall (\<lambda>a c log. (a = 2, log @ [(a, c)])) (\<lambda>m log. log)
     (fold (api_op (\<lambda>a. 0)) [AddAdapter 1, AddAdapter 2, AddAdapter 3] (LocApiBase_new 0)) requestTime [] =
   [(1, requestTime), (2, requestTime)]"
proof -
  let ?api = "fold (api_op (\<lambda>a. 0)) [AddAdapter 1, AddAdapter 2, AddAdapter 3] (LocApiBase_new 0)"
  have ok: "api_ok ?api" "adapters_of ?api = [1, 2, 3]"
    using api_run_abs [OF api_ok_new(1), of "\<lambda>a. 0" "[AddAdapter 1, AddAdapter 2, AddAdapter 3]" 0]
    by (simp_all add: api_ok_new abs_add_def MAX_ADAPTERS_def)
  from api_report_dispatch [OF ok(1), of "\<lambda>a c. a = 2" requestTime] show ?thesis
    unfolding ok(2) by simp
qed

section \<open>Decoding helpers\<close>

text \<open>
  \<^verbatim>\<open>hexcode\<close>: two digits per byte while they and a terminator fit; the number of bytes written and
  the text.  A \<open>char\<close> of the target is unsigned.
\<close>

fun hexcode_loop :: "int \<Rightarrow> int \<Rightarrow> u8 list \<Rightarrow> int \<times> string" where
  "hexcode_loop string_size i [] = (i, [])"
| "hexcode_loop string_size i (ch # data) =
     (if i * 2 + 3 \<le> string_size
      then (case hexcode_loop string_size (i + 1) data of (n, s) \<Rightarrow> (n, hex2 ch @ s))
      else (i, []))"

definition hexcode :: "int \<Rightarrow> u8 list \<Rightarrow> int \<times> string" where
  "hexcode string_size data = hexcode_loop string_size 0 data"

text \<open>
  \<^verbatim>\<open>decodeAddress\<close>: an address in semi-octets behind the prefix 0x91; \<open>None\<close> is a NULL argument.
  The result is the returned length and the text before the terminator.
\<close>

definition addr_prefix :: u8 where
  "addr_prefix = 0x91"

definition put_digit :: "int \<Rightarrow> u8 \<Rightarrow> string \<Rightarrow> string" where
  "put_digit string_size d out =
     (if d \<le> 9 \<and> int (length out) < string_size - 1 then out @ [char_of (unat d + 48)] else out)"

fun decode_loop :: "int \<Rightarrow> u8 list \<Rightarrow> string \<Rightarrow> string" where
  "decode_loop string_size [] out = out"
| "decode_loop string_size (ch # data) out =
     decode_loop string_size data (put_digit string_size (drop_bit 4 ch) (put_digit string_size (ch AND 0x0F) out))"

definition decodeAddress :: "int \<Rightarrow> u8 list option \<Rightarrow> int \<times> string" where
  "decodeAddress string_size data =
     (case data of None \<Rightarrow> (0, [])
      | Some d \<Rightarrow> if hd d \<noteq> addr_prefix then (0, [])
                  else (let out = decode_loop string_size (tl d) [] in (int (length out), out)))"

lemma hexcode_loop_eq:
  "0 \<le> i \<Longrightarrow> hexcode_loop z i data =
     (i + int (min (length data) (nat ((z - 1) div 2 - i))), concat (map hex2 (take (nat ((z - 1) div 2 - i)) data)))"
proof (induction z i data rule: hexcode_loop.induct)
  case (2 z i ch data)
  show ?case
  proof (cases "i * 2 + 3 \<le> z")
    case True
    then have n: "nat ((z - 1) div 2 - i) = Suc (nat ((z - 1) div 2 - (i + 1)))" by linarith
    show ?thesis
      unfolding n hexcode_loop.simps(2) if_P [OF True] using 2 True by simp
  next
    case False
    then have "nat ((z - 1) div 2 - i) = 0" by linarith
    with False show ?thesis by simp
  qed
qed simp

lemma length_concat_hex2: "length (concat (map hex2 xs)) = 2 * length xs"
  by (induction xs) (simp_all add: hex2_def)

definition hex_val :: "char \<Rightarrow> nat" where
  "hex_val c = (let n = of_char c in if n < 58 then n - 48 else n - 55)"

fun from_hex :: "string \<Rightarrow> u8 list" where
  "from_hex (a # b # s) = of_nat (16 * hex_val a + hex_val b) # from_hex s"
| "from_hex _ = []"

lemma hex_val_digit: "n < 16 \<Longrightarrow> hex_val (hex_digit n) = n"
  by (simp add: hex_val_def hex_digit_def Let_def)

lemma from_hex_concat: "from_hex (concat (map hex2 xs)) = xs"
proof (induction xs)
  case (Cons x xs)
  have "unat x < 2 ^ LENGTH(8)" by (rule unsigned_less)
  then have "unat x div 16 < 16" by simp
  then show ?case
    using Cons by (simp add: hex2_def hex_val_digit)
qed simp

text \<open>The hexadecimal text written for a buffer of the given size is a prefix of the data that fits
  with its terminator, it is the longest such prefix, and reading the digits back gives exactly the
  bytes whose number is returned.\<close>

theorem hexcode_roundtrip:
  assumes "1 \<le> string_size"
  shows "case hexcode string_size data of (n, s) \<Rightarrow>
    from_hex s = take (nat n) data \<and> int (length s) = 2 * n \<and> int (length s) + 1 \<le> string_size \<and>
    (n = int (length data) \<or> string_size < 2 * (n + 1) + 1)"
proof -
  define k where "k = nat ((string_size - 1) div 2)"
  have eq: "hexcode string_size data = (int (min (length data) k), concat (map hex2 (take k data)))"
    by (simp add: hexcode_def hexcode_loop_eq k_def)
  have "2 * int k + 1 \<le> string_size" "string_size \<le> 2 * int k + 2"
    using assms unfolding k_def by linarith+
  then show ?thesis
    unfolding eq by (auto simp: from_hex_concat length_concat_hex2 min_def)
qed

lemma hexcode_roundtrip_witness:
  "case hexcode 5 [0xAB, 0x01, 0x7F] of (n, s) \<Rightarrow> n = 2 \<and> from_hex s = [0xAB, 0x01]"
  using hexcode_roundtrip [of 5 "[0xAB, 0x01, 0x7F]"]
  by (simp add: hexcode_def)

text \<open>The semi-octet encoding of a digit string, with the filler 15 in the last half if the length is odd.\<close>

fun semi_octets :: "nat list \<Rightarrow> u8 list" where
  "semi_octets [] = []"
| "semi_octets [d] = [of_nat (15 * 16 + d)]"
| "semi_octets (d # e # ds) = of_nat (e * 16 + d) # semi_octets ds"

definition encode_address :: "nat list \<Rightarrow> u8 list" where
  "encode_address ds = addr_prefix # semi_octets ds"

definition digit_char :: "nat \<Rightarrow> char" where
  "digit_char d = char_of (d + 48)"

lemma octet_halves:
  assumes "h < 16" and "l < 16"
  shows "(of_nat (h * 16 + l) :: u8) AND 0x0F = of_nat l" and "drop_bit 4 (of_nat (h * 16 + l) :: u8) = of_nat h"
proof -
  have u: "unat (of_nat (h * 16 + l) :: u8) = h * 16 + l"
    unfolding unat_of_nat using assms by simp
  define w :: u8 where "w = of_nat (h * 16 + l)"
  have w: "unat w = h * 16 + l" using u by (simp add: w_def)
  have "w AND 0x0F = take_bit 4 w" by (simp add: take_bit_eq_mask mask_eq_exp_minus_1)
  then have "unat (w AND 0x0F) = l"
    using assms by (simp only: unsigned_take_bit_eq w) (simp add: take_bit_eq_mod)
  then have "(of_nat (unat (w AND 0x0F)) :: u8) = of_nat l" by (rule arg_cong)
  then show "(of_nat (h * 16 + l) :: u8) AND 0x0F = of_nat l"
    unfolding w_def [symmetric] by simp
  have "unat (drop_bit 4 w) = h"
    using assms by (simp only: unsigned_drop_bit_eq w) (simp add: drop_bit_eq_div take_bit_eq_mod)
  then have "(of_nat (unat (drop_bit 4 w)) :: u8) = of_nat h" by (rule arg_cong)
  then show "drop_bit 4 (of_nat (h * 16 + l) :: u8) = of_nat h"
    unfolding w_def [symmetric] by simp
qed

lemma put_digit_eq:
  assumes "d < 16"
  shows "put_digit z (of_nat d) out =
    (if d \<le> 9 \<and> int (length out) < z - 1 then out @ [digit_char d] else out)"
proof -
  have u: "unat (of_nat d :: u8) = d" using assms by (simp add: unat_of_nat)
  then have "(of_nat d :: u8) \<le> 9 \<longleftrightarrow> d \<le> 9" by (simp add: word_le_nat_alt)
  with u show ?thesis by (simp add: put_digit_def digit_char_def)
qed

lemma decode_semi_octets:
  "\<forall>d \<in> set ds. d \<le> 9 \<Longrightarrow> int (length out + length ds) < z \<Longrightarrow>
   decode_loop z (semi_octets ds) out = out @ map digit_char ds"
proof (induction ds arbitrary: out rule: semi_octets.induct)
  case (2 d)
  then show ?case
    using octet_halves [of 15 d] by (simp add: put_digit_eq [of 15, simplified] put_digit_eq)
next
  case (3 d e ds)
  then show ?case
    using octet_halves [of e d] by (simp add: put_digit_eq)
qed simp

lemma decode_loop_length: "int (length out) < z \<Longrightarrow> int (length (decode_loop z data out)) < z"
  by (induction z data out rule: decode_loop.induct) (simp add: put_digit_def)+

text \<open>The decoder inverts the semi-octet encoding: for an address of decimal digits and a buffer
  with room for it, the decoded text is the address and its length is returned. For any data the text
  and its terminator stay within the buffer.\<close>

theorem decode_address_roundtrip:
  assumes "\<forall>d \<in> set ds. d \<le> 9" and "int (length ds) < string_size"
  shows "decodeAddress string_size (Some (encode_address ds)) = (int (length ds), map digit_char ds) \<and>
    int (length (snd (decodeAddress string_size (Some data)))) < string_size"
  using decode_semi_octets [of ds "[]" string_size] decode_loop_length [of "[]" string_size "tl data"] assms
  by (simp add: decodeAddress_def encode_address_def Let_def)

lemma decode_address_roundtrip_witness:
  "decodeAddress 32 (Some (encode_address [4, 9, 1])) = (3, map digit_char [4, 9, 1])"
proof -
  have "\<forall>d \<in> set [4, 9, 1 :: nat]. d \<le> 9" and "int (length [4, 9, 1 :: nat]) < 32" by simp_all
  from decode_address_roundtrip [OF this, of "[0]"] show ?thesis by simp
qed

end
