(* ===== verification/Ni.thy ===== *)
theory Ni
  imports Gps_Types
begin

text \<open>
  \<^verbatim>\<open>loc_eng_ni.cpp\<close>: network-initiated requests.  Each accepted request starts a thread that waits
  for the user's response or a timeout and then answers the modem.  The threads interleave with the
  handlers; a step is a handler, or a stretch of a thread between two points where it holds or waits
  for the session's lock.  Payloads are pointers; what is freed is recorded in order.
\<close>

section \<open>State\<close>

record ni_session =
  respTimeLeft :: int
  respRecvd :: bool
  rawRequest :: "nat option"
  reqID :: u32
  resp :: GpsUserResponse

text \<open>The session a thread works for, and where it is: before the lock, in the wait, after the unlock.\<close>

datatype ni_which = NiSupl | NiSuplEs

datatype ni_pc = NiStart | NiWait | NiTail "(GpsUserResponse \<times> nat) option"

record ni_state =
  ni_notify_cb :: bool
  session :: "ni_which \<Rightarrow> ni_session"
  reqIDCounter :: u32
  mute_session_state :: loc_mute_session
  ni_threads :: "(ni_which \<times> ni_pc) list"
  ni_notified :: "GpsNiNotification list"            \<comment> \<open>calls of \<open>ni_notify_cb\<close>\<close>
  ni_informs :: "(GpsUserResponse \<times> nat) list"       \<comment> \<open>posted \<open>LocEngInformNiResponse\<close> messages\<close>
  ni_freed :: "nat list"

definition ni_free :: "nat option \<Rightarrow> ni_state \<Rightarrow> ni_state" where
  "ni_free p s = (case p of None \<Rightarrow> s | Some x \<Rightarrow> s\<lparr>ni_freed := ni_freed s @ [x]\<rparr>)"

definition upd_session :: "ni_which \<Rightarrow> (ni_session \<Rightarrow> ni_session) \<Rightarrow> ni_state \<Rightarrow> ni_state" where
  "upd_session w f s = s\<lparr>session := (session s)(w := f (session s w))\<rparr>"

section \<open>Handlers\<close>

text \<open>
  \<^verbatim>\<open>loc_eng_ni_init\<close>: \<open>callbacks\<close> is \<open>None\<close> for NULL and \<open>Some b\<close> with \<open>b\<close> telling whether
  \<open>notify_cb\<close> is set.
\<close>

definition init_session :: "ni_session \<Rightarrow> ni_session" where
  "init_session x = x\<lparr>respTimeLeft := 0, respRecvd := False, rawRequest := None, reqID := 0\<rparr>"

definition loc_eng_ni_init :: "bool option \<Rightarrow> ni_state \<Rightarrow> ni_state" where
  "loc_eng_ni_init callbacks s =
     (case callbacks of
        None \<Rightarrow> s
      | Some cb \<Rightarrow>
          if \<not> cb then s
          else if ni_notify_cb s then s
          else (upd_session NiSupl init_session (upd_session NiSuplEs init_session s))\<lparr>ni_notify_cb := True\<rparr>)"

text \<open>
  \<^verbatim>\<open>loc_eng_ni_request_handler\<close>; \<open>spawned\<close> tells whether \<open>pthread_create\<close> succeeds.  The
  notification the callback gets carries the new id.
\<close>

definition ni_accept :: "bool \<Rightarrow> GpsNiNotification \<Rightarrow> nat option \<Rightarrow> ni_which \<Rightarrow> ni_state \<Rightarrow> ni_state" where
  "ni_accept spawned notif passThrough w s =
     (let newID = reqIDCounter s + 1;
          s1 = upd_session w (\<lambda>x. x\<lparr>rawRequest := passThrough, reqID := newID\<rparr>) (s\<lparr>reqIDCounter := newID\<rparr>);
          s2 = (if notify_flags notif = GPS_NI_PRIVACY_OVERRIDE
                then s1\<lparr>mute_session_state := LOC_MUTE_SESS_WAIT\<rparr> else s1);
          s3 = upd_session w (\<lambda>x. x\<lparr>respTimeLeft :=
                 5 + (if ni_timeout notif \<noteq> 0 then ni_timeout notif else LOC_NI_NO_RESPONSE_TIME)\<rparr>) s2;
          s4 = (if spawned then s3\<lparr>ni_threads := ni_threads s3 @ [(w, NiStart)]\<rparr> else s3)
      in s4\<lparr>ni_notified := ni_notified s4 @ [notif\<lparr>notification_id := newID\<rparr>]\<rparr>)"

definition loc_eng_ni_request_handler :: "bool \<Rightarrow> GpsNiNotification \<Rightarrow> nat option \<Rightarrow> ni_state \<Rightarrow> ni_state" where
  "loc_eng_ni_request_handler spawned notif passThrough s =
     (if \<not> ni_notify_cb s then s
      else if ni_type notif = GPS_NI_TYPE_EMERGENCY_SUPL then
        (if rawRequest (session s NiSuplEs) \<noteq> None then ni_free passThrough s
         else ni_accept spawned notif passThrough NiSuplEs s)
      else
        (if rawRequest (session s NiSupl) \<noteq> None \<or> rawRequest (session s NiSuplEs) \<noteq> None
         then ni_free passThrough s
         else ni_accept spawned notif passThrough NiSupl s))"

text \<open>\<^verbatim>\<open>loc_eng_ni_reset_on_engine_restart\<close>: free the requests and let their threads exit.\<close>

definition reset_session :: "ni_which \<Rightarrow> ni_state \<Rightarrow> ni_state" where
  "reset_session w s =
     (if rawRequest (session s w) \<noteq> None
      then upd_session w (\<lambda>x. x\<lparr>rawRequest := None, respRecvd := True\<rparr>) (ni_free (rawRequest (session s w)) s)
      else s)"

definition loc_eng_ni_reset_on_engine_restart :: "ni_state \<Rightarrow> ni_state" where
  "loc_eng_ni_reset_on_engine_restart s =
     (if \<not> ni_notify_cb s then s else reset_session NiSupl (reset_session NiSuplEs s))"

text \<open>\<^verbatim>\<open>loc_eng_ni_respond\<close>.\<close>

definition set_response :: "GpsUserResponse \<Rightarrow> ni_which \<Rightarrow> ni_state \<Rightarrow> ni_state" where
  "set_response r w s = upd_session w (\<lambda>x. x\<lparr>resp := r, respRecvd := True\<rparr>) s"

definition loc_eng_ni_respond :: "u32 \<Rightarrow> GpsUserResponse \<Rightarrow> ni_state \<Rightarrow> ni_state" where
  "loc_eng_ni_respond notif_id user_response s =
     (if \<not> ni_notify_cb s then s
      else if notif_id = reqID (session s NiSuplEs) \<and> rawRequest (session s NiSuplEs) \<noteq> None then
        (let s1 = (if user_response = GPS_NI_RESPONSE_ACCEPT \<and> rawRequest (session s NiSupl) \<noteq> None
                   then set_response GPS_NI_RESPONSE_IGNORE NiSupl s else s)
         in set_response user_response NiSuplEs s1)
      else if notif_id = reqID (session s NiSupl) \<and> rawRequest (session s NiSupl) \<noteq> None then
        set_response user_response NiSupl s
      else s)"

section \<open>The thread\<close>

text \<open>\<^verbatim>\<open>ni_thread_proc\<close> after its loop, up to the unlock: the message to send, if any.\<close>

definition ni_collect :: "ni_which \<Rightarrow> ni_state \<Rightarrow> (GpsUserResponse \<times> nat) option \<times> ni_state" where
  "ni_collect w s =
     (let s1 = upd_session w (\<lambda>x. x\<lparr>respRecvd := False\<rparr>) s
      in case rawRequest (session s1 w) of
           None \<Rightarrow> (None, s1)
         | Some p \<Rightarrow>
             let (msg, s2) = (if resp (session s1 w) \<noteq> GPS_NI_RESPONSE_IGNORE
                              then (Some (resp (session s1 w), p), s1) else (None, ni_free (Some p) s1))
             in (msg, upd_session w (\<lambda>x. x\<lparr>rawRequest := None\<rparr>) s2))"

definition set_thread :: "nat \<Rightarrow> ni_which \<times> ni_pc \<Rightarrow> ni_state \<Rightarrow> ni_state" where
  "set_thread i t s = s\<lparr>ni_threads := (ni_threads s)[i := t]\<rparr>"

definition ni_finish :: "nat \<Rightarrow> ni_which \<Rightarrow> ni_state \<Rightarrow> ni_state" where
  "ni_finish i w s = (case ni_collect w s of (msg, s1) \<Rightarrow> set_thread i (w, NiTail msg) s1)"

text \<open>
  One stretch of thread \<open>i\<close>; \<open>timed_out\<close> is the result of the timed wait.  A timeout ends the loop
  without another look at \<open>respRecvd\<close>.
\<close>

definition ni_thread_step :: "nat \<Rightarrow> bool \<Rightarrow> ni_state \<Rightarrow> ni_state" where
  "ni_thread_step i timed_out s =
     (case ni_threads s ! i of
        (w, NiStart) \<Rightarrow> if respRecvd (session s w) then ni_finish i w s else set_thread i (w, NiWait) s
      | (w, NiWait) \<Rightarrow>
          if timed_out then ni_finish i w (upd_session w (\<lambda>x. x\<lparr>resp := GPS_NI_RESPONSE_NORESP\<rparr>) s)
          else if respRecvd (session s w) then ni_finish i w s
          else s
      | (w, NiTail msg) \<Rightarrow>
          let s1 = upd_session w (\<lambda>x. x\<lparr>respTimeLeft := 0, reqID := 0\<rparr>) s;
              s2 = (case msg of None \<Rightarrow> s1 | Some m \<Rightarrow> s1\<lparr>ni_informs := ni_informs s1 @ [m]\<rparr>)
          in s2\<lparr>ni_threads := take i (ni_threads s2) @ drop (i + 1) (ni_threads s2)\<rparr>)"

section \<open>Runs\<close>

definition ni_zero :: ni_state where
  "ni_zero = \<lparr>ni_notify_cb = False,
     session = (\<lambda>w. \<lparr>respTimeLeft = 0, respRecvd = False, rawRequest = None, reqID = 0, resp = GPS_NI_RESPONSE_UNSET\<rparr>),
     reqIDCounter = 0, mute_session_state = LOC_MUTE_SESS_NONE, ni_threads = [], ni_notified = [], ni_informs = [],
     ni_freed = []\<rparr>"

text \<open>The state after any interleaving, with the payloads of the requests so far.\<close>

inductive ni_run :: "ni_state \<Rightarrow> nat list \<Rightarrow> bool" where
  init: "ni_run (loc_eng_ni_init (Some True) ni_zero) []"
| request: "ni_run s given \<Longrightarrow>
    ni_run (loc_eng_ni_request_handler True notif (Some p) s) (given @ [p])"
| reset: "ni_run s given \<Longrightarrow> ni_run (loc_eng_ni_reset_on_engine_restart s) given"
| respond: "ni_run s given \<Longrightarrow> ni_run (loc_eng_ni_respond i r s) given"
| thread: "ni_run s given \<Longrightarrow> i < length (ni_threads s) \<Longrightarrow> ni_run (ni_thread_step i timed_out s) given"

section \<open>Where the payloads are\<close>

fun pc_payload :: "ni_which \<times> ni_pc \<Rightarrow> nat multiset" where
  "pc_payload (w, NiTail (Some (r, p))) = {#p#}"
| "pc_payload _ = {#}"

definition raw_payload :: "ni_which \<Rightarrow> ni_state \<Rightarrow> nat multiset" where
  "raw_payload w s = (case rawRequest (session s w) of None \<Rightarrow> {#} | Some p \<Rightarrow> {#p#})"

definition ni_payloads :: "ni_state \<Rightarrow> nat multiset" where
  "ni_payloads s = mset (ni_freed s) + mset (map snd (ni_informs s)) +
     sum_list (map pc_payload (ni_threads s)) + raw_payload NiSupl s + raw_payload NiSuplEs s"

text \<open>Every request that is held has a thread that has not yet collected it.\<close>

definition ni_live :: "ni_which \<Rightarrow> ni_state \<Rightarrow> bool" where
  "ni_live w s \<longleftrightarrow> (w, NiStart) \<in> set (ni_threads s) \<or> (w, NiWait) \<in> set (ni_threads s)"

definition ni_inv :: "ni_state \<Rightarrow> nat list \<Rightarrow> bool" where
  "ni_inv s given \<longleftrightarrow> ni_notify_cb s \<and> mset given = ni_payloads s \<and>
     (\<forall>w. rawRequest (session s w) \<noteq> None \<longrightarrow> ni_live w s)"

lemma upd_session_simps [simp]:
  "session (upd_session w f s) v = (if v = w then f (session s w) else session s v)"
  "ni_notify_cb (upd_session w f s) = ni_notify_cb s" "reqIDCounter (upd_session w f s) = reqIDCounter s"
  "ni_threads (upd_session w f s) = ni_threads s" "ni_notified (upd_session w f s) = ni_notified s"
  "ni_informs (upd_session w f s) = ni_informs s" "ni_freed (upd_session w f s) = ni_freed s"
  by (simp_all add: upd_session_def)

lemma ni_free_simps [simp]:
  "session (ni_free p s) = session s" "ni_notify_cb (ni_free p s) = ni_notify_cb s"
  "ni_threads (ni_free p s) = ni_threads s" "ni_informs (ni_free p s) = ni_informs s"
  "ni_notified (ni_free p s) = ni_notified s"
  "ni_freed (ni_free p s) = ni_freed s @ (case p of None \<Rightarrow> [] | Some x \<Rightarrow> [x])"
  by (simp_all add: ni_free_def split: option.split)

lemma set_thread_simps [simp]:
  "session (set_thread i t s) = session s" "ni_notify_cb (set_thread i t s) = ni_notify_cb s"
  "ni_threads (set_thread i t s) = (ni_threads s)[i := t]" "ni_informs (set_thread i t s) = ni_informs s"
  "ni_freed (set_thread i t s) = ni_freed s" "ni_notified (set_thread i t s) = ni_notified s"
  by (simp_all add: set_thread_def)

text \<open>What a collecting thread does, by the request it finds.\<close>

definition collected :: "ni_session \<Rightarrow> (GpsUserResponse \<times> nat) option" where
  "collected x = (case rawRequest x of None \<Rightarrow> None
     | Some p \<Rightarrow> if resp x = GPS_NI_RESPONSE_IGNORE then None else Some (resp x, p))"

definition dropped :: "ni_session \<Rightarrow> nat list" where
  "dropped x = (case rawRequest x of None \<Rightarrow> [] | Some p \<Rightarrow> if resp x = GPS_NI_RESPONSE_IGNORE then [p] else [])"

lemma ni_finish_simps [simp]:
  "session (ni_finish i w s) v =
     (if v = w then (session s w)\<lparr>respRecvd := False, rawRequest := None\<rparr> else session s v)"
  "ni_notify_cb (ni_finish i w s) = ni_notify_cb s"
  "ni_threads (ni_finish i w s) = (ni_threads s)[i := (w, NiTail (collected (session s w)))]"
  "ni_informs (ni_finish i w s) = ni_informs s"
  "ni_freed (ni_finish i w s) = ni_freed s @ dropped (session s w)"
  by (auto simp: ni_finish_def ni_collect_def collected_def dropped_def Let_def split: option.split prod.split)

lemma collected_payload:
  "pc_payload (w, NiTail (collected x)) + mset (dropped x) = (case rawRequest x of None \<Rightarrow> {#} | Some p \<Rightarrow> {#p#})"
  by (simp add: collected_def dropped_def split: option.split)

lemma raw_finish:
  "raw_payload v (ni_finish i w s) = (if v = w then {#} else raw_payload v s)"
  by (simp add: raw_payload_def)

lemma two_which: "(\<forall>w. P w) \<longleftrightarrow> P NiSupl \<and> P NiSuplEs"
  using ni_which.exhaust by metis

lemma ni_payloads_split:
  "ni_payloads s = mset (ni_freed s) + mset (map snd (ni_informs s)) + sum_list (map pc_payload (ni_threads s)) +
     (raw_payload w s + raw_payload (if w = NiSupl then NiSuplEs else NiSupl) s)"
  by (cases w) (simp_all add: ni_payloads_def ac_simps)

lemma payloads_finish:
  assumes "i < length (ni_threads s)" and "pc_payload (ni_threads s ! i) = {#}"
  shows "ni_payloads (ni_finish i w s) = ni_payloads s"
proof -
  let ?f = "sum_list (map pc_payload ((ni_threads s)[i := (w, NiTail (collected (session s w)))]))"
  have f: "?f = sum_list (map pc_payload (ni_threads s)) + pc_payload (w, NiTail (collected (session s w)))"
    using sum_list_map_update [OF assms(1), of pc_payload] assms(2) by simp
  have c: "pc_payload (w, NiTail (collected (session s w))) + mset (dropped (session s w)) = raw_payload w s"
    using collected_payload [of w "session s w"] by (simp add: raw_payload_def)
  show ?thesis
    unfolding ni_payloads_split [where w = w] ni_finish_simps f raw_finish
    by (simp add: c [symmetric] ac_simps)
qed

lemma ni_inv_finish:
  assumes "ni_inv s given" and "i < length (ni_threads s)" and "ni_threads s ! i = (w, pc)" and "\<forall>m. pc \<noteq> NiTail m"
  shows "ni_inv (ni_finish i w s) given"
proof -
  have pc: "pc_payload (ni_threads s ! i) = {#}" using assms(3,4) by (cases pc) simp_all
  have "ni_live v (ni_finish i w s)" if "v \<noteq> w" "ni_live v s" for v
    using that assms(3) in_set_update_other [of _ "ni_threads s" i] by (auto simp: ni_live_def)
  then show ?thesis
    using assms(1) payloads_finish [OF assms(2) pc, of w] by (simp add: ni_inv_def)
qed

lemma ni_inv_upd:
  assumes "ni_inv s given" and "\<forall>v. rawRequest (session s' v) = rawRequest (session s v)"
    and "ni_notify_cb s' = ni_notify_cb s" "ni_threads s' = ni_threads s" "ni_informs s' = ni_informs s" "ni_freed s' = ni_freed s"
  shows "ni_inv s' given"
  using assms by (simp add: ni_inv_def ni_payloads_def raw_payload_def ni_live_def)

lemma ni_inv_thread:
  assumes "ni_inv s given" and i: "i < length (ni_threads s)"
  shows "ni_inv (ni_thread_step i timed_out s) given"
proof -
  obtain w pc where t: "ni_threads s ! i = (w, pc)" by fastforce
  show ?thesis
  proof (cases pc)
    case NiStart
    show ?thesis
    proof (cases "respRecvd (session s w)")
      case True
      with NiStart t ni_inv_finish [OF assms t] show ?thesis by (simp add: ni_thread_step_def)
    next
      case False
      have "ni_live v (set_thread i (w, NiWait) s)" if "ni_live v s" for v
        using that t NiStart in_set_update_other [of _ "ni_threads s" i "(w, NiWait)"] set_update_memI [OF i, of "(w, NiWait)"]
        by (cases "v = w") (auto simp: ni_live_def)
      moreover have "ni_payloads (set_thread i (w, NiWait) s) = ni_payloads s"
        using sum_list_map_update [OF i, of pc_payload "(w, NiWait)"] t NiStart
        by (simp add: ni_payloads_def raw_payload_def)
      ultimately have "ni_inv (set_thread i (w, NiWait) s) given"
        using assms(1) by (simp add: ni_inv_def)
      with False NiStart t show ?thesis by (simp add: ni_thread_step_def)
    qed
  next
    case NiWait
    let ?s = "upd_session w (\<lambda>x. x\<lparr>resp := GPS_NI_RESPONSE_NORESP\<rparr>) s"
    have "ni_inv ?s given" by (rule ni_inv_upd [OF assms(1)]) simp_all
    then have "ni_inv (ni_finish i w ?s) given" using t i NiWait by (intro ni_inv_finish [where pc = NiWait]) simp_all
    with NiWait t assms(1) ni_inv_finish [OF assms t] show ?thesis by (simp add: ni_thread_step_def)
  next
    case (NiTail msg)
    let ?ts = "take i (ni_threads s) @ drop (i + 1) (ni_threads s)"
    let ?s = "ni_thread_step i timed_out s"
    have f: "session ?s v = (if v = w then (session s w)\<lparr>respTimeLeft := 0, reqID := 0\<rparr> else session s v)"
      "ni_threads ?s = ?ts" "ni_freed ?s = ni_freed s" "ni_notify_cb ?s = ni_notify_cb s"
      "ni_informs ?s = ni_informs s @ (case msg of None \<Rightarrow> [] | Some m \<Rightarrow> [m])" for v
      using t NiTail by (simp_all add: ni_thread_step_def Let_def split: option.split)
    have "mset (map snd (ni_informs ?s)) = mset (map snd (ni_informs s)) + pc_payload (w, NiTail msg)"
      by (cases msg) (auto simp: f)
    then have "ni_payloads ?s = ni_payloads s"
      using sum_list_map_remove [OF i, of pc_payload] t NiTail
      by (simp add: ni_payloads_def f raw_payload_def ac_simps)
    moreover have "ni_live v ?s" if "ni_live v s" for v
      using that t NiTail in_set_remove_other [of _ "ni_threads s" i] by (auto simp: ni_live_def f)
    ultimately show ?thesis using assms(1) by (simp add: ni_inv_def f)
  qed
qed

lemma ni_inv_request:
  assumes "ni_inv s given"
  shows "ni_inv (loc_eng_ni_request_handler True notif (Some p) s) (given @ [p])"
proof -
  have cb: "ni_notify_cb s" using assms by (simp add: ni_inv_def)
  have refused: "ni_inv (ni_free (Some p) s) (given @ [p])"
    using assms by (simp add: ni_inv_def ni_payloads_def raw_payload_def ni_live_def)
  have accepted: "ni_inv (ni_accept True notif (Some p) w s) (given @ [p])" if "rawRequest (session s w) = None" for w
  proof -
    let ?s = "ni_accept True notif (Some p) w s"
    have f: "rawRequest (session ?s v) = (if v = w then Some p else rawRequest (session s v))"
      "ni_threads ?s = ni_threads s @ [(w, NiStart)]" "ni_freed ?s = ni_freed s" "ni_notify_cb ?s = ni_notify_cb s"
      "ni_informs ?s = ni_informs s" for v
      by (simp_all add: ni_accept_def Let_def upd_session_def)
    have "ni_payloads ?s = add_mset p (ni_payloads s)"
      using that unfolding ni_payloads_split [where w = w] by (simp add: f raw_payload_def)
    moreover have "ni_live v ?s" if "v = w \<or> ni_live v s" for v
      using that by (auto simp: ni_live_def f)
    ultimately show ?thesis using assms by (simp add: ni_inv_def f)
  qed
  show ?thesis
    using cb refused accepted [of NiSupl] accepted [of NiSuplEs] by (auto simp: loc_eng_ni_request_handler_def)
qed

lemma ni_inv_reset_session:
  assumes "ni_inv s given"
  shows "ni_inv (reset_session w s) given"
proof (cases "rawRequest (session s w)")
  case (Some p)
  have "ni_payloads (reset_session w s) = ni_payloads s"
    using Some unfolding ni_payloads_split [where w = w] by (simp add: reset_session_def raw_payload_def)
  moreover have "rawRequest (session (reset_session w s) v) = (if v = w then None else rawRequest (session s v))"
    "ni_threads (reset_session w s) = ni_threads s" "ni_notify_cb (reset_session w s) = ni_notify_cb s" for v
    using Some by (simp_all add: reset_session_def)
  ultimately show ?thesis using assms by (simp add: ni_inv_def ni_live_def)
qed (use assms in \<open>simp add: reset_session_def\<close>)

lemma ni_inv_respond:
  assumes "ni_inv s given"
  shows "ni_inv (loc_eng_ni_respond i r s) given"
  by (rule ni_inv_upd [OF assms]) (simp_all add: loc_eng_ni_respond_def set_response_def Let_def)

lemma ni_run_inv: "ni_run s given \<Longrightarrow> ni_inv s given"
proof (induction rule: ni_run.induct)
  case init
  show ?case
    by (simp add: ni_inv_def loc_eng_ni_init_def ni_zero_def ni_payloads_def raw_payload_def upd_session_def init_session_def)
next
  case (reset s given)
  then show ?case by (simp add: loc_eng_ni_reset_on_engine_restart_def ni_inv_reset_session)
qed (simp_all add: ni_inv_request ni_inv_respond ni_inv_thread)

section \<open>Properties\<close>


text \<open>The answers that threads have collected and are about to post.\<close>

definition ni_pending :: "ni_state \<Rightarrow> (GpsUserResponse \<times> nat) list" where
  "ni_pending s = concat (map (\<lambda>t. case snd t of NiTail (Some m) \<Rightarrow> [m] | _ \<Rightarrow> []) (ni_threads s))"



abbreviation ni_notif :: "int \<Rightarrow> GpsNiNotification" where
  "ni_notif type \<equiv> \<lparr>notification_id = 0, ni_type = type, notify_flags = 3, ni_timeout = 30\<rparr>"

definition ni_example :: ni_state where
  "ni_example = loc_eng_ni_request_handler True (ni_notif 1) (Some 7) (loc_eng_ni_init (Some True) ni_zero)"

lemma ni_example_run: "ni_run ni_example [7]"
  using ni_run.request [OF ni_run.init, of "ni_notif 1" 7] by (simp add: ni_example_def)

lemma ni_example_threads: "ni_threads ni_example = [(NiSupl, NiStart)]"
  by (simp add: ni_example_def loc_eng_ni_request_handler_def ni_accept_def Let_def loc_eng_ni_init_def
      ni_zero_def upd_session_def init_session_def GPS_NI_TYPE_EMERGENCY_SUPL_def GPS_NI_PRIVACY_OVERRIDE_def)


lemma ni_finish_payload:
  assumes "rawRequest (session s w) = Some p"
  shows "rawRequest (session (ni_finish i w s) w) = None"
    and "p \<in> set (ni_freed (ni_finish i w s)) \<or>
      i < length (ni_threads s) \<longrightarrow> p \<in> set (ni_freed (ni_finish i w s)) \<or> p \<in> set (map snd (ni_pending (ni_finish i w s)))"
proof -
  show "rawRequest (session (ni_finish i w s) w) = None" by simp
  have "p \<in> set (map snd (ni_pending (ni_finish i w s)))"
    if "i < length (ni_threads s)" "resp (session s w) \<noteq> GPS_NI_RESPONSE_IGNORE"
  proof -
    have "(w, NiTail (Some (resp (session s w), p))) \<in> set (ni_threads (ni_finish i w s))"
      using that assms set_update_memI [OF that(1), of "(w, NiTail (Some (resp (session s w), p)))"]
      by (simp add: collected_def)
    then show ?thesis by (force simp: ni_pending_def)
  qed
  then show "p \<in> set (ni_freed (ni_finish i w s)) \<or>
      i < length (ni_threads s) \<longrightarrow> p \<in> set (ni_freed (ni_finish i w s)) \<or> p \<in> set (map snd (ni_pending (ni_finish i w s)))"
    using assms by (auto simp: dropped_def)
qed

text \<open>A pending request cannot be stuck: whatever has happened before, some thread works for its
  session, and if that thread's wait runs out, after at most two of its steps the session is free again
  and the payload is freed or in an answer for the modem.\<close>

theorem ni_timeout_answers:
  assumes "ni_run s given" and "rawRequest (session s w) = Some p"
  shows "\<exists>i n. i < length (ni_threads s) \<and> n \<le> 2 \<and>
    (let s' = (ni_thread_step i True ^^ n) s
     in rawRequest (session s' w) = None \<and> p \<in> set (ni_freed s') \<union> set (map snd (ni_pending s')))"
proof -
  have "ni_live w s" using ni_run_inv [OF assms(1)] assms(2) by (simp add: ni_inv_def)
  then obtain i pc where i: "i < length (ni_threads s)" "ni_threads s ! i = (w, pc)" "pc = NiStart \<or> pc = NiWait"
    by (auto simp: ni_live_def in_set_conv_nth)
  let ?noresp = "upd_session w (\<lambda>x. x\<lparr>resp := GPS_NI_RESPONSE_NORESP\<rparr>)"
  have fin: "rawRequest (session (ni_finish i w t) w) = None \<and>
      p \<in> set (ni_freed (ni_finish i w t)) \<union> set (map snd (ni_pending (ni_finish i w t)))"
    if "rawRequest (session t w) = Some p" "i < length (ni_threads t)" for t
    using ni_finish_payload [OF that(1), of i] that(2) by blast
  consider "pc = NiWait" | "pc = NiStart" "respRecvd (session s w)" | "pc = NiStart" "\<not> respRecvd (session s w)"
    using i(3) by blast
  then show ?thesis
  proof cases
    case 1
    then have "(ni_thread_step i True ^^ 1) s = ni_finish i w (?noresp s)"
      using i(2) by (simp add: ni_thread_step_def)
    moreover have "rawRequest (session (?noresp s) w) = Some p" "i < length (ni_threads (?noresp s))"
      using assms(2) i(1) by simp_all
    ultimately show ?thesis using fin [of "?noresp s"] i(1)
      by (intro exI [of _ i] exI [of _ 1]) (simp only: Let_def, simp)
  next
    case 2
    then have "(ni_thread_step i True ^^ 1) s = ni_finish i w s" using i(2) by (simp add: ni_thread_step_def)
    then show ?thesis using fin [OF assms(2) i(1)] i(1)
      by (intro exI [of _ i] exI [of _ 1]) (simp only: Let_def, simp)
  next
    case 3
    let ?t = "set_thread i (w, NiWait) s"
    have "ni_thread_step i True s = ?t" using 3 i(2) by (simp add: ni_thread_step_def)
    moreover have "ni_thread_step i True ?t = ni_finish i w (?noresp ?t)"
      using i(1) by (simp add: ni_thread_step_def)
    ultimately have "(ni_thread_step i True ^^ 2) s = ni_finish i w (?noresp ?t)"
      by (simp add: numeral_2_eq_2)
    moreover have "rawRequest (session (?noresp ?t) w) = Some p" "i < length (ni_threads (?noresp ?t))"
      using assms(2) i(1) by simp_all
    ultimately show ?thesis using fin [of "?noresp ?t"] i(1)
      by (intro exI [of _ i] exI [of _ 2]) (simp only: Let_def, simp)
  qed
qed

lemma ni_timeout_answers_witness:
  "\<exists>i n. i < length (ni_threads ni_example) \<and> n \<le> 2 \<and>
    rawRequest (session ((ni_thread_step i True ^^ n) ni_example) NiSupl) = None"
proof -
  have "rawRequest (session ni_example NiSupl) = Some 7"
    by (simp add: ni_example_def loc_eng_ni_request_handler_def ni_accept_def Let_def loc_eng_ni_init_def
        ni_zero_def upd_session_def init_session_def GPS_NI_TYPE_EMERGENCY_SUPL_def GPS_NI_PRIVACY_OVERRIDE_def)
  from ni_timeout_answers [OF ni_example_run this] show ?thesis by (auto simp: Let_def)
qed




text \<open>The example with its thread in the wait.\<close>

definition ni_waiting :: ni_state where
  "ni_waiting = ni_thread_step 0 False ni_example"

lemmas ni_example_defs = ni_example_def ni_waiting_def loc_eng_ni_request_handler_def ni_accept_def Let_def
  loc_eng_ni_init_def ni_zero_def upd_session_def init_session_def GPS_NI_TYPE_EMERGENCY_SUPL_def
  GPS_NI_PRIVACY_OVERRIDE_def ni_thread_step_def set_thread_def


text \<open>At most one request of each kind is in progress, and an ordinary one also waits for an emergency
  one: a request that comes meanwhile is refused, which frees its payload, notifies nobody and changes
  nothing else; otherwise it is accepted with a fresh id, the client is notified with that id, and a
  thread is started that waits five seconds longer than the notification says (or than 20 seconds).\<close>

theorem ni_request_admission:
  assumes "ni_notify_cb s"
  defines "es n \<equiv> ni_type n = GPS_NI_TYPE_EMERGENCY_SUPL"
  defines "busy n \<equiv> rawRequest (session s NiSuplEs) \<noteq> None \<or> \<not> es n \<and> rawRequest (session s NiSupl) \<noteq> None"
  shows "let s' = loc_eng_ni_request_handler True n (Some p) s; w = (if es n then NiSuplEs else NiSupl)
    in if busy n then s' = s\<lparr>ni_freed := ni_freed s @ [p]\<rparr>
       else ni_notified s' = ni_notified s @ [n\<lparr>notification_id := reqIDCounter s + 1\<rparr>] \<and>
         rawRequest (session s' w) = Some p \<and> reqID (session s' w) = reqIDCounter s + 1 \<and>
         respTimeLeft (session s' w) = (if ni_timeout n = 0 then 25 else 5 + ni_timeout n) \<and>
         ni_threads s' = ni_threads s @ [(w, NiStart)] \<and> ni_freed s' = ni_freed s"
  using assms(1) unfolding busy_def es_def
  by (auto simp: loc_eng_ni_request_handler_def ni_accept_def Let_def upd_session_def ni_free_def
      LOC_NI_NO_RESPONSE_TIME_def)

lemma ni_request_admission_witness:
  "loc_eng_ni_request_handler True (ni_notif 1) (Some 8) ni_waiting = ni_waiting\<lparr>ni_freed := [8]\<rparr>"
proof -
  have w: "ni_notify_cb ni_waiting" "rawRequest (session ni_waiting NiSupl) = Some 7" "ni_freed ni_waiting = []"
    by (simp_all add: ni_example_defs)
  show ?thesis
    using ni_request_admission [OF w(1), of "ni_notif 1" 8] w(2,3)
    by (simp add: Let_def GPS_NI_TYPE_EMERGENCY_SUPL_def)
qed

section \<open>Races between sessions\<close>

text \<open>
  The tail of a thread runs after the unlock and clears the id of its session.  When the next request
  is accepted in between, its id is lost, and the user's response to it is taken for an inactive one.
\<close>

definition ni_lost_id :: ni_state where
  "ni_lost_id =
     ni_thread_step 0 False (loc_eng_ni_request_handler True (ni_notif 1) (Some 8)
       (ni_thread_step 0 False (loc_eng_ni_respond 1 GPS_NI_RESPONSE_DENY ni_waiting)))"

lemma stale_tail_loses_response:
  "rawRequest (session ni_lost_id NiSupl) = Some 8 \<and>
   notification_id (last (ni_notified ni_lost_id)) = 2 \<and>
   loc_eng_ni_respond 2 GPS_NI_RESPONSE_ACCEPT ni_lost_id = ni_lost_id"
  by (simp add: ni_lost_id_def ni_example_defs loc_eng_ni_respond_def set_response_def ni_finish_def ni_collect_def)

text \<open>
  A reset frees the request and raises the flag for its thread.  When the next request of the session
  comes before that thread has seen the flag, the thread answers the new request, with a response
  that nobody gave.
\<close>

definition ni_after_reset :: ni_state where
  "ni_after_reset =
     ni_thread_step 0 False (ni_thread_step 0 False
       (loc_eng_ni_request_handler True (ni_notif 1) (Some 8) (loc_eng_ni_reset_on_engine_restart ni_waiting)))"

lemma reset_answers_next_request:
  "ni_informs ni_after_reset = [(GPS_NI_RESPONSE_UNSET, 8)]"
  by (simp add: ni_after_reset_def ni_example_defs loc_eng_ni_reset_on_engine_restart_def reset_session_def
      ni_free_def ni_finish_def ni_collect_def)

end
