(* ===== verification/Loc_Cfg.thy ===== *)
theory Loc_Cfg
  imports Complex_Main Prelude
begin

text \<open>
  \<^verbatim>\<open>loc_cfg.cpp\<close> and \<^verbatim>\<open>loc_misc_utils.cpp\<close>: configuration text is split into lines of a name, an
  equals sign and a value, and a table says which cells of which type the names stand for.  Memory
  is a map from cells to typed contents; text has no NUL inside.  The C library functions in use
  (\<^verbatim>\<open>strtok_r\<close>, \<^verbatim>\<open>strtol\<close>, \<^verbatim>\<open>atof\<close>, \<^verbatim>\<open>fgets\<close>) are modelled first; doubles are rationals.
\<close>

section \<open>Characters and library functions\<close>

definition isspace :: "char \<Rightarrow> bool" where
  "isspace c = (let n = of_char c :: nat in n = 32 \<or> 9 \<le> n \<and> n \<le> 13)"

abbreviation newline :: char where
  "newline \<equiv> CHR 0x0A"

text \<open>\<^verbatim>\<open>strtok_r\<close> with one delimiter: the token and what is left after its delimiter.\<close>

definition strtok :: "char \<Rightarrow> string \<Rightarrow> (string \<times> string) option" where
  "strtok d s =
     (let t = dropWhile (\<lambda>c. c = d) s
      in if t = [] then None else Some (takeWhile (\<lambda>c. c \<noteq> d) t, drop 1 (dropWhile (\<lambda>c. c \<noteq> d) t)))"

definition digit_val :: "char \<Rightarrow> int" where
  "digit_val c =
     (let n = of_char c :: int
      in if 48 \<le> n \<and> n \<le> 57 then n - 48 else if 97 \<le> n \<and> n \<le> 102 then n - 87
         else if 65 \<le> n \<and> n \<le> 70 then n - 55 else 99)"

text \<open>The value of the leading digits of a base.\<close>

fun digits :: "int \<Rightarrow> int \<Rightarrow> string \<Rightarrow> int" where
  "digits base acc [] = acc"
| "digits base acc (c # s) = (if digit_val c < base then digits base (acc * base + digit_val c) s else acc)"

definition sign :: "string \<Rightarrow> int \<times> string" where
  "sign s = (if take 1 s = ''-'' then (- 1, drop 1 s) else if take 1 s = ''+'' then (1, drop 1 s) else (1, s))"

text \<open>\<^verbatim>\<open>strtol\<close> with a 32-bit \<open>long\<close>: a value out of range saturates.\<close>

definition strtol :: "int \<Rightarrow> string \<Rightarrow> int" where
  "strtol base s =
     (case sign (dropWhile isspace s) of
        (sg, t) \<Rightarrow>
          let u = (if base = 16 \<and> (take 2 t = ''0x'' \<or> take 2 t = ''0X'') then drop 2 t else t)
          in max (- (2 ^ 31)) (min (2 ^ 31 - 1) (sg * digits base 0 u)))"

definition atoi :: "string \<Rightarrow> int" where
  "atoi s = strtol 10 s"

abbreviation is_dec :: "char \<Rightarrow> bool" where
  "is_dec c \<equiv> digit_val c < 10"

text \<open>\<^verbatim>\<open>atof\<close> of decimal numbers with an optional fraction and exponent.\<close>

definition atof :: "string \<Rightarrow> rat" where
  "atof s =
     (case sign (dropWhile isspace s) of
        (sg, t) \<Rightarrow>
          let ip = takeWhile is_dec t; r = dropWhile is_dec t;
              (fp, r2) = (if take 1 r = ''.'' then (takeWhile is_dec (drop 1 r), dropWhile is_dec (drop 1 r)) else ([], r));
              (es, et) = (if take 1 r2 = ''e'' \<or> take 1 r2 = ''E'' then sign (drop 1 r2) else (1, []));
              m = rat_of_int (digits 10 0 (ip @ fp)) / 10 ^ length fp;
              e = nat (digits 10 0 et)
          in rat_of_int sg * (if es < 0 then m / 10 ^ e else m * 10 ^ e))"

text \<open>\<^verbatim>\<open>fgets\<close>: up to and with a line end, at most \<open>n - 1\<close> characters.\<close>

definition fgets :: "nat \<Rightarrow> string \<Rightarrow> (string \<times> string) option" where
  "fgets n content =
     (if content = [] then None
      else let l = takeWhile (\<lambda>c. c \<noteq> newline) content;
               line = take (n - 1) (l @ take 1 (drop (length l) content))
           in Some (line, drop (length line) content))"

section \<open>Helpers of loc_misc_utils\<close>

text \<open>\<^verbatim>\<open>loc_util_trim_space\<close>: what is shifted to the left so far, and the end of its last non-space.\<close>

fun trim_loop :: "string \<Rightarrow> bool \<Rightarrow> string \<Rightarrow> nat option \<Rightarrow> nat option \<times> string" where
  "trim_loop [] first_nonspace written last_nonspace = (last_nonspace, written)"
| "trim_loop (c # scan) first_nonspace written last_nonspace =
     (let first' = (first_nonspace \<or> \<not> isspace c)
      in if first' then
           trim_loop scan first' (written @ [c]) (if \<not> isspace c then Some (length written + 1) else last_nonspace)
         else trim_loop scan first' written last_nonspace)"

definition loc_util_trim_space :: "string \<Rightarrow> string" where
  "loc_util_trim_space org_string =
     (case trim_loop org_string False [] None of
        (None, _) \<Rightarrow> org_string
      | (Some n, written) \<Rightarrow> take n written)"

text \<open>\<^verbatim>\<open>loc_util_split_string\<close>: the substrings; \<open>num\<close> of them are complete, \<open>cur\<close> is being read.\<close>

fun split_loop :: "int \<Rightarrow> char \<Rightarrow> int \<Rightarrow> string \<Rightarrow> string \<Rightarrow> string list" where
  "split_loop max_num_substrings delimiter num cur [] = [cur]"
| "split_loop max_num_substrings delimiter num cur (c # s) =
     (if c = delimiter then
        cur # (if num + 1 < max_num_substrings then split_loop max_num_substrings delimiter (num + 1) [] s else [])
      else split_loop max_num_substrings delimiter num (cur @ [c]) s)"

definition loc_util_split_string :: "string \<Rightarrow> int \<Rightarrow> char \<Rightarrow> int \<times> string list" where
  "loc_util_split_string raw_string max_num_substrings delimiter =
     (let ss = split_loop max_num_substrings delimiter 0 [] raw_string in (int (length ss), ss))"

section \<open>Tables and memory\<close>

definition LOC_MAX_PARAM_STRING :: nat where
  "LOC_MAX_PARAM_STRING = 80"

definition LOC_MAX_PARAM_LINE :: nat where
  "LOC_MAX_PARAM_LINE = 160"

datatype cfg_cell = CStr string | CInt u32 | CDouble rat | CFlag u8

record 'l loc_param_s =
  param_name :: string
  param_ptr :: "'l option"
  param_set :: "'l option"
  param_type :: char

record loc_param_v =
  v_name :: string
  v_str :: string
  v_int :: int
  v_double :: rat

text \<open>\<^verbatim>\<open>loc_set_config_entry\<close>: the returned value and the memory.\<close>

definition mark_set :: "'l loc_param_s \<Rightarrow> ('l \<Rightarrow> cfg_cell) \<Rightarrow> 'l \<Rightarrow> cfg_cell" where
  "mark_set e m = (case param_set e of None \<Rightarrow> m | Some p \<Rightarrow> m(p := CFlag 1))"

definition loc_set_config_entry :: "'l loc_param_s \<Rightarrow> loc_param_v \<Rightarrow> ('l \<Rightarrow> cfg_cell) \<Rightarrow> int \<times> ('l \<Rightarrow> cfg_cell)" where
  "loc_set_config_entry e v m =
     (case param_ptr e of
        None \<Rightarrow> (- 1, m)
      | Some p \<Rightarrow>
          if param_name e \<noteq> v_name v then (- 1, m)
          else if param_type e = CHR ''s'' then
            (0, mark_set e (m(p := CStr (if v_str v = ''NULL'' then [] else take LOC_MAX_PARAM_STRING (v_str v)))))
          else if param_type e = CHR ''n'' then (0, mark_set e (m(p := CInt (word_of_int (v_int v)))))
          else if param_type e = CHR ''f'' then (0, mark_set e (m(p := CDouble (v_double v))))
          else (- 1, m))"

text \<open>The loop over the table: the number of entries set.\<close>

fun set_entries :: "'l loc_param_s list \<Rightarrow> loc_param_v \<Rightarrow> ('l \<Rightarrow> cfg_cell) \<Rightarrow> nat \<times> ('l \<Rightarrow> cfg_cell)" where
  "set_entries [] v m = (0, m)"
| "set_entries (e # es) v m =
     (case loc_set_config_entry e v m of
        (r, m1) \<Rightarrow> case set_entries es v m1 of (n, m2) \<Rightarrow> (if r = 0 then n + 1 else n, m2))"

text \<open>The numbers a value stands for; a hexadecimal value leaves the double at zero.\<close>

definition parse_value :: "string \<Rightarrow> string \<Rightarrow> loc_param_v" where
  "parse_value name s =
     (if length s \<ge> 3 \<and> s ! 0 = CHR ''0'' \<and> (s ! 1 = CHR ''x'' \<or> s ! 1 = CHR ''X'')
      then \<lparr>v_name = name, v_str = s, v_int = strtol 16 (drop 2 s), v_double = 0\<rparr>
      else \<lparr>v_name = name, v_str = s, v_int = atoi s, v_double = atof s\<rparr>)"

definition loc_fill_conf_item :: "string \<Rightarrow> 'l loc_param_s list \<Rightarrow> ('l \<Rightarrow> cfg_cell) \<Rightarrow> nat \<times> ('l \<Rightarrow> cfg_cell)" where
  "loc_fill_conf_item input_buf table m =
     (case strtok CHR ''='' input_buf of
        None \<Rightarrow> (0, m)
      | Some (name, rest) \<Rightarrow>
          case strtok CHR ''='' rest of
            None \<Rightarrow> (0, m)
          | Some (s, _) \<Rightarrow>
              set_entries table (parse_value (loc_util_trim_space name) (loc_util_trim_space s)) m)"

section \<open>Reading files and updates\<close>

lemma fgets_shorter: "fgets n content = Some (line, rest) \<Longrightarrow> 2 \<le> n \<Longrightarrow> length rest < length content"
proof -
  assume a: "fgets n content = Some (line, rest)" "2 \<le> n"
  let ?l = "takeWhile (\<lambda>c. c \<noteq> newline) content"
  have c: "content \<noteq> []" using a(1) by (auto simp: fgets_def)
  have "?l @ take 1 (drop (length ?l) content) \<noteq> []" using c by (cases content) auto
  then have "line \<noteq> []" using a by (auto simp: fgets_def Let_def split: if_splits)
  moreover have "rest = drop (length line) content" using a(1) c by (auto simp: fgets_def Let_def split: if_splits)
  ultimately show "length rest < length content" using c by simp
qed

text \<open>The loop of \<^verbatim>\<open>loc_read_conf_r\<close>; \<open>num_params\<close> is an \<open>unsigned int\<close>.\<close>

function read_loop :: "'l loc_param_s list \<Rightarrow> u32 \<Rightarrow> string \<Rightarrow> ('l \<Rightarrow> cfg_cell) \<Rightarrow> 'l \<Rightarrow> cfg_cell" where
  "read_loop table num_params content m =
     (if num_params = 0 then m
      else case fgets LOC_MAX_PARAM_LINE content of
             None \<Rightarrow> m
           | Some (input_buf, rest) \<Rightarrow>
               (case loc_fill_conf_item input_buf table m of
                  (n, m1) \<Rightarrow> read_loop table (num_params - of_nat n) rest m1))"
  by pat_completeness auto
termination
  by (relation "measure (\<lambda>(table, num_params, content, m). length content)")
    (auto dest!: fgets_shorter simp: LOC_MAX_PARAM_LINE_def)

declare read_loop.simps [simp del]

definition clear_valid :: "'l loc_param_s list \<Rightarrow> ('l \<Rightarrow> cfg_cell) \<Rightarrow> 'l \<Rightarrow> cfg_cell" where
  "clear_valid table m = fold (\<lambda>e m. case param_set e of None \<Rightarrow> m | Some p \<Rightarrow> m(p := CFlag 0)) table m"

definition loc_read_conf_r :: "string option \<Rightarrow> 'l loc_param_s list \<Rightarrow> ('l \<Rightarrow> cfg_cell) \<Rightarrow> int \<times> ('l \<Rightarrow> cfg_cell)" where
  "loc_read_conf_r conf_fp table m =
     (case conf_fp of
        None \<Rightarrow> (- 1, m)
      | Some content \<Rightarrow> (0, read_loop table (of_nat (length table)) content (clear_valid table m)))"

text \<open>\<^verbatim>\<open>loc_read_conf\<close>: the caller's table, then the logging parameters from the start of the file.\<close>

datatype log_param = DEBUG_LEVEL | TIMESTAMP

definition loc_param_table :: "log_param loc_param_s list" where
  "loc_param_table =
     [\<lparr>param_name = ''DEBUG_LEVEL'', param_ptr = Some DEBUG_LEVEL, param_set = None, param_type = CHR ''n''\<rparr>,
      \<lparr>param_name = ''TIMESTAMP'', param_ptr = Some TIMESTAMP, param_set = None, param_type = CHR ''n''\<rparr>]"

definition loc_read_conf ::
  "string option \<Rightarrow> 'l loc_param_s list \<Rightarrow> ('l \<Rightarrow> cfg_cell) \<Rightarrow> (log_param \<Rightarrow> cfg_cell) \<Rightarrow>
   ('l \<Rightarrow> cfg_cell) \<times> (log_param \<Rightarrow> cfg_cell)" where
  "loc_read_conf conf_file table m lm =
     (case conf_file of
        None \<Rightarrow> (m, lm)
      | Some content \<Rightarrow>
          (if table \<noteq> [] then snd (loc_read_conf_r (Some content) table m) else m,
           snd (loc_read_conf_r (Some content) loc_param_table lm)))"

text \<open>\<^verbatim>\<open>loc_update_conf\<close>: the lines of a buffer, with one less than the table length to go.\<close>

lemma strtok_shorter: "strtok d s = Some (t, rest) \<Longrightarrow> length rest < length s"
proof -
  assume a: "strtok d s = Some (t, rest)"
  let ?t = "dropWhile (\<lambda>c. c = d) s"
  have t: "?t \<noteq> []" "rest = drop 1 (dropWhile (\<lambda>c. c \<noteq> d) ?t)"
    using a by (auto simp: strtok_def Let_def split: if_splits)
  have "hd ?t \<noteq> d" using t(1) hd_dropWhile by blast
  then have "length (dropWhile (\<lambda>c. c \<noteq> d) ?t) < length ?t"
    using t(1) length_dropWhile_le [of "\<lambda>c. c \<noteq> d" "tl ?t"] by (cases ?t) (auto simp: less_Suc_eq_le)
  then show "length rest < length s"
    using t(2) length_dropWhile_le [of "\<lambda>c. c = d" s] by simp
qed

function update_loop :: "'l loc_param_s list \<Rightarrow> u32 \<Rightarrow> string \<Rightarrow> int \<Rightarrow> ('l \<Rightarrow> cfg_cell) \<Rightarrow> int \<times> ('l \<Rightarrow> cfg_cell)" where
  "update_loop table num_params s ret m =
     (case strtok newline s of
        None \<Rightarrow> (ret, m)
      | Some (input_buf, rest) \<Rightarrow>
          if num_params = 0 then (ret, m)
          else (case loc_fill_conf_item input_buf table m of
                  (n, m1) \<Rightarrow> update_loop table (num_params - of_nat n) rest (ret + 1) m1))"
  by pat_completeness auto
termination
  by (relation "measure (\<lambda>(table, num_params, s, ret, m). length s)") (auto dest: strtok_shorter)

declare update_loop.simps [simp del]

definition loc_update_conf :: "string option \<Rightarrow> int \<Rightarrow> 'l loc_param_s list \<Rightarrow> ('l \<Rightarrow> cfg_cell) \<Rightarrow> int \<times> ('l \<Rightarrow> cfg_cell)" where
  "loc_update_conf conf_data len table m =
     (case conf_data of
        None \<Rightarrow> (- 1, m)
      | Some data \<Rightarrow>
          if len = 0 \<or> table = [] then (- 1, m)
          else update_loop table (of_nat (length table) - 1) (take (nat len) data) 0 m)"

section \<open>Trimming and splitting\<close>

definition rstrip :: "string \<Rightarrow> string" where
  "rstrip s = rev (dropWhile isspace (rev s))"

lemma rstrip_snoc: "rstrip (s @ [c]) = (if isspace c then rstrip s else s @ [c])"
  by (simp add: rstrip_def)

lemma rstrip_Cons:
  "rstrip (c # s) = (if \<forall>x \<in> set s. isspace x then (if isspace c then [] else [c]) else c # rstrip s)"
proof (induction s rule: rev_induct)
  case Nil
  then show ?case by (simp add: rstrip_def)
next
  case (snoc x s)
  then show ?case by (auto simp: rstrip_snoc simp flip: append_Cons)
qed

lemma length_rstrip: "length (rstrip s) \<le> length s"
  using length_dropWhile_le [of isspace "rev s"] by (simp add: rstrip_def)

lemma trim_loop_True:
  "trim_loop s True written lst =
     ((if \<forall>c \<in> set s. isspace c then lst else Some (length written + length (rstrip s))), written @ s)"
  by (induction s arbitrary: written lst) (auto simp: rstrip_Cons)

lemma trim_loop_False:
  "trim_loop s False [] None =
     (if \<forall>c \<in> set s. isspace c then (None, []) else trim_loop (dropWhile isspace s) True [] None)"
  by (induction s) (auto simp: trim_loop_True rstrip_Cons)

lemma rstrip_take: "take (length (rstrip s)) s = rstrip s"
  by (induction s rule: rev_induct) (auto simp: rstrip_snoc length_rstrip rstrip_def [of "[]"])

lemma trim_space_eq:
  "loc_util_trim_space s = (if \<forall>c \<in> set s. isspace c then s else rstrip (dropWhile isspace s))"
proof (cases "\<forall>c \<in> set s. isspace c")
  case True
  then show ?thesis by (simp add: loc_util_trim_space_def trim_loop_False)
next
  case False
  then have nd: "\<not> (\<forall>c \<in> set (dropWhile isspace s). isspace c)"
    by (metis set_dropWhileD hd_dropWhile dropWhile_eq_Nil_conv list.set_sel(1))
  then show ?thesis
    unfolding loc_util_trim_space_def trim_loop_False trim_loop_True if_not_P [OF False] if_not_P [OF nd]
    by (simp add: rstrip_take)
qed

lemma rstrip_last: "s \<noteq> [] \<Longrightarrow> \<not> isspace (last s) \<Longrightarrow> rstrip s = s"
  by (cases s rule: rev_cases) (auto simp: rstrip_snoc)

fun join :: "char \<Rightarrow> string list \<Rightarrow> string" where
  "join d [] = []"
| "join d [s] = s"
| "join d (s # ss) = s @ d # join d ss"

lemma split_loop_ne: "split_loop k d num cur s \<noteq> []"
  by (induction k d num cur s rule: split_loop.induct) simp_all

lemma join_Cons: "ss \<noteq> [] \<Longrightarrow> join d (x # ss) = x @ d # join d ss"
  by (cases ss) simp_all

lemma split_loop_join:
  "d \<notin> set cur \<Longrightarrow>
   (\<forall>x \<in> set (split_loop k d num cur s). d \<notin> set x) \<and>
   int (length (split_loop k d num cur s)) \<le> max 1 (k - num) \<and>
   (\<exists>rest. cur @ s = join d (split_loop k d num cur s) @ rest \<and>
      (rest = [] \<or> hd rest = d \<and> k \<le> num + int (length (split_loop k d num cur s))))"
proof (induction k d num cur s rule: split_loop.induct)
  case (2 k d num cur c s)
  show ?case
  proof (cases "c = d \<and> num + 1 < k")
    case True
    let ?ss = "split_loop k d (num + 1) [] s"
    from True 2 have IH: "\<forall>x \<in> set ?ss. d \<notin> set x" "int (length ?ss) \<le> max 1 (k - (num + 1))"
      "\<exists>rest. s = join d ?ss @ rest \<and> (rest = [] \<or> hd rest = d \<and> k \<le> num + 1 + int (length ?ss))"
      by auto
    have j: "join d (cur # ?ss) = cur @ d # join d ?ss" by (simp add: join_Cons split_loop_ne)
    from IH(3) obtain rest where r: "s = join d ?ss @ rest" "rest = [] \<or> hd rest = d \<and> k \<le> num + 1 + int (length ?ss)"
      by blast
    have "cur @ c # s = join d (cur # ?ss) @ rest" using True r(1) unfolding j by simp
    with True IH(1,2) r(2) 2(3) show ?thesis by (auto intro!: exI [of _ rest])
  next
    case False
    then show ?thesis using 2 by (cases "c = d") auto
  qed
qed auto

text \<open>Splitting a string loses nothing: the number returned is the number of substrings, which is at
  most the given maximum (and at least one), no substring holds the delimiter, and joining them with the
  delimiter gives the string back, up to a remainder that begins with a delimiter and is left only when
  the maximum was reached.\<close>

theorem split_string_roundtrip:
  "case loc_util_split_string raw k d of (n, ss) \<Rightarrow>
     n = int (length ss) \<and> 1 \<le> n \<and> n \<le> max 1 k \<and> \<not> (\<exists>x \<in> set ss. d \<in> set x) \<and>
     (\<exists>rest. raw = join d ss @ rest \<and> (rest = [] \<or> hd rest = d \<and> k \<le> n))"
  using split_loop_join [of d "[]" k 0 raw] split_loop_ne [of k d 0 "[]" raw]
  by (cases "split_loop k d 0 [] raw") (auto simp: loc_util_split_string_def Let_def)

section \<open>Settings\<close>

definition cell_of :: "char \<Rightarrow> loc_param_v \<Rightarrow> cfg_cell" where
  "cell_of t v =
     (if t = CHR ''s'' then CStr (if v_str v = ''NULL'' then [] else take 80 (v_str v))
      else if t = CHR ''n'' then CInt (word_of_int (v_int v)) else CDouble (v_double v))"

definition settable :: "string \<Rightarrow> 'l loc_param_s \<Rightarrow> bool" where
  "settable name e \<longleftrightarrow> param_name e = name \<and> param_ptr e \<noteq> None \<and> param_type e \<in> set ''snf''"

text \<open>What a line of a name and a value means for a table.\<close>

definition apply_setting :: "'l loc_param_s list \<Rightarrow> string \<times> string \<Rightarrow> ('l \<Rightarrow> cfg_cell) \<Rightarrow> 'l \<Rightarrow> cfg_cell" where
  "apply_setting table nv m =
     (case List.find (settable (fst nv)) table of
        None \<Rightarrow> m
      | Some e \<Rightarrow> mark_set e (m(the (param_ptr e) := cell_of (param_type e) (parse_value (fst nv) (snd nv)))))"

lemma set_config_entry_eq:
  "loc_set_config_entry e v m =
     (if settable (v_name v) e then (0, mark_set e (m(the (param_ptr e) := cell_of (param_type e) v))) else (- 1, m))"
  by (auto simp: loc_set_config_entry_def settable_def cell_of_def LOC_MAX_PARAM_STRING_def split: option.split)

lemma set_entries_none: "\<forall>e \<in> set table. \<not> settable (v_name v) e \<Longrightarrow> set_entries table v m = (0, m)"
  by (induction table) (auto simp: set_config_entry_eq)

lemma parse_value_name [simp]: "v_name (parse_value n s) = n"
  by (simp add: parse_value_def)

lemma set_entries_eq:
  assumes "distinct (map param_name table)"
  shows "set_entries table (parse_value n s) m =
    (if \<exists>e \<in> set table. settable n e then 1 else 0, apply_setting table (n, s) m)"
  using assms
proof (induction table)
  case (Cons e es)
  show ?case
  proof (cases "settable n e")
    case True
    have "param_name e' \<noteq> n" if "e' \<in> set es" for e'
      using True Cons.prems imageI [OF that, of param_name] by (auto simp: settable_def)
    then have "\<forall>e' \<in> set es. \<not> settable n e'" by (simp add: settable_def)
    with True show ?thesis by (auto simp: set_config_entry_eq set_entries_none apply_setting_def)
  next
    case False
    then show ?thesis using Cons by (auto simp: set_config_entry_eq apply_setting_def)
  qed
qed (simp add: apply_setting_def)

definition conf_word :: "string \<Rightarrow> bool" where
  "conf_word w \<longleftrightarrow> w \<noteq> [] \<and> CHR ''='' \<notin> set w \<and> newline \<notin> set w \<and> \<not> isspace (hd w) \<and> \<not> isspace (last w)"

definition print_conf :: "(string \<times> string) list \<Rightarrow> string" where
  "print_conf nvs = concat (map (\<lambda>(n, v). n @ ''='' @ v @ [newline]) nvs)"

lemma trim_word: "conf_word w \<Longrightarrow> loc_util_trim_space w = w"
proof -
  assume w: "conf_word w"
  then have "dropWhile isspace w = w" by (cases w) (simp_all add: conf_word_def)
  moreover have "rstrip w = w" using w by (intro rstrip_last) (simp_all add: conf_word_def)
  ultimately show ?thesis by (simp add: trim_space_eq)
qed

lemma strtok_token: "w \<noteq> [] \<Longrightarrow> d \<notin> set w \<Longrightarrow> strtok d (w @ d # rest) = Some (w, rest)"
proof -
  assume w: "w \<noteq> []" "d \<notin> set w"
  then have "dropWhile (\<lambda>c. c = d) (w @ d # rest) = w @ d # rest" by (cases w) auto
  moreover have "takeWhile (\<lambda>c. c \<noteq> d) (w @ d # rest) = w" "dropWhile (\<lambda>c. c \<noteq> d) (w @ d # rest) = d # rest"
    using w(2) by (subst takeWhile_append2, auto) (subst dropWhile_append2, auto)
  ultimately show ?thesis using w(1) by (simp add: strtok_def)
qed

lemma strtok_end: "w \<noteq> [] \<Longrightarrow> d \<notin> set w \<Longrightarrow> strtok d w = Some (w, [])"
proof -
  assume w: "w \<noteq> []" "d \<notin> set w"
  have e: "dropWhile (\<lambda>c. c = d) w = w" "takeWhile (\<lambda>c. c \<noteq> d) w = w" "dropWhile (\<lambda>c. c \<noteq> d) w = []"
    using w by (cases w; auto)+
  show ?thesis unfolding strtok_def Let_def e using w(1) by simp
qed

lemma fill_line:
  assumes "conf_word n" and "conf_word v" and "distinct (map param_name table)"
  shows "loc_fill_conf_item (n @ ''='' @ v) table m =
    (if \<exists>e \<in> set table. settable n e then 1 else 0, apply_setting table (n, v) m)"
proof -
  have "strtok CHR ''='' (n @ ''='' @ v) = Some (n, v)"
    using assms(1) strtok_token [of n "CHR ''=''" v] by (simp add: conf_word_def)
  moreover have "strtok CHR ''='' v = Some (v, [])" using assms(2) by (intro strtok_end) (simp_all add: conf_word_def)
  ultimately show ?thesis
    using assms by (simp add: loc_fill_conf_item_def trim_word set_entries_eq)
qed

lemma update_loop_print:
  assumes "distinct (map param_name table)" and "length table < 2 ^ 32"
  shows "\<forall>(n, v) \<in> set nvs. conf_word n \<and> conf_word v \<Longrightarrow> length nvs \<le> k \<Longrightarrow> k < length table \<Longrightarrow>
    update_loop table (of_nat k) (print_conf nvs) ret m = (ret + int (length nvs), fold (apply_setting table) nvs m)"
proof (induction nvs arbitrary: k ret m)
  case Nil
  then show ?case by (subst update_loop.simps) (simp add: print_conf_def strtok_def)
next
  case (Cons nv nvs)
  obtain n v where nv: "nv = (n, v)" by fastforce
  with Cons.prems have w: "conf_word n" "conf_word v" by auto
  have "strtok newline (print_conf (nv # nvs)) = strtok newline ((n @ ''='' @ v) @ newline # print_conf nvs)"
    by (simp add: print_conf_def nv)
  also have "\<dots> = Some (n @ ''='' @ v, print_conf nvs)"
    using w by (intro strtok_token) (simp_all add: conf_word_def)
  finally have tok: "strtok newline (print_conf (nv # nvs)) = Some (n @ ''='' @ v, print_conf nvs)" .
  define h where "h = (if \<exists>e \<in> set table. settable n e then 1 else 0 :: nat)"
  have "k \<noteq> 0" "h \<le> k" "length nvs \<le> k - h" "k - h < length table" using Cons.prems by (auto simp: h_def)
  moreover have "(of_nat k :: u32) \<noteq> 0"
    using \<open>k \<noteq> 0\<close> Cons.prems(3) assms(2) by (simp add: word_of_nat_eq_0_iff) (meson dvd_imp_le gr0I leD order.strict_trans)
  moreover have "(of_nat k - of_nat h :: u32) = of_nat (k - h)" using \<open>h \<le> k\<close> by (simp add: of_nat_diff)
  moreover have "update_loop table (of_nat (k - h)) (print_conf nvs) (ret + 1) (apply_setting table nv m) =
      (ret + 1 + int (length nvs), fold (apply_setting table) nvs (apply_setting table nv m))"
    using Cons.prems calculation by (intro Cons.IH) auto
  ultimately show ?case
    using fill_line [OF w assms(1), of m] tok unfolding h_def [symmetric]
    by (subst update_loop.simps) (simp add: nv)
qed

section \<open>Properties\<close>

text \<open>Trimming agrees with removing the leading and the trailing white space, in one pass, for every
  string that has a character other than white space; a string of white space only is left as it is.\<close>

theorem trim_space_correct:
  "loc_util_trim_space s =
     (if list_all isspace s then s else rev (dropWhile isspace (rev (dropWhile isspace s))))"
  by (simp add: trim_space_eq rstrip_def list_all_iff)

text \<open>C38: Writing settings out as lines of a name, an equals sign and a value and updating from that text
  is applying the settings in order: every entry of the table that a line names gets the value converted
  to its type, nothing else changes, and the number of lines is returned, provided that there are fewer
  lines than entries and that names and values are words without an equals sign or a line end that
  neither start nor end with white space.\<close>

theorem conf_update_roundtrip:
  assumes "distinct (map param_name table)" and "length table < 2 ^ 32"
    and "list_all (\<lambda>(n, v). conf_word n \<and> conf_word v) nvs" and "nvs \<noteq> []" and "length nvs < length table"
  shows "loc_update_conf (Some (print_conf nvs)) (int (length (print_conf nvs))) table m =
    (int (length nvs), fold (apply_setting table) nvs m)"
proof -
  have "print_conf nvs \<noteq> []" using assms(4) by (cases nvs) (auto simp: print_conf_def)
  moreover have "table \<noteq> []" "length nvs \<le> length table - 1" "length table - 1 < length table" using assms(5) by auto
  moreover have "(of_nat (length table) - 1 :: u32) = of_nat (length table - 1)"
    using assms(5) by (simp add: of_nat_diff)
  ultimately show ?thesis
    using update_loop_print [OF assms(1,2), of nvs "length table - 1" 0 m] assms(3)
    by (simp add: loc_update_conf_def list_all_iff)
qed

definition conf_example :: "nat loc_param_s list" where
  "conf_example =
     [\<lparr>param_name = ''SUPL_VER'', param_ptr = Some 0, param_set = None, param_type = CHR ''n''\<rparr>,
      \<lparr>param_name = ''XTRA_SERVER_1'', param_ptr = Some 1, param_set = Some 2, param_type = CHR ''s''\<rparr>]"

lemma conf_update_roundtrip_witness:
  "loc_update_conf (Some (print_conf [(''SUPL_VER'', ''0x20000'')])) (int (length (print_conf [(''SUPL_VER'', ''0x20000'')])))
     conf_example (\<lambda>_. CInt 0) = (1, fold (apply_setting conf_example) [(''SUPL_VER'', ''0x20000'')] (\<lambda>_. CInt 0))"
proof -
  have "distinct (map param_name conf_example)" "length conf_example < 2 ^ 32"
    "list_all (\<lambda>(n, v). conf_word n \<and> conf_word v) [(''SUPL_VER'', ''0x20000'')]"
    "[(''SUPL_VER'', ''0x20000'')] \<noteq> []" "length [(''SUPL_VER'', ''0x20000'')] < length conf_example"
    by (simp_all add: conf_example_def conf_word_def isspace_def)
  from conf_update_roundtrip [OF this] show ?thesis by simp
qed

text \<open>A memory that fits the types of its cells: \<open>s\<close>, \<open>n\<close> and \<open>f\<close>, and \<open>v\<close> for validity flags.\<close>

definition cell_ok :: "char \<Rightarrow> cfg_cell \<Rightarrow> bool" where
  "cell_ok t c =
     (case c of
        CStr s \<Rightarrow> t = CHR ''s'' \<and> length s \<le> 80
      | CInt _ \<Rightarrow> t = CHR ''n''
      | CDouble _ \<Rightarrow> t = CHR ''f''
      | CFlag b \<Rightarrow> t = CHR ''v'' \<and> b \<le> 1)"

definition table_typed :: "('l \<Rightarrow> char) \<Rightarrow> 'l loc_param_s list \<Rightarrow> bool" where
  "table_typed T table \<longleftrightarrow> (\<forall>e \<in> set table.
     (\<forall>p. param_ptr e = Some p \<longrightarrow> T p = param_type e) \<and> (\<forall>p. param_set e = Some p \<longrightarrow> T p = CHR ''v''))"

definition mem_typed :: "('l \<Rightarrow> char) \<Rightarrow> ('l \<Rightarrow> cfg_cell) \<Rightarrow> bool" where
  "mem_typed T m \<longleftrightarrow> (\<forall>p. cell_ok (T p) (m p))"

lemma mem_typed_upd: "mem_typed T m \<Longrightarrow> cell_ok (T p) c \<Longrightarrow> mem_typed T (m(p := c))"
  by (simp add: mem_typed_def)

lemma cell_ok_simps [simp]:
  "cell_ok t (CStr s) \<longleftrightarrow> t = CHR ''s'' \<and> length s \<le> 80" "cell_ok t (CInt i) \<longleftrightarrow> t = CHR ''n''"
  "cell_ok t (CDouble d) \<longleftrightarrow> t = CHR ''f''" "cell_ok t (CFlag b) \<longleftrightarrow> t = CHR ''v'' \<and> b \<le> 1"
  by (simp_all add: cell_ok_def)

lemma set_entry_typed:
  assumes "table_typed T [e]" and "mem_typed T m"
  shows "mem_typed T (snd (loc_set_config_entry e v m))"
  using assms
  by (auto simp: loc_set_config_entry_def mark_set_def table_typed_def LOC_MAX_PARAM_STRING_def
      intro!: mem_typed_upd split: option.split)

lemma set_entries_typed: "table_typed T table \<Longrightarrow> mem_typed T m \<Longrightarrow> mem_typed T (snd (set_entries table v m))"
proof (induction table arbitrary: m)
  case (Cons e es)
  have "table_typed T [e]" "table_typed T es" using Cons.prems(1) by (simp_all add: table_typed_def)
  then show ?case
    using Cons.IH [of "snd (loc_set_config_entry e v m)"] Cons.prems(2) set_entry_typed [of T e m v]
    by (auto split: prod.split)
qed simp

lemma fill_typed: "table_typed T table \<Longrightarrow> mem_typed T m \<Longrightarrow> mem_typed T (snd (loc_fill_conf_item line table m))"
  by (auto simp: loc_fill_conf_item_def split: option.split intro: set_entries_typed)

lemma update_loop_typed:
  "table_typed T table \<Longrightarrow> mem_typed T m \<Longrightarrow> mem_typed T (snd (update_loop table k s ret m))"
proof (induction table k s ret m rule: update_loop.induct)
  case (1 table k s ret m)
  show ?case
  proof (cases "strtok newline s = None \<or> k = 0")
    case True
    then show ?thesis using "1.prems" by (subst update_loop.simps) (auto split: option.split prod.split)
  next
    case False
    then obtain line rest where t: "strtok newline s = Some (line, rest)" and k: "k \<noteq> 0" by auto
    obtain n m1 where f: "loc_fill_conf_item line table m = (n, m1)" by fastforce
    have "mem_typed T m1" using fill_typed [OF "1.prems", of line] f by simp
    then show ?thesis
      using "1.IH" [OF t refl k f [symmetric] "1.prems"(1)] t k f by (subst update_loop.simps) simp
  qed
qed

lemma read_loop_typed:
  "table_typed T table \<Longrightarrow> mem_typed T m \<Longrightarrow> mem_typed T (read_loop table k content m)"
proof (induction table k content m rule: read_loop.induct)
  case (1 table k content m)
  show ?case
  proof (cases "fgets LOC_MAX_PARAM_LINE content = None \<or> k = 0")
    case True
    then show ?thesis using "1.prems" by (subst read_loop.simps) auto
  next
    case False
    then obtain line rest where t: "fgets LOC_MAX_PARAM_LINE content = Some (line, rest)" and k: "k \<noteq> 0" by auto
    obtain n m1 where f: "loc_fill_conf_item line table m = (n, m1)" by fastforce
    have "mem_typed T m1" using fill_typed [OF "1.prems", of line] f by simp
    then show ?thesis
      using "1.IH" [OF k t refl f [symmetric] "1.prems"(1)] t k f by (subst read_loop.simps) simp
  qed
qed

lemma clear_valid_typed:
  assumes "table_typed T table" and "mem_typed T m"
  shows "mem_typed T (clear_valid table m)"
proof -
  have "mem_typed T (fold (\<lambda>e m. case param_set e of None \<Rightarrow> m | Some p \<Rightarrow> m(p := CFlag 0)) es m)"
    if "table_typed T es" "mem_typed T m" for es m
    using that
  proof (induction es arbitrary: m)
    case (Cons e es)
    have "table_typed T es" using Cons.prems(1) by (simp add: table_typed_def)
    moreover have "mem_typed T (case param_set e of None \<Rightarrow> m | Some p \<Rightarrow> m(p := CFlag 0))"
      using Cons.prems by (auto simp: table_typed_def intro!: mem_typed_upd split: option.split)
    ultimately show ?case using Cons.IH by simp
  qed simp
  then show ?thesis using assms by (simp add: clear_valid_def)
qed

lemma read_conf_typed:
  "table_typed T table \<Longrightarrow> mem_typed T m \<Longrightarrow> mem_typed T (fst (loc_read_conf file table m lm))"
  by (auto simp: loc_read_conf_def loc_read_conf_r_def intro!: read_loop_typed clear_valid_typed split: option.split)

lemma update_conf_typed:
  "table_typed T table \<Longrightarrow> mem_typed T m \<Longrightarrow> mem_typed T (snd (loc_update_conf data len table m))"
  by (auto simp: loc_update_conf_def intro!: update_loop_typed split: option.split)

text \<open>C31: No configuration text can break the types of the configuration: whatever a file or an update
  holds, every cell keeps the type its table entry says, text never exceeds the 80 characters that its
  buffer has room for, and validity flags stay zero or one.\<close>

theorem conf_types_preserved:
  assumes "table_typed T table" and "mem_typed T m"
  shows "mem_typed T (snd (loc_update_conf data len table m)) \<and> mem_typed T (fst (loc_read_conf file table m lm))"
  using assms update_conf_typed read_conf_typed by blast

definition conf_example_mem :: "nat \<Rightarrow> cfg_cell" where
  "conf_example_mem p = (if p = 1 then CStr [] else if p = 2 then CFlag 0 else CInt 0)"

lemma conf_types_preserved_witness:
  "mem_typed (\<lambda>p. if p = 1 then CHR ''s'' else if p = 2 then CHR ''v'' else CHR ''n'')
     (fst (loc_read_conf (Some ''XTRA_SERVER_1=host'') conf_example conf_example_mem (\<lambda>_. CInt 0)))"
proof -
  let ?T = "\<lambda>p. if p = 1 then CHR ''s'' else if p = 2 then CHR ''v'' else CHR ''n''"
  have "table_typed ?T conf_example" "mem_typed ?T conf_example_mem"
    by (simp_all add: table_typed_def conf_example_def mem_typed_def conf_example_mem_def)
  from conf_types_preserved [OF this] show ?thesis by blast
qed

text \<open>
  The update starts with one record less than the table has: an update of every entry drops the last
  line, although no line was wrong.
\<close>

lemma full_update_drops_last:
  "loc_update_conf (Some ''A=1'') 3 [\<lparr>param_name = ''A'', param_ptr = Some (0 :: nat), param_set = None, param_type = CHR ''n''\<rparr>] m
     = (0, m)"
  by (simp add: loc_update_conf_def update_loop.simps strtok_def)

end
