(* ===== verification/Eng_Adapter.thy ===== *)
theory Eng_Adapter
  imports Loc_Api Ni Loc_Cfg Agps
begin

text \<open>
  \<^verbatim>\<open>LocEngAdapter.cpp/.h\<close>, \<^verbatim>\<open>UlpProxyBase.h\<close> and the message types of \<^verbatim>\<open>loc_eng_msg.h\<close>: what
  stands between the location engine, the modem interface and the position fusion (ULP).  Calls down
  into the modem interface are recorded in order in \<open>modem_out\<close>, messages to the engine's thread are
  queued in \<open>adapter_msgs\<close>; what the modem answers and what a ULP that comes from another library
  does are parameters.
\<close>

section \<open>Calls into the modem interface\<close>

datatype LocServerType =
  LOC_AGPS_CDMA_PDE_SERVER | LOC_AGPS_CUSTOM_PDE_SERVER | LOC_AGPS_MPC_SERVER | LOC_AGPS_SUPL_SERVER

datatype xtra_version_check = DISABLED | AUTO | XTRA2 | XTRA3

datatype modem_call =
  StartFix LocPosMode
| StopFix
| DeleteAidingData "16 word"
| EnableData int
| SetAPN string
| InjectPosition rat rat rat
| SetXtraData string
| RequestXtraServer
| MAtlOpenStatus u32 int "string option" int int
| MAtlCloseStatus u32 int
| SetPositionMode LocPosMode
| SetServerUrl string
| SetServerIp u32 int LocServerType
| InformNiResponse GpsUserResponse nat
| SetSUPLVersion u32
| SetLPPConfig u32
| SetSensorControlConfig u32 u32
| SetSensorProperties "(u8 \<times> rat) list"
| SetSensorPerfControlConfig "u32 list"
| SetExtPowerConfig int
| SetAGLONASSProtocol u32
| InitDataServiceClient
| OpenAndStartDataCall
| StopDataCall
| MCloseDataCall
| SetTime int int int
| SetXtraVersionCheck xtra_version_check
| InstallAGpsCert "string list" u32
| SetInSession bool
| SetGpsLock u32
| UpdateRegistrationMask event_mask loc_registration_mask_status
| GnssConstellationConfig
| GetBestAvailableZppFix

section \<open>The position fusion\<close>

datatype ulp_call =
  sendStartFix
| sendStopFix
| sendFixMode LocPosMode
| UlpReportPosition ulp_location location_extended loc_sess_status u32
| UlpReportSv sv_status location_extended
| UlpReportStatus GpsStatusValue
| setCapabilities u32

text \<open>A proxy object: its identity, whether its class is from another library, and its two fields.\<close>

record ulp_proxy =
  ulp_obj :: nat
  ulp_foreign :: bool
  mPosMode :: LocPosMode
  mFixSet :: bool

definition UlpProxyBase_new :: "nat \<Rightarrow> ulp_proxy" where
  "UlpProxyBase_new obj =
     \<lparr>ulp_obj = obj, ulp_foreign = False, mPosMode = LocPosMode_default\<lparr>pm_mode := LOC_POSITION_MODE_INVALID\<rparr>, mFixSet = False\<rparr>"

definition ulp_base :: "ulp_call \<Rightarrow> ulp_proxy \<Rightarrow> bool \<times> ulp_proxy" where
  "ulp_base c u =
     (False, case c of
        sendStartFix \<Rightarrow> u\<lparr>mFixSet := True\<rparr>
      | sendStopFix \<Rightarrow> u\<lparr>mFixSet := False\<rparr>
      | sendFixMode m \<Rightarrow> u\<lparr>mPosMode := m\<rparr>
      | _ \<Rightarrow> u)"

section \<open>Messages to the engine\<close>

text \<open>The AGPS machines that a message points to.\<close>

datatype nif = agnss_nif | internet_nif | wifi_nif | ds_nif

text \<open>Messages whose \<open>proc\<close> is one call into the modem interface.\<close>

datatype down_msg =
  LocEngInjectLocation rat rat rat
| LocEngSetServerIpv4 u32 int LocServerType
| LocEngSetServerUrl string
| LocEngAGlonassProtocol u32
| LocEngSuplVer u32
| LocEngLppConfig u32
| LocEngSensorControlConfig u32 u32
| LocEngSensorProperties "(u8 \<times> rat) list"
| LocEngSensorPerfControlConfig "u32 list"
| LocEngExtPowerConfig int
| LocEngInstallAGpsCert "string list" u32
| LocEngUpdateRegistrationMask event_mask loc_registration_mask_status
| LocEngRequestXtraServer
| LocEngInjectXtraData string
| LocEngAdapterGpsLock u32
| LocEngInformNiResponse GpsUserResponse nat

text \<open>Messages to the AGPS machines.\<close>

datatype agps_msg =
  LocEngSuplEsOpened
| LocEngSuplEsClosed
| LocEngRequestSuplEs u32
| LocEngRequestATL u32 int
| LocEngReleaseATL u32
| LocEngReqRelBIT int u32 "u8 list" bool
| LocEngReqRelWifi int u32 "string option" "string option" bool
| LocEngAtlOpenSuccess "nif option" string int
| LocEngAtlClosed "nif option"
| LocEngAtlOpenFailed "nif option"
| LocEngDataClientInit

text \<open>Reports for the framework and requests of the modem.\<close>

datatype report_msg =
  LocEngReportPosition ulp_location location_extended loc_sess_status u32
| LocEngReportSv sv_status location_extended
| LocEngReportStatus GpsStatusValue
| LocEngReportNmea string
| LocEngReportXtraServer "string list"
| LocEngRequestXtra
| LocEngRequestTime
| LocEngRequestNi GpsNiNotification "nat option"
| LocEngReportGpsMeasurement nat

datatype eng_msg =
  Down down_msg
| Agps agps_msg
| Report report_msg
| LocEngPositionMode LocPosMode
| LocEngStartFix
| LocEngStopFix
| LocEngGetZpp
| LocEngDown
| LocEngUp
| LocEngSetTime int int int
| LocEngSuplMode nat
| LocEngDelAidData "16 word"
| LocEngEnableData "string option" int
| LocEngSetCapabilities
| LocEngInit
| LocEngGnssConstellationConfig
| LocEngSetXtraVersionCheck int
| LocSetUlpProxy "ulp_proxy option"
| LocSetXtraUserAgent

section \<open>The adapter\<close>

record eng_adapter =
  mUlp :: ulp_proxy
  mFixCriteria :: LocPosMode
  mNavigating :: bool
  mPowerVote :: u32
  mSupportsAgpsRequests :: bool
  mSupportsPositionInjection :: bool
  mSupportsTimeInjection :: bool
  adapter_msgs :: "eng_msg list"
  modem_out :: "modem_call list"
  ulp_out :: "(nat \<times> ulp_call) list"
  power_out :: "bool list"

text \<open>
  What the adapter does not know: the modem's answer to a call, given the calls before it; what a
  foreign ULP does; what the data-service client answers to an open; host names; and the constants of
  the platform's \<^verbatim>\<open>hardware/gps.h\<close>.
\<close>

record eng_env =
  modem :: "modem_call list \<Rightarrow> modem_call \<Rightarrow> int"
  foreign_ulp :: "ulp_call \<Rightarrow> ulp_proxy \<Rightarrow> bool \<times> ulp_proxy"
  data_call :: "agps_sm \<Rightarrow> int"
  resolve_in_addr :: "string \<Rightarrow> u32 option"
  zpp_fix :: "ulp_location \<times> u32"
  GPS_CAPABILITY_ON_DEMAND_TIME :: u32
  GPS_CAPABILITY_MEASUREMENTS :: u32
  AGPS_CERTIFICATE_MAX_LENGTH :: nat
  property_get :: "string \<Rightarrow> string"
  izat_dev_id :: nat
  serial_file :: "string option"

definition LocEngAdapter_new :: eng_adapter where
  "LocEngAdapter_new =
     \<lparr>mUlp = UlpProxyBase_new 0, mFixCriteria = LocPosMode_default\<lparr>pm_mode := LOC_POSITION_MODE_INVALID\<rparr>,
      mNavigating = False, mPowerVote = 0, mSupportsAgpsRequests = False, mSupportsPositionInjection = False,
      mSupportsTimeInjection = False, adapter_msgs = [], modem_out = [], ulp_out = [], power_out = []\<rparr>"

definition sendMsg :: "eng_msg \<Rightarrow> eng_adapter \<Rightarrow> eng_adapter" where
  "sendMsg msg a = a\<lparr>adapter_msgs := adapter_msgs a @ [msg]\<rparr>"

definition call_modem :: "eng_env \<Rightarrow> modem_call \<Rightarrow> eng_adapter \<Rightarrow> int \<times> eng_adapter" where
  "call_modem env c a = (modem env (modem_out a) c, a\<lparr>modem_out := modem_out a @ [c]\<rparr>)"

definition call_ulp :: "eng_env \<Rightarrow> ulp_call \<Rightarrow> eng_adapter \<Rightarrow> bool \<times> eng_adapter" where
  "call_ulp env c a =
     (case (if ulp_foreign (mUlp a) then foreign_ulp env c (mUlp a) else ulp_base c (mUlp a)) of
        (taken, u) \<Rightarrow> (taken, a\<lparr>mUlp := u, ulp_out := ulp_out a @ [(ulp_obj (mUlp a), c)]\<rparr>))"

definition isInSession :: "eng_adapter \<Rightarrow> bool" where
  "isInSession a = mNavigating a"

definition setInSession :: "eng_env \<Rightarrow> bool \<Rightarrow> eng_adapter \<Rightarrow> eng_adapter" where
  "setInSession env inSession a =
     (let a1 = snd (call_modem env (SetInSession inSession) (a\<lparr>mNavigating := inSession\<rparr>))
      in if \<not> mNavigating a1 then a1\<lparr>mFixCriteria := (mFixCriteria a1)\<lparr>pm_mode := LOC_POSITION_MODE_INVALID\<rparr>\<rparr> else a1)"

definition startFix :: "eng_env \<Rightarrow> eng_adapter \<Rightarrow> int \<times> eng_adapter" where
  "startFix env a = call_modem env (StartFix (mFixCriteria a)) a"

definition setPositionMode :: "eng_env \<Rightarrow> LocPosMode option \<Rightarrow> eng_adapter \<Rightarrow> int \<times> eng_adapter" where
  "setPositionMode env posMode a =
     (let a1 = (case posMode of None \<Rightarrow> a | Some m \<Rightarrow> a\<lparr>mFixCriteria := m\<rparr>)
      in call_modem env (SetPositionMode (mFixCriteria a1)) a1)"

text \<open>
  \<^verbatim>\<open>setUlpProxy\<close>; \<open>fresh\<close> is the address of the proxy that replaces a null one.  The new proxy is told
  the mode and the start that the old one has seen.
\<close>

definition setUlpProxy :: "eng_env \<Rightarrow> nat \<Rightarrow> ulp_proxy option \<Rightarrow> eng_adapter \<Rightarrow> eng_adapter" where
  "setUlpProxy env fresh ulp a =
     (if map_option ulp_obj ulp = Some (ulp_obj (mUlp a)) then a
      else
        (let old = mUlp a;
             a1 = a\<lparr>mUlp := (case ulp of None \<Rightarrow> UlpProxyBase_new fresh | Some u \<Rightarrow> u)\<rparr>;
             a2 = (if pm_mode (mPosMode old) \<noteq> LOC_POSITION_MODE_INVALID then snd (call_ulp env (sendFixMode (mPosMode old)) a1) else a1)
         in if mFixSet old then snd (call_ulp env sendStartFix a2) else a2))"

section \<open>Power votes\<close>

definition POWER_VOTE_RIGHT :: u32 where "POWER_VOTE_RIGHT = 0x20"
definition POWER_VOTE_VALUE :: u32 where "POWER_VOTE_VALUE = 0x10"

definition setPowerVoteRight :: "bool \<Rightarrow> eng_adapter \<Rightarrow> eng_adapter" where
  "setPowerVoteRight powerVoteRight a =
     a\<lparr>mPowerVote := if powerVoteRight then mPowerVote a OR POWER_VOTE_RIGHT else mPowerVote a AND NOT POWER_VOTE_RIGHT\<rparr>"

definition getPowerVoteRight :: "eng_adapter \<Rightarrow> bool" where
  "getPowerVoteRight a \<longleftrightarrow> mPowerVote a AND POWER_VOTE_RIGHT \<noteq> 0"

definition getPowerVote :: "eng_adapter \<Rightarrow> bool" where
  "getPowerVote a \<longleftrightarrow> mPowerVote a AND POWER_VOTE_VALUE \<noteq> 0"

definition requestPowerVote :: "eng_env \<Rightarrow> eng_adapter \<Rightarrow> eng_adapter" where
  "requestPowerVote env a =
     (if getPowerVoteRight a then snd (call_modem env (SetGpsLock (if getPowerVote a then 103 else 101)) a) else a)"

definition setPowerVote :: "eng_env \<Rightarrow> bool \<Rightarrow> eng_adapter \<Rightarrow> eng_adapter" where
  "setPowerVote env powerOn a =
     (let a1 = requestPowerVote env
            (a\<lparr>mPowerVote := if powerOn then mPowerVote a OR POWER_VOTE_VALUE else mPowerVote a AND NOT POWER_VOTE_VALUE\<rparr>)
      in a1\<lparr>power_out := power_out a1 @ [powerOn]\<rparr>)"

definition setGpsLockMsg :: "u32 \<Rightarrow> eng_adapter \<Rightarrow> int \<times> eng_adapter" where
  "setGpsLockMsg lockMask a = (0, sendMsg (Down (LocEngAdapterGpsLock lockMask)) a)"

section \<open>Time and XTRA\<close>

definition setTime :: "eng_env \<Rightarrow> int \<Rightarrow> int \<Rightarrow> int \<Rightarrow> eng_adapter \<Rightarrow> int \<times> eng_adapter" where
  "setTime env time timeReference uncertainty a =
     (if mSupportsTimeInjection a then call_modem env (SetTime time timeReference uncertainty) a
      else (LOC_API_ADAPTER_ERR_SUCCESS, a\<lparr>mSupportsTimeInjection := True\<rparr>))"

definition setXtraVersionCheck :: "eng_env \<Rightarrow> int \<Rightarrow> eng_adapter \<Rightarrow> int \<times> eng_adapter" where
  "setXtraVersionCheck env check a =
     (let eCheck = (if check = 0 then DISABLED else if check = 1 then AUTO else if check = 2 then XTRA2
                    else if check = 3 then XTRA3 else DISABLED)
      in call_modem env (SetXtraVersionCheck eCheck) a)"

text \<open>The constructor of \<^verbatim>\<open>LocEngReportXtraServer\<close>: configured URLs override, then blocked ones are skipped.\<close>

definition tolower :: "char \<Rightarrow> char" where
  "tolower c = (let n = of_char c :: nat in if 65 \<le> n \<and> n \<le> 90 then char_of (n + 32) else c)"

fun strcasestr :: "string \<Rightarrow> string \<Rightarrow> bool" where
  "strcasestr [] needle = (needle = [])"
| "strcasestr (c # s) needle =
     (map tolower (take (length needle) (c # s)) = map tolower needle \<or> strcasestr s needle)"

definition XTRA1_GPSONEXTRA :: string where
  "XTRA1_GPSONEXTRA = ''xtra1.gpsonextra.net''"

definition copy_server :: "nat \<Rightarrow> string \<Rightarrow> string list \<Rightarrow> string list" where
  "copy_server maxlength url servers =
     (if \<not> strcasestr url XTRA1_GPSONEXTRA then servers @ [take maxlength url] else servers)"

definition xtra_servers :: "string list \<Rightarrow> string list \<Rightarrow> nat \<Rightarrow> string list" where
  "xtra_servers conf_urls urls maxlength =
     (let servers = fold (copy_server maxlength) (map2 (\<lambda>c u. if c \<noteq> [] then c else u) conf_urls urls) []
      in servers @ replicate (3 - length servers) [])"

section \<open>Calls up from the modem interface\<close>

definition if_supported :: "eng_msg \<Rightarrow> eng_adapter \<Rightarrow> bool \<times> eng_adapter" where
  "if_supported msg a = (mSupportsAgpsRequests a, if mSupportsAgpsRequests a then sendMsg msg a else a)"

text \<open>
  A report goes to the ULP first and to the engine when the ULP does not take it; requests are taken
  when AGPS requests are supported.
\<close>

definition ulp_first :: "eng_env \<Rightarrow> ulp_call \<Rightarrow> eng_msg \<Rightarrow> eng_adapter \<Rightarrow> bool \<times> eng_adapter" where
  "ulp_first env c msg a =
     (case call_ulp env c a of (taken, a1) \<Rightarrow> (False, if taken then a1 else sendMsg msg a1))"

definition adapter_upcall :: "eng_env \<Rightarrow> string list \<Rightarrow> up_call \<Rightarrow> eng_adapter \<Rightarrow> bool \<times> eng_adapter" where
  "adapter_upcall env conf_urls call a =
     (case call of
        handleEngineUpEvent \<Rightarrow> (False, sendMsg LocEngUp a)
      | handleEngineDownEvent \<Rightarrow> (False, sendMsg LocEngDown a)
      | reportPosition loc ext status tech \<Rightarrow>
          ulp_first env (UlpReportPosition loc ext status tech) (Report (LocEngReportPosition loc ext status tech)) a
      | reportSv sv ext \<Rightarrow> ulp_first env (UlpReportSv sv ext) (Report (LocEngReportSv sv ext)) a
      | reportStatus status \<Rightarrow> ulp_first env (UlpReportStatus status) (Report (LocEngReportStatus status)) a
      | reportNmea nmea \<Rightarrow> (False, sendMsg (Report (LocEngReportNmea nmea)) a)
      | reportXtraServer url1 url2 url3 maxlength \<Rightarrow>
          if_supported (Report (LocEngReportXtraServer (xtra_servers conf_urls [url1, url2, url3] maxlength))) a
      | requestXtraData \<Rightarrow> if_supported (Report LocEngRequestXtra) a
      | requestTime \<Rightarrow> if_supported (Report LocEngRequestTime) a
      | requestLocation \<Rightarrow> (False, a)
      | requestATL connHandle agps_type \<Rightarrow> if_supported (Agps (LocEngRequestATL connHandle agps_type)) a
      | releaseATL connHandle \<Rightarrow> if_supported (Agps (LocEngReleaseATL connHandle)) a
      | requestSuplES connHandle \<Rightarrow> if_supported (Agps (LocEngRequestSuplEs connHandle)) a
      | reportDataCallOpened \<Rightarrow> if_supported (Agps LocEngSuplEsOpened) a
      | reportDataCallClosed \<Rightarrow> if_supported (Agps LocEngSuplEsClosed) a
      | requestNiNotify notif data \<Rightarrow>
          if_supported (Report (LocEngRequestNi (notif\<lparr>ni_timeout := LOC_NI_NO_RESPONSE_TIME\<rparr>) data)) a
      | reportGpsMeasurementData d \<Rightarrow> (False, sendMsg (Report (LocEngReportGpsMeasurement d)) a))"

section \<open>The user agent of XTRA requests\<close>

definition encodings :: "(char \<times> string) list" where
  "encodings = [(CHR ''/'', ''%2F''), (CHR ''+'', ''%2B''), (CHR ''|'', ''%7C''), (CHR ''%'', ''%25'')]"

fun encode_loop :: "nat \<Rightarrow> string \<Rightarrow> string \<Rightarrow> string" where
  "encode_loop sz [] buffer = buffer"
| "encode_loop sz (c # rest) buffer =
     (if \<not> length buffer < sz - 1 then buffer
      else (case map_of encodings c of
              None \<Rightarrow> encode_loop sz rest (buffer @ [c])
            | Some code \<Rightarrow>
                if length buffer + 3 \<ge> sz then buffer else encode_loop sz rest (buffer @ code)))"

definition encodeInPlace :: "string \<Rightarrow> nat \<Rightarrow> string" where
  "encodeInPlace value sz = encode_loop sz value []"

text \<open>
  \<^verbatim>\<open>getChipsetSerialNo\<close> on the content of the file, if it opens; \<open>None\<close> is a read before the buffer:
  the test of the unsigned length never fails.
\<close>

fun trim_tail :: "nat \<Rightarrow> string \<Rightarrow> string option" where
  "trim_tail 0 buf = None"
| "trim_tail (Suc len) buf = (if isspace (buf ! len) then trim_tail len (take len buf) else Some buf)"

definition getChipsetSerialNo :: "string option \<Rightarrow> nat \<Rightarrow> string \<Rightarrow> string option" where
  "getChipsetSerialNo file buflen dflt =
     (case file of
        None \<Rightarrow> Some (take (buflen - 1) dflt)
      | Some content \<Rightarrow>
          (let buf = (if take (buflen - 1) content = [] then take (buflen - 1) dflt else take (buflen - 1) content)
           in trim_tail (length buf) buf))"

definition userAgent :: "string \<Rightarrow> string \<Rightarrow> string \<Rightarrow> string \<Rightarrow> nat \<Rightarrow> string \<Rightarrow> string \<Rightarrow> string" where
  "userAgent release manufacture model board devid chipsetsn brand =
     map (\<lambda>c. if c = CHR '' '' then CHR ''#'' else c)
       (take 511 (''A/'' @ release @ ''/'' @ manufacture @ ''/'' @ model @ ''/'' @ board @ ''/-/QCX3/s'' @ nat_str devid @
          ''/-/'' @ chipsetsn @ ''/-/'' @ brand @ ''/-/-/-''))"

definition setXtraUserAgent :: "(string \<Rightarrow> string) \<Rightarrow> nat \<Rightarrow> string option \<Rightarrow> string option" where
  "setXtraUserAgent property devid serial = do {
     chipsetsn \<leftarrow> getChipsetSerialNo serial 16 ''-'';
     let p = (\<lambda>name. encodeInPlace (property name) 92);
     Some (userAgent (p ''ro.build.version.release'') (p ''ro.product.manufacturer'') (p ''ro.product.model'')
       (p ''ro.product.board'') devid chipsetsn (p ''ro.product.brand''))
   }"

section \<open>Encoding\<close>

definition enc :: "char \<Rightarrow> string" where
  "enc c = (case map_of encodings c of None \<Rightarrow> [c] | Some code \<Rightarrow> code)"

definition encode :: "string \<Rightarrow> string" where
  "encode v = concat (map enc v)"

definition separators :: "char list" where
  "separators = [CHR ''/'', CHR ''+'', CHR ''|'']"

lemma enc_cases:
  obtains (plain) "map_of encodings c = None" and "enc c = [c]" and "c \<notin> set (CHR ''%'' # separators)"
  | (coded) code where "map_of encodings c = Some code" and "enc c = code"
      and "(code, c) \<in> {(''%2F'', CHR ''/''), (''%2B'', CHR ''+''), (''%7C'', CHR ''|''), (''%25'', CHR ''%'')}"
proof (cases "c \<in> {CHR ''/'', CHR ''+'', CHR ''|'', CHR ''%''}")
  case True
  then show ?thesis by (intro coded [of "enc c"]) (auto simp: enc_def encodings_def)
next
  case False
  then show ?thesis by (intro plain) (auto simp: enc_def encodings_def separators_def)
qed

text \<open>The reference decoder: a percent sign starts one of the four codes.\<close>

fun url_decode :: "string \<Rightarrow> string" where
  "url_decode [] = []"
| "url_decode (c # s) =
     (if c = CHR ''%'' then
        (case map_of (map prod.swap encodings) (c # take 2 s) of
           None \<Rightarrow> c # url_decode s
         | Some d \<Rightarrow> d # url_decode (drop 2 s))
      else c # url_decode s)"

lemma encode_simps [simp]: "encode [] = []" "encode (c # v) = enc c @ encode v" "encode (u @ v) = encode u @ encode v"
  by (simp_all add: encode_def)

lemma url_decode_encode: "url_decode (encode v) = v"
proof (induction v)
  case (Cons c v)
  show ?case
  proof (cases c rule: enc_cases)
    case plain
    with Cons show ?thesis by simp
  next
    case (coded code)
    then show ?thesis using Cons by (auto simp: encodings_def)
  qed
qed simp

lemma enc_clean: "set (enc c) \<inter> set separators = {}" and enc_length: "1 \<le> length (enc c) \<and> length (enc c) \<le> 3"
  by (cases c rule: enc_cases; auto simp: separators_def)+

lemma encode_clean: "set (encode v) \<inter> set separators = {}"
  using enc_clean by (induction v) auto

text \<open>The loop writes the codes of a prefix, all of it if it fits.\<close>

lemma encode_loop_prefix:
  assumes "length buf < sz"
  obtains k where "k \<le> length v" and "encode_loop sz v buf = buf @ encode (take k v)"
    and "length (encode_loop sz v buf) < sz" and "length (buf @ encode v) < sz \<Longrightarrow> k = length v"
  using assms
proof (induction v arbitrary: buf thesis)
  case Nil
  show ?case using Nil.prems by (intro Nil.prems(1) [of 0]) simp_all
next
  case (Cons c v)
  have stop: ?case if "encode_loop sz (c # v) buf = buf" "\<not> length (buf @ encode (c # v)) < sz"
    using that Cons.prems(2) by (intro Cons.prems(1) [of 0]) simp_all
  have step: ?case
    if "encode_loop sz (c # v) buf = encode_loop sz v (buf @ enc c)" and room: "length (buf @ enc c) < sz"
  proof -
    obtain k where "k \<le> length v" "encode_loop sz v (buf @ enc c) = (buf @ enc c) @ encode (take k v)"
      "length (encode_loop sz v (buf @ enc c)) < sz" "length ((buf @ enc c) @ encode v) < sz \<Longrightarrow> k = length v"
      using Cons.IH [OF _ room] by metis
    with that(1) show ?case by (intro Cons.prems(1) [of "Suc k"]) simp_all
  qed
  show ?case
  proof (cases "length buf < sz - 1")
    case full: False
    show ?thesis using enc_length [of c] full by (intro stop) (auto split: option.split)
  next
    case True
    show ?thesis
    proof (cases c rule: enc_cases)
      case plain
      then show ?thesis using True by (intro step) auto
    next
      case (coded code)
      then have "length code = 3" by auto
      then show ?thesis
        using True coded by (cases "length buf + 3 \<ge> sz") (intro stop step; simp)+
    qed
  qed
qed

text \<open>Encoding a property value for the user agent leaves no separator in it, stays within the buffer, and
  can be undone: decoding gives back a prefix of the value, and the whole value whenever its encoding
  fits the buffer.\<close>

theorem encode_in_place_correct:
  assumes "0 < sz"
  shows "set (encodeInPlace v sz) \<inter> {CHR ''/'', CHR ''+'', CHR ''|''} = {} \<and> length (encodeInPlace v sz) < sz \<and>
    (\<exists>k. url_decode (encodeInPlace v sz) = take k v) \<and>
    (length (encode v) < sz \<longrightarrow> url_decode (encodeInPlace v sz) = v)"
proof -
  obtain k where k: "encodeInPlace v sz = encode (take k v)" "length (encodeInPlace v sz) < sz"
    "length (encode v) < sz \<Longrightarrow> k = length v"
    using encode_loop_prefix [of "[]" sz v] assms by (auto simp: encodeInPlace_def)
  then have "url_decode (encodeInPlace v sz) = take k v" by (simp add: url_decode_encode)
  moreover have "set (encodeInPlace v sz) \<inter> {CHR ''/'', CHR ''+'', CHR ''|''} = {}"
    using encode_clean [of "take k v"] k(1) by (simp add: separators_def)
  ultimately show ?thesis using k by auto
qed

lemma encode_in_place_correct_witness:
  "encodeInPlace ''a/b'' 92 = ''a%2Fb'' \<and> length (encodeInPlace ''a/b'' 92) < 92"
proof -
  have "encodeInPlace ''a/b'' 92 = ''a%2Fb''" by code_simp
  then show ?thesis using encode_in_place_correct [of 92 "''a/b''"] by simp
qed

text \<open>A serial number file of white space only makes the trimming loop read before its buffer.\<close>

lemma blank_serial_faults: "getChipsetSerialNo (Some ''  '') 16 ''-'' = None"
  by code_simp

section \<open>Sessions and proxies\<close>

lemma call_modem_simps [simp]:
  "mUlp (snd (call_modem env c a)) = mUlp a" "mFixCriteria (snd (call_modem env c a)) = mFixCriteria a"
  "mNavigating (snd (call_modem env c a)) = mNavigating a" "mPowerVote (snd (call_modem env c a)) = mPowerVote a"
  "mSupportsAgpsRequests (snd (call_modem env c a)) = mSupportsAgpsRequests a"
  "adapter_msgs (snd (call_modem env c a)) = adapter_msgs a" "ulp_out (snd (call_modem env c a)) = ulp_out a"
  "modem_out (snd (call_modem env c a)) = modem_out a @ [c]" "fst (call_modem env c a) = modem env (modem_out a) c"
  by (simp_all add: call_modem_def)

lemma sendMsg_simps [simp]:
  "mUlp (sendMsg m a) = mUlp a" "mFixCriteria (sendMsg m a) = mFixCriteria a" "mNavigating (sendMsg m a) = mNavigating a"
  "mPowerVote (sendMsg m a) = mPowerVote a" "mSupportsAgpsRequests (sendMsg m a) = mSupportsAgpsRequests a"
  "adapter_msgs (sendMsg m a) = adapter_msgs a @ [m]" "modem_out (sendMsg m a) = modem_out a"
  "ulp_out (sendMsg m a) = ulp_out a"
  by (simp_all add: sendMsg_def)

text \<open>A new fusion proxy inherits the session of the one it replaces: when both are plain proxies, the
  new one has the old one's mode, unless no mode was ever set, and its start flag, and the engine's own
  queue, session and modem are untouched.\<close>

theorem ulp_handover:
  assumes "\<not> ulp_foreign (mUlp a)" and "ulp = None \<or> (\<exists>i. ulp = Some (UlpProxyBase_new i))"
  shows "mFixSet (mUlp (setUlpProxy env fresh ulp a)) = mFixSet (mUlp a) \<and>
    pm_mode (mPosMode (mUlp (setUlpProxy env fresh ulp a))) = pm_mode (mPosMode (mUlp a)) \<and>
    (pm_mode (mPosMode (mUlp a)) \<noteq> LOC_POSITION_MODE_INVALID \<longrightarrow>
       mPosMode (mUlp (setUlpProxy env fresh ulp a)) = mPosMode (mUlp a)) \<and>
    adapter_msgs (setUlpProxy env fresh ulp a) = adapter_msgs a \<and> modem_out (setUlpProxy env fresh ulp a) = modem_out a \<and>
    mNavigating (setUlpProxy env fresh ulp a) = mNavigating a"
  using assms
  by (auto simp: setUlpProxy_def call_ulp_def ulp_base_def UlpProxyBase_new_def Let_def split: option.split)

definition example_env :: eng_env where
  "example_env =
     \<lparr>modem = (\<lambda>_ _. 0), foreign_ulp = (\<lambda>_ u. (True, u)), data_call = (\<lambda>_. 0), resolve_in_addr = (\<lambda>_. None),
      zpp_fix = (\<lparr>has_lat_long = False, has_altitude = False, has_speed = False, has_bearing = False, latitude = 0,
        longitude = 0, altitude = 0, speed = 0, bearing = 0, timestamp = 0, has_accuracy = False, accuracy = 0,
        position_source = 0, rawData = None\<rparr>, 0),
      GPS_CAPABILITY_ON_DEMAND_TIME = 0x10, GPS_CAPABILITY_MEASUREMENTS = 0x40, AGPS_CERTIFICATE_MAX_LENGTH = 2000,
      property_get = (\<lambda>_. ''-''), izat_dev_id = 0, serial_file = None\<rparr>"

lemma ulp_handover_witness:
  "mFixSet (mUlp (setUlpProxy example_env 5 None (LocEngAdapter_new\<lparr>mUlp := (UlpProxyBase_new 0)\<lparr>mFixSet := True\<rparr>\<rparr>)))"
  using ulp_handover [of "LocEngAdapter_new\<lparr>mUlp := (UlpProxyBase_new 0)\<lparr>mFixSet := True\<rparr>\<rparr>" None example_env 5]
  by (simp add: UlpProxyBase_new_def)

section \<open>Power votes\<close>

lemmas power_vote_defs = setPowerVoteRight_def getPowerVoteRight_def getPowerVote_def setPowerVote_def
  requestPowerVote_def POWER_VOTE_RIGHT_def POWER_VOTE_VALUE_def

text \<open>The two bits of the power vote do not disturb each other, and a vote reaches the modem exactly when
  the right to vote is set, as 103 for up and 101 for down, and always reaches the context.\<close>

theorem power_vote_correct:
  "getPowerVoteRight (setPowerVoteRight r a) = r \<and> getPowerVote (setPowerVoteRight r a) = getPowerVote a \<and>
   getPowerVote (setPowerVote env on a) = on \<and> getPowerVoteRight (setPowerVote env on a) = getPowerVoteRight a \<and>
   modem_out (setPowerVote env on a) =
     modem_out a @ (if getPowerVoteRight a then [SetGpsLock (if on then 103 else 101)] else []) \<and>
   power_out (setPowerVote env on a) = power_out a @ [on]"
  by (auto simp: power_vote_defs Let_def call_modem_def and.assoc bit.conj_disj_distrib2)

end
