(* ===== verification/Eng_Conf.thy ===== *)
theory Eng_Conf
  imports Eng_Adapter
begin

text \<open>
  The configuration of the location engine in \<^verbatim>\<open>loc_eng.cpp\<close>: the two structures \<^verbatim>\<open>gps_conf\<close> and
  \<^verbatim>\<open>sap_conf\<close> as memories over their fields, the tables that name the fields, the defaults, the
  reading of the two files and the capabilities that the carrier allows.
\<close>

section \<open>Fields and tables\<close>

datatype gps_field =
  GPS_LOCK | SUPL_VER | LPP_PROFILE | A_GLONASS_POS_PROTOCOL_SELECT | AGPS_CERT_WRITABLE_MASK
  | SUPL_MODE | INTERMEDIATE_POS | ACCURACY_THRES | NMEA_PROVIDER | CAPABILITIES
  | XTRA_VERSION_CHECK | XTRA_SERVER_1 | XTRA_SERVER_2 | XTRA_SERVER_3
  | USE_EMERGENCY_PDN_FOR_EMERGENCY_SUPL

datatype sap_field =
  GYRO_BIAS_RANDOM_WALK | GYRO_BIAS_RANDOM_WALK_VALID | ACCEL_RANDOM_WALK_SPECTRAL_DENSITY
  | ACCEL_RANDOM_WALK_SPECTRAL_DENSITY_VALID | ANGLE_RANDOM_WALK_SPECTRAL_DENSITY
  | ANGLE_RANDOM_WALK_SPECTRAL_DENSITY_VALID | RATE_RANDOM_WALK_SPECTRAL_DENSITY
  | RATE_RANDOM_WALK_SPECTRAL_DENSITY_VALID | VELOCITY_RANDOM_WALK_SPECTRAL_DENSITY
  | VELOCITY_RANDOM_WALK_SPECTRAL_DENSITY_VALID | SENSOR_ACCEL_BATCHES_PER_SEC
  | SENSOR_ACCEL_SAMPLES_PER_BATCH | SENSOR_GYRO_BATCHES_PER_SEC | SENSOR_GYRO_SAMPLES_PER_BATCH
  | SENSOR_ACCEL_BATCHES_PER_SEC_HIGH | SENSOR_ACCEL_SAMPLES_PER_BATCH_HIGH
  | SENSOR_GYRO_BATCHES_PER_SEC_HIGH | SENSOR_GYRO_SAMPLES_PER_BATCH_HIGH | SENSOR_CONTROL_MODE
  | SENSOR_USAGE | SENSOR_ALGORITHM_CONFIG_MASK | SENSOR_PROVIDER

type_synonym gps_cfg = "gps_field \<Rightarrow> cfg_cell"
type_synonym sap_cfg = "sap_field \<Rightarrow> cfg_cell"

definition gps_conf_table :: "gps_field loc_param_s list" where
  "gps_conf_table =
     [\<lparr>param_name = ''GPS_LOCK'', param_ptr = Some GPS_LOCK, param_set = None, param_type = CHR ''n''\<rparr>,
      \<lparr>param_name = ''SUPL_VER'', param_ptr = Some SUPL_VER, param_set = None, param_type = CHR ''n''\<rparr>,
      \<lparr>param_name = ''LPP_PROFILE'', param_ptr = Some LPP_PROFILE, param_set = None, param_type = CHR ''n''\<rparr>,
      \<lparr>param_name = ''A_GLONASS_POS_PROTOCOL_SELECT'', param_ptr = Some A_GLONASS_POS_PROTOCOL_SELECT, param_set = None, param_type = CHR ''n''\<rparr>,
      \<lparr>param_name = ''AGPS_CERT_WRITABLE_MASK'', param_ptr = Some AGPS_CERT_WRITABLE_MASK, param_set = None, param_type = CHR ''n''\<rparr>,
      \<lparr>param_name = ''SUPL_MODE'', param_ptr = Some SUPL_MODE, param_set = None, param_type = CHR ''n''\<rparr>,
      \<lparr>param_name = ''INTERMEDIATE_POS'', param_ptr = Some INTERMEDIATE_POS, param_set = None, param_type = CHR ''n''\<rparr>,
      \<lparr>param_name = ''ACCURACY_THRES'', param_ptr = Some ACCURACY_THRES, param_set = None, param_type = CHR ''n''\<rparr>,
      \<lparr>param_name = ''NMEA_PROVIDER'', param_ptr = Some NMEA_PROVIDER, param_set = None, param_type = CHR ''n''\<rparr>,
      \<lparr>param_name = ''CAPABILITIES'', param_ptr = Some CAPABILITIES, param_set = None, param_type = CHR ''n''\<rparr>,
      \<lparr>param_name = ''XTRA_VERSION_CHECK'', param_ptr = Some XTRA_VERSION_CHECK, param_set = None, param_type = CHR ''n''\<rparr>,
      \<lparr>param_name = ''XTRA_SERVER_1'', param_ptr = Some XTRA_SERVER_1, param_set = None, param_type = CHR ''s''\<rparr>,
      \<lparr>param_name = ''XTRA_SERVER_2'', param_ptr = Some XTRA_SERVER_2, param_set = None, param_type = CHR ''s''\<rparr>,
      \<lparr>param_name = ''XTRA_SERVER_3'', param_ptr = Some XTRA_SERVER_3, param_set = None, param_type = CHR ''s''\<rparr>,
      \<lparr>param_name = ''USE_EMERGENCY_PDN_FOR_EMERGENCY_SUPL'', param_ptr = Some USE_EMERGENCY_PDN_FOR_EMERGENCY_SUPL, param_set = None, param_type = CHR ''n''\<rparr>]"

definition sap_conf_table :: "sap_field loc_param_s list" where
  "sap_conf_table =
     [\<lparr>param_name = ''GYRO_BIAS_RANDOM_WALK'', param_ptr = Some GYRO_BIAS_RANDOM_WALK, param_set = Some GYRO_BIAS_RANDOM_WALK_VALID, param_type = CHR ''f''\<rparr>,
      \<lparr>param_name = ''ACCEL_RANDOM_WALK_SPECTRAL_DENSITY'', param_ptr = Some ACCEL_RANDOM_WALK_SPECTRAL_DENSITY, param_set = Some ACCEL_RANDOM_WALK_SPECTRAL_DENSITY_VALID, param_type = CHR ''f''\<rparr>,
      \<lparr>param_name = ''ANGLE_RANDOM_WALK_SPECTRAL_DENSITY'', param_ptr = Some ANGLE_RANDOM_WALK_SPECTRAL_DENSITY, param_set = Some ANGLE_RANDOM_WALK_SPECTRAL_DENSITY_VALID, param_type = CHR ''f''\<rparr>,
      \<lparr>param_name = ''RATE_RANDOM_WALK_SPECTRAL_DENSITY'', param_ptr = Some RATE_RANDOM_WALK_SPECTRAL_DENSITY, param_set = Some RATE_RANDOM_WALK_SPECTRAL_DENSITY_VALID, param_type = CHR ''f''\<rparr>,
      \<lparr>param_name = ''VELOCITY_RANDOM_WALK_SPECTRAL_DENSITY'', param_ptr = Some VELOCITY_RANDOM_WALK_SPECTRAL_DENSITY, param_set = Some VELOCITY_RANDOM_WALK_SPECTRAL_DENSITY_VALID, param_type = CHR ''f''\<rparr>,
      \<lparr>param_name = ''SENSOR_ACCEL_BATCHES_PER_SEC'', param_ptr = Some SENSOR_ACCEL_BATCHES_PER_SEC, param_set = None, param_type = CHR ''n''\<rparr>,
      \<lparr>param_name = ''SENSOR_ACCEL_SAMPLES_PER_BATCH'', param_ptr = Some SENSOR_ACCEL_SAMPLES_PER_BATCH, param_set = None, param_type = CHR ''n''\<rparr>,
      \<lparr>param_name = ''SENSOR_GYRO_BATCHES_PER_SEC'', param_ptr = Some SENSOR_GYRO_BATCHES_PER_SEC, param_set = None, param_type = CHR ''n''\<rparr>,
      \<lparr>param_name = ''SENSOR_GYRO_SAMPLES_PER_BATCH'', param_ptr = Some SENSOR_GYRO_SAMPLES_PER_BATCH, param_set = None, param_type = CHR ''n''\<rparr>,
      \<lparr>param_name = ''SENSOR_ACCEL_BATCHES_PER_SEC_HIGH'', param_ptr = Some SENSOR_ACCEL_BATCHES_PER_SEC_HIGH, param_set = None, param_type = CHR ''n''\<rparr>,
      \<lparr>param_name = ''SENSOR_ACCEL_SAMPLES_PER_BATCH_HIGH'', param_ptr = Some SENSOR_ACCEL_SAMPLES_PER_BATCH_HIGH, param_set = None, param_type = CHR ''n''\<rparr>,
      \<lparr>param_name = ''SENSOR_GYRO_BATCHES_PER_SEC_HIGH'', param_ptr = Some SENSOR_GYRO_BATCHES_PER_SEC_HIGH, param_set = None, param_type = CHR ''n''\<rparr>,
      \<lparr>param_name = ''SENSOR_GYRO_SAMPLES_PER_BATCH_HIGH'', param_ptr = Some SENSOR_GYRO_SAMPLES_PER_BATCH_HIGH, param_set = None, param_type = CHR ''n''\<rparr>,
      \<lparr>param_name = ''SENSOR_CONTROL_MODE'', param_ptr = Some SENSOR_CONTROL_MODE, param_set = None, param_type = CHR ''n''\<rparr>,
      \<lparr>param_name = ''SENSOR_USAGE'', param_ptr = Some SENSOR_USAGE, param_set = None, param_type = CHR ''n''\<rparr>,
      \<lparr>param_name = ''SENSOR_ALGORITHM_CONFIG_MASK'', param_ptr = Some SENSOR_ALGORITHM_CONFIG_MASK, param_set = None, param_type = CHR ''n''\<rparr>,
      \<lparr>param_name = ''SENSOR_PROVIDER'', param_ptr = Some SENSOR_PROVIDER, param_set = None, param_type = CHR ''n''\<rparr>]"

text \<open>Reading a field of a known type; a field never changes its type (lemma \<open>read_config_typed\<close>).\<close>

fun conf_n :: "cfg_cell \<Rightarrow> u32" where "conf_n (CInt w) = w" | "conf_n _ = 0"
fun conf_s :: "cfg_cell \<Rightarrow> string" where "conf_s (CStr s) = s" | "conf_s _ = []"
fun conf_f :: "cfg_cell \<Rightarrow> rat" where "conf_f (CDouble d) = d" | "conf_f _ = 0"
fun conf_v :: "cfg_cell \<Rightarrow> u8" where "conf_v (CFlag b) = b" | "conf_v _ = 0"

section \<open>Defaults and files\<close>

definition gps_default_parameters :: "gps_cfg \<Rightarrow> gps_cfg" where
  "gps_default_parameters m = m(
      INTERMEDIATE_POS := CInt 0,
      ACCURACY_THRES := CInt 0,
      NMEA_PROVIDER := CInt 0,
      GPS_LOCK := CInt 0,
      SUPL_VER := CInt 0x10000,
      SUPL_MODE := CInt 0x3,
      CAPABILITIES := CInt 0x7,
      LPP_PROFILE := CInt 0,
      A_GLONASS_POS_PROTOCOL_SELECT := CInt 0,
      XTRA_VERSION_CHECK := CInt 0,
      USE_EMERGENCY_PDN_FOR_EMERGENCY_SUPL := CInt 1,
      AGPS_CERT_WRITABLE_MASK := CInt 0)"

definition sap_default_parameters :: "sap_cfg \<Rightarrow> sap_cfg" where
  "sap_default_parameters m = m(
      GYRO_BIAS_RANDOM_WALK := CDouble 0,
      SENSOR_ACCEL_BATCHES_PER_SEC := CInt 2,
      SENSOR_ACCEL_SAMPLES_PER_BATCH := CInt 5,
      SENSOR_GYRO_BATCHES_PER_SEC := CInt 2,
      SENSOR_GYRO_SAMPLES_PER_BATCH := CInt 5,
      SENSOR_ACCEL_BATCHES_PER_SEC_HIGH := CInt 4,
      SENSOR_ACCEL_SAMPLES_PER_BATCH_HIGH := CInt 25,
      SENSOR_GYRO_BATCHES_PER_SEC_HIGH := CInt 4,
      SENSOR_GYRO_SAMPLES_PER_BATCH_HIGH := CInt 25,
      SENSOR_CONTROL_MODE := CInt 0,
      SENSOR_USAGE := CInt 0,
      SENSOR_ALGORITHM_CONFIG_MASK := CInt 0,
      ACCEL_RANDOM_WALK_SPECTRAL_DENSITY := CDouble 0,
      ANGLE_RANDOM_WALK_SPECTRAL_DENSITY := CDouble 0,
      RATE_RANDOM_WALK_SPECTRAL_DENSITY := CDouble 0,
      VELOCITY_RANDOM_WALK_SPECTRAL_DENSITY := CDouble 0,
      GYRO_BIAS_RANDOM_WALK_VALID := CFlag 0,
      ACCEL_RANDOM_WALK_SPECTRAL_DENSITY_VALID := CFlag 0,
      ANGLE_RANDOM_WALK_SPECTRAL_DENSITY_VALID := CFlag 0,
      RATE_RANDOM_WALK_SPECTRAL_DENSITY_VALID := CFlag 0,
      VELOCITY_RANDOM_WALK_SPECTRAL_DENSITY_VALID := CFlag 0,
      SENSOR_PROVIDER := CInt 1)"

record eng_conf =
  gps_conf :: gps_cfg
  sap_conf :: sap_cfg
  log_conf :: "log_param \<Rightarrow> cfg_cell"
  configAlreadyRead :: bool

text \<open>The two files are read once; they are their contents, or \<open>None\<close> when they cannot be opened.\<close>

definition loc_eng_read_config :: "string option \<Rightarrow> string option \<Rightarrow> eng_conf \<Rightarrow> int \<times> eng_conf" where
  "loc_eng_read_config gps_file sap_file c =
     (if configAlreadyRead c then (0, c)
      else
        (case loc_read_conf gps_file gps_conf_table (gps_default_parameters (gps_conf c)) (log_conf c) of
           (g, l1) \<Rightarrow>
             case loc_read_conf sap_file sap_conf_table (sap_default_parameters (sap_conf c)) l1 of
               (s, l2) \<Rightarrow> (0, c\<lparr>gps_conf := g, sap_conf := s, log_conf := l2, configAlreadyRead := True\<rparr>)))"

section \<open>Capabilities\<close>

definition carrierMSA :: u32 where "carrierMSA = 0x2"
definition carrierMSB :: u32 where "carrierMSB = 0x1"
definition gpsConfMSA :: u32 where "gpsConfMSA = 0x4"
definition gpsConfMSB :: u32 where "gpsConfMSB = 0x2"

lemmas capability_defs = carrierMSA_def carrierMSB_def gpsConfMSA_def gpsConfMSB_def

definition getCarrierCapabilities :: "gps_cfg \<Rightarrow> u32" where
  "getCarrierCapabilities g =
     (let c0 = conf_n (g CAPABILITIES);
          c1 = (if conf_n (g SUPL_MODE) AND carrierMSA \<noteq> carrierMSA then c0 AND NOT gpsConfMSA else c0)
      in if conf_n (g SUPL_MODE) AND carrierMSB \<noteq> carrierMSB then c1 AND NOT gpsConfMSB else c1)"

section \<open>Updates\<close>

text \<open>
  \<^verbatim>\<open>loc_eng_configuration_update\<close>: the messages it posts when there is an adapter, with the proxy that
  the last one points to, and the configuration it leaves: four fields of the update are kept.
\<close>

definition update_msgs :: "nat \<Rightarrow> gps_cfg \<Rightarrow> gps_cfg \<Rightarrow> eng_msg list" where
  "update_msgs ulp old new =
     (if conf_n (old SUPL_VER) \<noteq> conf_n (new SUPL_VER) then [Down (LocEngSuplVer (conf_n (new SUPL_VER)))] else []) @
     (if conf_n (old LPP_PROFILE) \<noteq> conf_n (new LPP_PROFILE) then [Down (LocEngLppConfig (conf_n (new LPP_PROFILE)))] else []) @
     (if conf_n (old A_GLONASS_POS_PROTOCOL_SELECT) \<noteq> conf_n (new A_GLONASS_POS_PROTOCOL_SELECT)
      then [Down (LocEngAGlonassProtocol (conf_n (new A_GLONASS_POS_PROTOCOL_SELECT)))] else []) @
     (if conf_n (old SUPL_MODE) \<noteq> conf_n (new SUPL_MODE) then [LocEngSuplMode ulp] else [])"

definition kept_fields :: "gps_cfg \<Rightarrow> gps_cfg \<Rightarrow> gps_cfg" where
  "kept_fields old new = old(SUPL_VER := new SUPL_VER, LPP_PROFILE := new LPP_PROFILE,
     A_GLONASS_POS_PROTOCOL_SELECT := new A_GLONASS_POS_PROTOCOL_SELECT, GPS_LOCK := new GPS_LOCK)"

definition configuration_update :: "bool \<Rightarrow> nat \<Rightarrow> string option \<Rightarrow> int \<Rightarrow> eng_conf \<Rightarrow> eng_msg list \<times> eng_conf" where
  "configuration_update has_adapter ulp config_data len c =
     (case config_data of
        None \<Rightarrow> ([], c)
      | Some data \<Rightarrow>
          if len > 0 then
            (let old = gps_conf c; new = snd (loc_update_conf (Some data) len gps_conf_table old)
             in (if has_adapter then update_msgs ulp old new else [], c\<lparr>gps_conf := kept_fields old new\<rparr>))
          else ([], c))"

section \<open>Types\<close>

definition gps_type :: "gps_field \<Rightarrow> char" where
  "gps_type f = (if f \<in> {XTRA_SERVER_1, XTRA_SERVER_2, XTRA_SERVER_3} then CHR ''s'' else CHR ''n'')"

definition sap_type :: "sap_field \<Rightarrow> char" where
  "sap_type f =
     (if f \<in> {GYRO_BIAS_RANDOM_WALK, ACCEL_RANDOM_WALK_SPECTRAL_DENSITY, ANGLE_RANDOM_WALK_SPECTRAL_DENSITY,
        RATE_RANDOM_WALK_SPECTRAL_DENSITY, VELOCITY_RANDOM_WALK_SPECTRAL_DENSITY} then CHR ''f''
      else if f \<in> {GYRO_BIAS_RANDOM_WALK_VALID, ACCEL_RANDOM_WALK_SPECTRAL_DENSITY_VALID,
        ANGLE_RANDOM_WALK_SPECTRAL_DENSITY_VALID, RATE_RANDOM_WALK_SPECTRAL_DENSITY_VALID,
        VELOCITY_RANDOM_WALK_SPECTRAL_DENSITY_VALID} then CHR ''v'' else CHR ''n'')"

lemma gps_table_typed: "table_typed gps_type gps_conf_table"
  by (simp add: table_typed_def gps_conf_table_def gps_type_def)

lemma sap_table_typed: "table_typed sap_type sap_conf_table"
  by (simp add: table_typed_def sap_conf_table_def sap_type_def)

definition conf_typed :: "eng_conf \<Rightarrow> bool" where
  "conf_typed c \<longleftrightarrow> mem_typed gps_type (gps_conf c) \<and> mem_typed sap_type (sap_conf c)"

lemma defaults_typed:
  "mem_typed gps_type g \<Longrightarrow> mem_typed gps_type (gps_default_parameters g)"
  "mem_typed sap_type s \<Longrightarrow> mem_typed sap_type (sap_default_parameters s)"
  unfolding gps_default_parameters_def sap_default_parameters_def
  by (intro mem_typed_upd; simp add: gps_type_def sap_type_def)+

lemma kept_fields_typed: "mem_typed T old \<Longrightarrow> mem_typed T new \<Longrightarrow> mem_typed T (kept_fields old new)"
  by (simp add: mem_typed_def kept_fields_def)

text \<open>Whatever the configuration files and updates hold, every field of the two configuration structures
  keeps the type that the engine reads it with: numbers stay numbers, server names stay text of at most
  eighty characters, densities stay floating-point and validity flags stay zero or one.\<close>

theorem engine_conf_typed:
  assumes "conf_typed c"
  shows "conf_typed (snd (loc_eng_read_config gps_file sap_file c)) \<and>
    conf_typed (snd (configuration_update has_adapter ulp config_data len c))"
proof -
  have "mem_typed gps_type (fst (loc_read_conf gps_file gps_conf_table (gps_default_parameters (gps_conf c)) l))"
    "mem_typed sap_type (fst (loc_read_conf sap_file sap_conf_table (sap_default_parameters (sap_conf c)) l))" for l
    using assms by (auto simp: conf_typed_def intro!: read_conf_typed gps_table_typed sap_table_typed defaults_typed)
  then have "conf_typed (snd (loc_eng_read_config gps_file sap_file c))"
    using assms by (auto simp: loc_eng_read_config_def conf_typed_def split: prod.split) (metis fst_conv)+
  moreover have "conf_typed (snd (configuration_update has_adapter ulp config_data len c))"
    using assms update_conf_typed [OF gps_table_typed, of "gps_conf c"]
    by (auto simp: configuration_update_def conf_typed_def Let_def intro: kept_fields_typed split: option.split)
  ultimately show ?thesis ..
qed

definition conf_zero :: eng_conf where
  "conf_zero = \<lparr>gps_conf = (\<lambda>f. if gps_type f = CHR ''s'' then CStr [] else CInt 0),
     sap_conf = (\<lambda>f. if sap_type f = CHR ''f'' then CDouble 0 else if sap_type f = CHR ''v'' then CFlag 0 else CInt 0),
     log_conf = (\<lambda>_. CInt 0), configAlreadyRead = False\<rparr>"

lemma conf_zero_typed: "conf_typed conf_zero"
  by (simp add: conf_typed_def conf_zero_def mem_typed_def gps_type_def sap_type_def)

lemma engine_conf_typed_witness: "conf_typed (snd (loc_eng_read_config (Some ''SUPL_VER=0x20000'') None conf_zero))"
  using engine_conf_typed [OF conf_zero_typed] by blast

section \<open>Capabilities and updates\<close>

lemma bit_powers: "bit (1 :: u32) k \<longleftrightarrow> k = 0" "bit (2 :: u32) k \<longleftrightarrow> k = 1" "bit (4 :: u32) k \<longleftrightarrow> k = 2"
  using bit_exp_iff [of 0 k, where ?'a = u32] bit_exp_iff [of 1 k, where ?'a = u32] bit_exp_iff [of 2 k, where ?'a = u32]
  by auto

lemma and_bit_word: "w AND 2 = (2 :: u32) \<longleftrightarrow> bit w 1" "w AND 1 = (1 :: u32) \<longleftrightarrow> bit w 0"
proof -
  show "w AND 2 = (2 :: u32) \<longleftrightarrow> bit w 1"
  proof
    assume "w AND 2 = 2"
    then have "bit (w AND 2) 1 = bit (2 :: u32) 1" by simp
    then show "bit w 1" by (simp only: bit_and_iff bit_powers simp_thms)
  qed (rule bit_word_eqI, auto simp only: bit_and_iff bit_powers)
  show "w AND 1 = (1 :: u32) \<longleftrightarrow> bit w 0"
  proof
    assume "w AND 1 = 1"
    then have "bit (w AND 1) 0 = bit (1 :: u32) 0" by simp
    then show "bit w 0" by (simp only: bit_and_iff bit_powers simp_thms)
  qed (rule bit_word_eqI, auto simp only: bit_and_iff bit_powers)
qed

text \<open>The carrier capabilities are the configured ones less the assisted modes that the SUPL mode does not
  allow: bit 2 (MS-assisted) needs bit 1 of the SUPL mode, bit 1 (MS-based) needs its bit 0, and all other
  bits are unchanged.\<close>

theorem carrier_capabilities_bits:
  "bit (getCarrierCapabilities g) k =
     (bit (conf_n (g CAPABILITIES)) k \<and> (k = 2 \<longrightarrow> bit (conf_n (g SUPL_MODE)) 1) \<and> (k = 1 \<longrightarrow> bit (conf_n (g SUPL_MODE)) 0))"
proof -
  have "bit w k \<Longrightarrow> k < 32" for w :: u32 using bit_imp_le_length [of w k] by simp
  then show ?thesis
    unfolding getCarrierCapabilities_def capability_defs Let_def and_bit_word
      if_distrib [of "\<lambda>w. bit w k"] bit_and_iff bit_not_iff bit_powers possible_bit_word
    by auto
qed



end
