(* ===== verification/Loc_Eng.thy ===== *)
theory Loc_Eng
  imports Eng_Conf
begin

text \<open>
  \<^verbatim>\<open>loc_eng.cpp\<close> and \<^verbatim>\<open>loc_eng_xtra.cpp\<close>: the location engine.  The functions of its interface run on
  the framework's threads and mostly post a message to the engine's thread; \<open>proc\<close> is what that thread
  does with each message.  The engine owns the adapter, the AGPS machines, the network-initiated
  requests and the NMEA generator of the other theories, and hands their calls on.
\<close>

section \<open>State\<close>

text \<open>Calls of the framework, the connectivity service, the daemon and the timer.\<close>

datatype eng_call =
  CbLocation "ulp_location option"
| CbStatus GpsStatusValue
| CbSv sv_status
| CbNmea string
| CbSetCapabilities u32
| CbRequestUtcTime
| CbMeasurement nat
| CbXtraDownload
| CbXtraServer "string list"
| CbAgps agps_call
| CbUserAgent string

text \<open>Which callbacks are registered.\<close>

record eng_cbs =
  location_cb :: bool
  status_cb :: bool
  sv_status_cb :: bool
  nmea_cb :: bool
  set_capabilities_cb :: bool
  request_utc_time_cb :: bool
  gps_measurement_cb :: bool
  agps_status_cb :: bool
  download_request_cb :: bool
  report_xtra_server_cb :: bool

definition no_cbs :: eng_cbs where
  "no_cbs = \<lparr>location_cb = False, status_cb = False, sv_status_cb = False, nmea_cb = False, set_capabilities_cb = False,
     request_utc_time_cb = False, gps_measurement_cb = False, agps_status_cb = False, download_request_cb = False,
     report_xtra_server_cb = False\<rparr>"

text \<open>
  \<^verbatim>\<open>loc_eng_data_s_type\<close> with the globals of \<^verbatim>\<open>loc_eng.cpp\<close>.  \<open>has_adapter\<close> is whether the adapter
  pointer is set; the muting of a session is kept in \<open>ni_data\<close>, where \<^verbatim>\<open>loc_eng_ni.cpp\<close> resets it.
\<close>

record loc_eng =
  has_adapter :: bool
  adapter :: eng_adapter
  cbs :: eng_cbs
  intermediateFix :: u8
  nifs :: "nif \<Rightarrow> agps_sm option"
  engine_status :: GpsStatusValue
  fix_session_status :: GpsStatusValue
  aiding_data_for_deletion :: "16 word"
  ni_data :: ni_state
  generateNmea :: bool
  nmea_data :: nmea_state
  supl_host :: "(string \<times> int) option"
  c2k_host :: "(string \<times> int) option"
  conf :: eng_conf
  agpsStatus :: int
  eng_out :: "eng_call list"

abbreviation gconf :: "loc_eng \<Rightarrow> gps_cfg" where
  "gconf e \<equiv> gps_conf (conf e)"

abbreviation sconf :: "loc_eng \<Rightarrow> sap_cfg" where
  "sconf e \<equiv> sap_conf (conf e)"

definition on_adapter :: "(eng_adapter \<Rightarrow> eng_adapter) \<Rightarrow> loc_eng \<Rightarrow> loc_eng" where
  "on_adapter f e = e\<lparr>adapter := f (adapter e)\<rparr>"

definition post :: "eng_msg \<Rightarrow> loc_eng \<Rightarrow> loc_eng" where
  "post msg = on_adapter (sendMsg msg)"

definition post_all :: "eng_msg list \<Rightarrow> loc_eng \<Rightarrow> loc_eng" where
  "post_all msgs e = fold post msgs e"

definition to_modem :: "eng_env \<Rightarrow> modem_call \<Rightarrow> loc_eng \<Rightarrow> loc_eng" where
  "to_modem env c = on_adapter (\<lambda>a. snd (call_modem env c a))"

definition call_back :: "eng_call \<Rightarrow> loc_eng \<Rightarrow> loc_eng" where
  "call_back c e = e\<lparr>eng_out := eng_out e @ [c]\<rparr>"

definition muted :: "loc_eng \<Rightarrow> bool" where
  "muted e \<longleftrightarrow> mute_session_state (ni_data e) = LOC_MUTE_SESS_IN_SESSION"

section \<open>Sessions\<close>

definition loc_eng_start :: "eng_env \<Rightarrow> loc_eng \<Rightarrow> int \<times> loc_eng" where
  "loc_eng_start env e =
     (if \<not> has_adapter e then (- 1, e)
      else (case call_ulp env sendStartFix (adapter e) of
              (taken, a) \<Rightarrow> (0, if taken then e\<lparr>adapter := a\<rparr> else post LocEngStartFix (e\<lparr>adapter := a\<rparr>))))"

definition loc_eng_start_handler :: "eng_env \<Rightarrow> loc_eng \<Rightarrow> int \<times> loc_eng" where
  "loc_eng_start_handler env e =
     (if \<not> isInSession (adapter e) then
        (case startFix env (adapter e) of (ret_val, a) \<Rightarrow>
           (ret_val,
            if ret_val = LOC_API_ADAPTER_ERR_SUCCESS \<or> ret_val = LOC_API_ADAPTER_ERR_ENGINE_DOWN \<or>
               ret_val = LOC_API_ADAPTER_ERR_PHONE_OFFLINE \<or> ret_val = LOC_API_ADAPTER_ERR_INTERNAL
            then e\<lparr>adapter := setInSession env True a\<rparr> else e\<lparr>adapter := a\<rparr>))
      else (LOC_API_ADAPTER_ERR_SUCCESS, e))"

definition loc_eng_stop :: "eng_env \<Rightarrow> loc_eng \<Rightarrow> int \<times> loc_eng" where
  "loc_eng_stop env e =
     (if \<not> has_adapter e then (- 1, e)
      else (case call_ulp env sendStopFix (adapter e) of
              (taken, a) \<Rightarrow> (0, if taken then e\<lparr>adapter := a\<rparr> else post LocEngStopFix (e\<lparr>adapter := a\<rparr>))))"

definition loc_eng_stop_handler :: "eng_env \<Rightarrow> loc_eng \<Rightarrow> int \<times> loc_eng" where
  "loc_eng_stop_handler env e =
     (if isInSession (adapter e) then
        (case call_modem env StopFix (adapter e) of (ret_val, a) \<Rightarrow>
           (ret_val, e\<lparr>adapter := setInSession env False a\<rparr>))
      else (LOC_API_ADAPTER_ERR_SUCCESS, e))"

definition loc_eng_cleanup :: "eng_env \<Rightarrow> loc_eng \<Rightarrow> loc_eng" where
  "loc_eng_cleanup env e =
     (if \<not> has_adapter e then e
      else if isInSession (adapter e) then snd (loc_eng_stop env e) else e)"

definition loc_eng_mute_one_session :: "loc_eng \<Rightarrow> loc_eng" where
  "loc_eng_mute_one_session e = e\<lparr>ni_data := (ni_data e)\<lparr>mute_session_state := LOC_MUTE_SESS_WAIT\<rparr>\<rparr>"

text \<open>A modem without assisted modes only gets the standalone mode.\<close>

definition loc_eng_set_position_mode :: "eng_env \<Rightarrow> LocPosMode \<Rightarrow> loc_eng \<Rightarrow> int \<times> loc_eng" where
  "loc_eng_set_position_mode env params e =
     (if \<not> has_adapter e then (- 1, e)
      else
        (let caps = conf_n (gconf e CAPABILITIES);
             p = (if caps AND gpsConfMSB = 0 \<and> caps AND gpsConfMSA = 0 \<and> pm_mode params \<noteq> LOC_POSITION_MODE_STANDALONE
                  then params\<lparr>pm_mode := LOC_POSITION_MODE_STANDALONE\<rparr> else params)
         in (case call_ulp env (sendFixMode p) (adapter e) of
               (taken, a) \<Rightarrow> (0, if taken then e\<lparr>adapter := a\<rparr> else post (LocEngPositionMode p) (e\<lparr>adapter := a\<rparr>)))))"

section \<open>Injection and aiding data\<close>

definition loc_eng_inject_time :: "int \<Rightarrow> int \<Rightarrow> int \<Rightarrow> loc_eng \<Rightarrow> int \<times> loc_eng" where
  "loc_eng_inject_time time timeReference uncertainty e =
     (if \<not> has_adapter e then (- 1, e) else (0, post (LocEngSetTime time timeReference uncertainty) e))"

definition loc_eng_inject_location :: "rat \<Rightarrow> rat \<Rightarrow> rat \<Rightarrow> loc_eng \<Rightarrow> int \<times> loc_eng" where
  "loc_eng_inject_location lat lon accur e =
     (if \<not> has_adapter e then (- 1, e)
      else (0, if mSupportsPositionInjection (adapter e) then post (Down (LocEngInjectLocation lat lon accur)) e else e))"

definition loc_eng_delete_aiding_data :: "16 word \<Rightarrow> loc_eng \<Rightarrow> loc_eng" where
  "loc_eng_delete_aiding_data f e = (if \<not> has_adapter e then e else post (LocEngDelAidData f) e)"

definition update_aiding_data_for_deletion :: "eng_env \<Rightarrow> loc_eng \<Rightarrow> loc_eng" where
  "update_aiding_data_for_deletion env e =
     (if engine_status e \<noteq> GPS_STATUS_ENGINE_ON \<and> aiding_data_for_deletion e \<noteq> 0
      then (to_modem env (DeleteAidingData (aiding_data_for_deletion e)) e)\<lparr>aiding_data_for_deletion := 0\<rparr>
      else e)"

section \<open>Status reports\<close>

definition loc_inform_gps_status :: "GpsStatusValue \<Rightarrow> loc_eng \<Rightarrow> loc_eng" where
  "loc_inform_gps_status status e = (if status_cb (cbs e) then call_back (CbStatus status) e else e)"

definition set_mute :: "loc_mute_session \<Rightarrow> loc_eng \<Rightarrow> loc_eng" where
  "set_mute m e = e\<lparr>ni_data := (ni_data e)\<lparr>mute_session_state := m\<rparr>\<rparr>"

definition mute_transition :: "GpsStatusValue \<Rightarrow> loc_mute_session \<Rightarrow> loc_mute_session" where
  "mute_transition status m =
     (let m1 = (if (status = GPS_STATUS_SESSION_BEGIN \<or> status = GPS_STATUS_ENGINE_ON) \<and> m = LOC_MUTE_SESS_WAIT
                then LOC_MUTE_SESS_IN_SESSION else m)
      in if m1 = LOC_MUTE_SESS_IN_SESSION \<and> (status = GPS_STATUS_SESSION_END \<or> status = GPS_STATUS_ENGINE_OFF)
         then LOC_MUTE_SESS_NONE else m1)"

definition loc_eng_report_status :: "GpsStatusValue \<Rightarrow> loc_eng \<Rightarrow> loc_eng" where
  "loc_eng_report_status status e =
     (let e1 = set_mute (mute_transition status (mute_session_state (ni_data e))) e;
          navigating = isInSession (adapter e1);
          e2 = (if status \<noteq> GPS_STATUS_NONE \<and> \<not> (status = GPS_STATUS_SESSION_END \<and> navigating) \<and>
                   \<not> (status = GPS_STATUS_SESSION_BEGIN \<and> \<not> navigating) \<and> \<not> muted e1
                then loc_inform_gps_status status e1 else e1);
          e3 = (if status = GPS_STATUS_ENGINE_ON \<or> status = GPS_STATUS_ENGINE_OFF then e2\<lparr>engine_status := status\<rparr> else e2)
      in if status = GPS_STATUS_SESSION_BEGIN \<or> status = GPS_STATUS_SESSION_END then e3\<lparr>fix_session_status := status\<rparr> else e3)"

section \<open>Position and satellite reports\<close>

definition accurate_enough :: "ulp_location \<Rightarrow> loc_eng \<Rightarrow> bool" where
  "accurate_enough loc e \<longleftrightarrow>
     \<not> (has_accuracy loc \<and> conf_n (gconf e ACCURACY_THRES) \<noteq> 0 \<and>
        accuracy loc > rat_of_int (uint (conf_n (gconf e ACCURACY_THRES))))"

definition accept_position :: "ulp_location \<Rightarrow> loc_sess_status \<Rightarrow> u32 \<Rightarrow> loc_eng \<Rightarrow> bool" where
  "accept_position loc status tech e \<longleftrightarrow>
     status = LOC_SESS_SUCCESS \<and>
       (LOC_POS_TECH_MASK_SATELLITE OR LOC_POS_TECH_MASK_SENSORS OR LOC_POS_TECH_MASK_HYBRID) AND tech \<noteq> 0 \<or>
     intermediateFix e = 1 \<and> accurate_enough loc e"

definition report_location :: "ulp_location \<Rightarrow> loc_sess_status \<Rightarrow> u32 \<Rightarrow> loc_eng \<Rightarrow> bool \<times> loc_eng" where
  "report_location loc status tech e =
     (if \<not> location_cb (cbs e) then (False, e)
      else if status = LOC_SESS_FAILURE then (True, call_back (CbLocation None) e)
      else if accept_position loc status tech e then (True, call_back (CbLocation (Some loc)) e)
      else (False, e))"

definition end_single_shot :: "eng_env \<Rightarrow> bool \<Rightarrow> loc_sess_status \<Rightarrow> loc_eng \<Rightarrow> loc_eng" where
  "end_single_shot env reported status e =
     (if reported \<and> pm_recurrence (mFixCriteria (adapter e)) = GPS_POSITION_RECURRENCE_SINGLE
      then on_adapter (setInSession env False) (if status = LOC_SESS_INTERMEDIATE then to_modem env StopFix e else e)
      else e)"

text \<open>The sentences that a generator call adds are handed to \<open>nmea_cb\<close>, if it is registered.\<close>

definition emit_nmea :: "(nmea_state \<Rightarrow> nmea_state) \<Rightarrow> loc_eng \<Rightarrow> loc_eng" where
  "emit_nmea f e =
     (let n = f (nmea_data e); new = drop (length (nmea_sent (nmea_data e))) (nmea_sent n)
      in e\<lparr>nmea_data := n, eng_out := eng_out e @ (if nmea_cb (cbs e) then map (\<lambda>x. CbNmea (fst x)) new else [])\<rparr>)"

definition report_position_proc ::
  "eng_env \<Rightarrow> ulp_location \<Rightarrow> location_extended \<Rightarrow> loc_sess_status \<Rightarrow> u32 \<Rightarrow> loc_eng \<Rightarrow> loc_eng" where
  "report_position_proc env loc ext status tech e =
     (if muted e then e
      else (case report_location loc status tech e of
        (reported, e1) \<Rightarrow>
          (let e2 = end_single_shot env reported status e1
           in if generateNmea e2 \<and> isInSession (adapter e2)
              then emit_nmea (nmea_generate_pos (gps_location.truncate loc) ext (reported \<and> status \<noteq> LOC_SESS_FAILURE)
                     (pm_mode (mFixCriteria (adapter e2)) = LOC_POSITION_MODE_STANDALONE)) e2
              else e2)))"

definition report_sv_proc :: "sv_status \<Rightarrow> location_extended \<Rightarrow> loc_eng \<Rightarrow> loc_eng" where
  "report_sv_proc sv ext e =
     (if muted e then e
      else
        (let e1 = (if sv_status_cb (cbs e) then call_back (CbSv sv) e else e)
         in if generateNmea e1 then emit_nmea (nmea_generate_sv (sv_list sv) (gps_used_in_fix_mask sv) ext) e1 else e1))"

section \<open>AGPS machines\<close>

definition AGPS_TYPE_INVALID :: int where "AGPS_TYPE_INVALID = - 1"
definition AGPS_TYPE_SUPL :: int where "AGPS_TYPE_SUPL = 1"
definition AGPS_TYPE_WWAN_ANY :: int where "AGPS_TYPE_WWAN_ANY = 3"
definition AGPS_TYPE_WIFI :: int where "AGPS_TYPE_WIFI = 4"
definition AGPS_TYPE_SUPL_ES :: int where "AGPS_TYPE_SUPL_ES = 5"

lemmas agps_type_defs = AGPS_TYPE_INVALID_def AGPS_TYPE_SUPL_def AGPS_TYPE_WWAN_ANY_def AGPS_TYPE_WIFI_def AGPS_TYPE_SUPL_ES_def

text \<open>\<^verbatim>\<open>getAgpsStateMachine\<close>; the result is a null pointer when the machine does not exist.\<close>

definition getAgpsStateMachine :: "int \<Rightarrow> loc_eng \<Rightarrow> nif option" where
  "getAgpsStateMachine agpsType e =
     (let w = (if agpsType = AGPS_TYPE_WIFI then wifi_nif
               else if agpsType = AGPS_TYPE_INVALID \<or> agpsType = AGPS_TYPE_SUPL then agnss_nif
               else if agpsType = AGPS_TYPE_SUPL_ES then (if nifs e ds_nif \<noteq> None then ds_nif else agnss_nif)
               else internet_nif)
      in if nifs e w \<noteq> None then Some w else None)"

definition dataCallCb :: "eng_env \<Rightarrow> agps_sm \<Rightarrow> AGpsStatusValue \<Rightarrow> int" where
  "dataCallCb env sm action = (if action = GPS_REQUEST_AGPS_DATA_CONN then data_call env sm else 0)"

definition send_of :: "eng_env \<Rightarrow> nif \<Rightarrow> send_fun" where
  "send_of env w = (if w = ds_nif then ds_sendRsrcRequest (dataCallCb env) else sendRsrcRequest)"

text \<open>What a call out of a machine reaches: the modem, the adapter's own requests, or the outside.\<close>

definition agps_dispatch :: "eng_env \<Rightarrow> agps_call \<Rightarrow> loc_eng \<Rightarrow> loc_eng" where
  "agps_dispatch env c e =
     (case c of
        AtlOpenStatus i ok apn bearer type \<Rightarrow> to_modem env (MAtlOpenStatus i ok apn bearer type) e
      | AtlCloseStatus i ok \<Rightarrow> to_modem env (MAtlCloseStatus i ok) e
      | CloseDataCall \<Rightarrow> to_modem env MCloseDataCall e
      | DataCall action \<Rightarrow>
          to_modem env (if action = GPS_REQUEST_AGPS_DATA_CONN then OpenAndStartDataCall else StopDataCall) e
      | RequestATL i \<Rightarrow> on_adapter (\<lambda>a. snd (adapter_upcall env [] (requestATL i AGPS_TYPE_SUPL) a)) e
      | RequestSuplES i \<Rightarrow> on_adapter (\<lambda>a. snd (adapter_upcall env [] (requestSuplES i) a)) e
      | _ \<Rightarrow> call_back (CbAgps c) e)"

definition nif_do :: "eng_env \<Rightarrow> nif \<Rightarrow> (agps_sm \<Rightarrow> agps_sm) \<Rightarrow> loc_eng \<Rightarrow> loc_eng" where
  "nif_do env w f e =
     (case nifs e w of
        None \<Rightarrow> e
      | Some sm \<Rightarrow>
          fold (agps_dispatch env) (drop (length (agps_out sm)) (agps_out (f sm))) (e\<lparr>nifs := (nifs e)(w \<mapsto> f sm)\<rparr>))"

definition nif_subscribe :: "eng_env \<Rightarrow> nif \<Rightarrow> subscriber \<Rightarrow> loc_eng \<Rightarrow> loc_eng" where
  "nif_subscribe env w s = nif_do env w (subscribeRsrc (send_of env w) s)"

definition nif_unsubscribe :: "eng_env \<Rightarrow> nif \<Rightarrow> subscriber \<Rightarrow> loc_eng \<Rightarrow> bool \<times> loc_eng" where
  "nif_unsubscribe env w s e =
     ((case nifs e w of None \<Rightarrow> False | Some sm \<Rightarrow> fst (unsubscribeRsrc (send_of env w) s sm)),
      nif_do env w (\<lambda>sm. snd (unsubscribeRsrc (send_of env w) s sm)) e)"

definition nif_event :: "eng_env \<Rightarrow> nif \<Rightarrow> AgpsRsrcStatus \<Rightarrow> loc_eng \<Rightarrow> loc_eng" where
  "nif_event env w event =
     nif_do env w (if w = ds_nif then ds_onRsrcEvent (send_of env w) event else agps_onRsrcEvent (send_of env w) event)"

section \<open>Servers\<close>

definition decimal_port :: "int \<Rightarrow> string" where
  "decimal_port port = nat_str (unat (word_of_int port :: u32))"

text \<open>No caller passes a null host name.\<close>

definition loc_eng_set_server :: "eng_env \<Rightarrow> LocServerType \<Rightarrow> string \<Rightarrow> int \<Rightarrow> loc_eng \<Rightarrow> int \<times> loc_eng" where
  "loc_eng_set_server env type hostname port e =
     (case type of
        LOC_AGPS_SUPL_SERVER \<Rightarrow>
          (let url = (if map tolower hostname = ''none'' then [] else hostname @ '':'' @ decimal_port port)
           in (0, if length url < 256 then post (Down (LocEngSetServerUrl url)) e else e))
      | _ \<Rightarrow>
          (case resolve_in_addr env hostname of
             None \<Rightarrow> (- 2, e)
           | Some ip \<Rightarrow> (0, post (Down (LocEngSetServerIpv4 ip port type)) e)))"

definition loc_eng_set_server_proxy :: "eng_env \<Rightarrow> LocServerType \<Rightarrow> string \<Rightarrow> int \<Rightarrow> loc_eng \<Rightarrow> int \<times> loc_eng" where
  "loc_eng_set_server_proxy env type hostname port e =
     (let e1 = (case type of
            LOC_AGPS_SUPL_SERVER \<Rightarrow> e\<lparr>supl_host := Some (take 100 hostname, port)\<rparr>
          | LOC_AGPS_CDMA_PDE_SERVER \<Rightarrow> e\<lparr>c2k_host := Some (take 100 hostname, port)\<rparr>
          | _ \<Rightarrow> e)
      in if has_adapter e1 then loc_eng_set_server env type hostname port e1 else (0, e1))"

definition loc_eng_agps_reinit :: "eng_env \<Rightarrow> loc_eng \<Rightarrow> loc_eng" where
  "loc_eng_agps_reinit env e =
     (let e1 = (case supl_host e of None \<Rightarrow> e | Some (h, p) \<Rightarrow> snd (loc_eng_set_server env LOC_AGPS_SUPL_SERVER h p e))
      in case c2k_host e1 of None \<Rightarrow> e1 | Some (h, p) \<Rightarrow> snd (loc_eng_set_server env LOC_AGPS_CDMA_PDE_SERVER h p e1))"

section \<open>Initialisation\<close>

definition loc_eng_xtra_version_check :: "int \<Rightarrow> loc_eng \<Rightarrow> loc_eng" where
  "loc_eng_xtra_version_check check = post (LocEngSetXtraVersionCheck check)"

definition reinit_msgs :: "loc_eng \<Rightarrow> eng_msg list" where
  "reinit_msgs e =
     (let g = gconf e; s = sconf e
      in [LocEngGnssConstellationConfig,
          Down (LocEngSuplVer (conf_n (g SUPL_VER))),
          Down (LocEngLppConfig (conf_n (g LPP_PROFILE))),
          Down (LocEngSensorControlConfig (conf_n (s SENSOR_USAGE)) (conf_n (s SENSOR_PROVIDER))),
          Down (LocEngAGlonassProtocol (conf_n (g A_GLONASS_POS_PROTOCOL_SELECT)))] @
         (if conf_v (s GYRO_BIAS_RANDOM_WALK_VALID) \<noteq> 0 \<or> conf_v (s ACCEL_RANDOM_WALK_SPECTRAL_DENSITY_VALID) \<noteq> 0 \<or>
             conf_v (s ANGLE_RANDOM_WALK_SPECTRAL_DENSITY_VALID) \<noteq> 0 \<or>
             conf_v (s RATE_RANDOM_WALK_SPECTRAL_DENSITY_VALID) \<noteq> 0 \<or>
             conf_v (s VELOCITY_RANDOM_WALK_SPECTRAL_DENSITY_VALID) \<noteq> 0
          then [Down (LocEngSensorProperties
                  [(conf_v (s GYRO_BIAS_RANDOM_WALK_VALID), conf_f (s GYRO_BIAS_RANDOM_WALK)),
                   (conf_v (s ACCEL_RANDOM_WALK_SPECTRAL_DENSITY_VALID), conf_f (s ACCEL_RANDOM_WALK_SPECTRAL_DENSITY)),
                   (conf_v (s ANGLE_RANDOM_WALK_SPECTRAL_DENSITY_VALID), conf_f (s ANGLE_RANDOM_WALK_SPECTRAL_DENSITY)),
                   (conf_v (s RATE_RANDOM_WALK_SPECTRAL_DENSITY_VALID), conf_f (s RATE_RANDOM_WALK_SPECTRAL_DENSITY)),
                   (conf_v (s VELOCITY_RANDOM_WALK_SPECTRAL_DENSITY_VALID),
                    conf_f (s VELOCITY_RANDOM_WALK_SPECTRAL_DENSITY))])]
          else []) @
         [Down (LocEngSensorPerfControlConfig
            (map (\<lambda>f. conf_n (s f))
               [SENSOR_CONTROL_MODE, SENSOR_ACCEL_SAMPLES_PER_BATCH, SENSOR_ACCEL_BATCHES_PER_SEC,
                SENSOR_GYRO_SAMPLES_PER_BATCH, SENSOR_GYRO_BATCHES_PER_SEC, SENSOR_ACCEL_SAMPLES_PER_BATCH_HIGH,
                SENSOR_ACCEL_BATCHES_PER_SEC_HIGH, SENSOR_GYRO_SAMPLES_PER_BATCH_HIGH,
                SENSOR_GYRO_BATCHES_PER_SEC_HIGH, SENSOR_ALGORITHM_CONFIG_MASK])),
          LocEngEnableData None (if agpsStatus e \<noteq> 0 then 1 else 0)])"

definition loc_eng_reinit :: "loc_eng \<Rightarrow> loc_eng" where
  "loc_eng_reinit e =
     loc_eng_xtra_version_check (sint (conf_n (gconf e XTRA_VERSION_CHECK))) (post_all (reinit_msgs e) e)"

text \<open>
  \<^verbatim>\<open>loc_eng_init\<close> clears the whole structure; the configuration and the data status are globals.  The
  event mask goes to the registration of the adapter, without the modem's NMEA when the engine
  generates its own.
\<close>

definition memset_eng :: "loc_eng \<Rightarrow> loc_eng" where
  "memset_eng e =
     e\<lparr>has_adapter := False, cbs := no_cbs, intermediateFix := 0, nifs := (\<lambda>_. None), engine_status := GPS_STATUS_NONE,
       fix_session_status := GPS_STATUS_NONE, aiding_data_for_deletion := 0, ni_data := ni_zero, generateNmea := False,
       nmea_data := \<lparr>sv_used_mask = 0, c_pdop = 0, c_hdop = 0, c_vdop = 0, nmea_sent = []\<rparr>, supl_host := None, c2k_host := None\<rparr>"

definition loc_eng_init :: "eng_cbs option \<Rightarrow> event_mask \<Rightarrow> loc_eng \<Rightarrow> int \<times> event_mask \<times> loc_eng" where
  "loc_eng_init callbacks event e =
     (case callbacks of
        None \<Rightarrow> (- 1, event, e)
      | Some c \<Rightarrow>
          if event = 0 then (- 1, event, e)
          else if has_adapter e then (0, event, e)
          else
            (let own = (event AND LOC_API_ADAPTER_BIT_NMEA_1HZ_REPORT \<noteq> 0 \<and> conf_n (gconf e NMEA_PROVIDER) = 0);
                 e1 = (memset_eng e)\<lparr>cbs := c\<lparr>gps_measurement_cb := False, agps_status_cb := False,
                        download_request_cb := False, report_xtra_server_cb := False\<rparr>,
                        intermediateFix := ucast (conf_n (gconf e INTERMEDIATE_POS)), generateNmea := own,
                        has_adapter := True, adapter := LocEngAdapter_new\<rparr>
             in (0, if own then event XOR LOC_API_ADAPTER_BIT_NMEA_1HZ_REPORT else event, post LocEngInit e1)))"

text \<open>\<^verbatim>\<open>loc_eng_agps_init\<close>; the daemon's connection thread is not modelled.\<close>

definition loc_eng_agps_init :: "eng_env \<Rightarrow> bool \<Rightarrow> loc_eng \<Rightarrow> loc_eng" where
  "loc_eng_agps_init env callbacks e =
     (if \<not> has_adapter e \<or> agps_status_cb (cbs e) \<or> \<not> callbacks then e
      else
        (let e1 = e\<lparr>cbs := (cbs e)\<lparr>agps_status_cb := True\<rparr>,
                    nifs := (nifs e)(internet_nif \<mapsto> agps_new servicerTypeAgps AGPS_TYPE_WWAN_ANY False,
                                     wifi_nif \<mapsto> agps_new servicerTypeAgps AGPS_TYPE_WIFI True)\<rparr>;
             caps = conf_n (gconf e CAPABILITIES)
         in if caps AND gpsConfMSA \<noteq> 0 \<or> caps AND gpsConfMSB \<noteq> 0 then
              (let e2 = e1\<lparr>nifs := (nifs e1)(agnss_nif \<mapsto> agps_new servicerTypeAgps AGPS_TYPE_SUPL False)\<rparr>;
                   e3 = (if mSupportsAgpsRequests (adapter e2) \<and> conf_n (gconf e2 USE_EMERGENCY_PDN_FOR_EMERGENCY_SUPL) \<noteq> 0
                         then post (Agps LocEngDataClientInit) e2 else e2)
               in loc_eng_agps_reinit env e3)
            else e1))"

definition MAX_APN_LEN :: nat where
  "MAX_APN_LEN = 100"

definition loc_eng_agps_open :: "int \<Rightarrow> string option \<Rightarrow> int \<Rightarrow> loc_eng \<Rightarrow> int \<times> loc_eng" where
  "loc_eng_agps_open agpsType apn bearerType e =
     (if \<not> (has_adapter e \<and> agps_status_cb (cbs e)) then (- 1, e)
      else (case apn of
              None \<Rightarrow> (0, e)
            | Some n \<Rightarrow>
                (0, post (Agps (LocEngAtlOpenSuccess (getAgpsStateMachine agpsType e) (take MAX_APN_LEN n) bearerType)) e)))"

definition loc_eng_agps_closed :: "int \<Rightarrow> loc_eng \<Rightarrow> int \<times> loc_eng" where
  "loc_eng_agps_closed agpsType e =
     (if \<not> (has_adapter e \<and> agps_status_cb (cbs e)) then (- 1, e)
      else (0, post (Agps (LocEngAtlClosed (getAgpsStateMachine agpsType e))) e))"

definition loc_eng_agps_open_failed :: "int \<Rightarrow> loc_eng \<Rightarrow> int \<times> loc_eng" where
  "loc_eng_agps_open_failed agpsType e =
     (if \<not> (has_adapter e \<and> agps_status_cb (cbs e)) then (- 1, e)
      else (0, post (Agps (LocEngAtlOpenFailed (getAgpsStateMachine agpsType e))) e))"

definition loc_eng_agps_ril_update_network_availability :: "int \<Rightarrow> string option \<Rightarrow> loc_eng \<Rightarrow> loc_eng" where
  "loc_eng_agps_ril_update_network_availability available apn e =
     (let e1 = e\<lparr>agpsStatus := available\<rparr>
      in if \<not> has_adapter e1 then e1
         else (case apn of None \<Rightarrow> e1 | Some n \<Rightarrow> post (LocEngEnableData (Some (take MAX_APN_LEN n)) available) e1))"

section \<open>Certificates, configuration, measurements and XTRA\<close>

datatype cert_result =
  AGPS_CERTIFICATE_OPERATION_SUCCESS | AGPS_CERTIFICATE_ERROR_GENERIC | AGPS_CERTIFICATE_ERROR_TOO_MANY_CERTIFICATES

text \<open>The slots of a mask: each step clears the lowest bit.\<close>

lemma clear_lowest_decreases:
  fixes w :: u32
  assumes "w \<noteq> 0"
  shows "unat (w AND (w - 1)) < unat w"
proof -
  have "w AND (w - 1) \<le> w - 1" by (rule word_and_le1)
  moreover have "w - 1 < w" using assms by (simp add: word_less_nat_alt unat_minus_one unat_gt_0)
  ultimately show ?thesis by (simp add: word_less_nat_alt word_le_nat_alt)
qed

function slot_count :: "u32 \<Rightarrow> nat" where
  "slot_count counter = (if counter = 0 then 0 else Suc (slot_count (counter AND (counter - 1))))"
  by pat_completeness auto
termination
  by (relation "measure unat") (use clear_lowest_decreases in auto)

declare slot_count.simps [simp del]

definition loc_eng_agps_install_certificates :: "eng_env \<Rightarrow> string list \<Rightarrow> loc_eng \<Rightarrow> cert_result \<times> loc_eng" where
  "loc_eng_agps_install_certificates env certificates e =
     (let slotBitMask = conf_n (gconf e AGPS_CERT_WRITABLE_MASK); slotCount = slot_count slotBitMask
      in if certificates = [] then (AGPS_CERTIFICATE_OPERATION_SUCCESS, e)
         else if \<not> has_adapter e then (AGPS_CERTIFICATE_ERROR_GENERIC, e)
         else if slotCount < length certificates then (AGPS_CERTIFICATE_ERROR_TOO_MANY_CERTIFICATES, e)
         else if list_ex (\<lambda>c. length c > AGPS_CERTIFICATE_MAX_LENGTH env) certificates
         then (AGPS_CERTIFICATE_ERROR_GENERIC, e)
         else (AGPS_CERTIFICATE_OPERATION_SUCCESS, post (Down (LocEngInstallAGpsCert certificates slotBitMask)) e))"

definition loc_eng_configuration_update :: "string option \<Rightarrow> int \<Rightarrow> loc_eng \<Rightarrow> loc_eng" where
  "loc_eng_configuration_update config_data len e =
     (case configuration_update (has_adapter e) (ulp_obj (mUlp (adapter e))) config_data len (conf e) of
        (msgs, c) \<Rightarrow> post_all msgs (e\<lparr>conf := c\<rparr>))"

datatype measurement_result =
  GPS_MEASUREMENT_OPERATION_SUCCESS | GPS_MEASUREMENT_ERROR_ALREADY_INIT | GPS_MEASUREMENT_ERROR_GENERIC

definition loc_eng_gps_measurement_init :: "bool option \<Rightarrow> loc_eng \<Rightarrow> measurement_result \<times> loc_eng" where
  "loc_eng_gps_measurement_init callbacks e =
     (if gps_measurement_cb (cbs e) then (GPS_MEASUREMENT_ERROR_ALREADY_INIT, e)
      else (case callbacks of
              None \<Rightarrow> (GPS_MEASUREMENT_ERROR_GENERIC, e)
            | Some cb \<Rightarrow>
                if \<not> has_adapter e then (GPS_MEASUREMENT_ERROR_GENERIC, e)
                else
                  (let e1 = post (Down (LocEngUpdateRegistrationMask LOC_API_ADAPTER_BIT_GNSS_MEASUREMENT
                              LOC_REGISTRATION_MASK_ENABLED)) e
                   in (GPS_MEASUREMENT_OPERATION_SUCCESS, e1\<lparr>cbs := (cbs e1)\<lparr>gps_measurement_cb := cb\<rparr>\<rparr>))))"

definition loc_eng_gps_measurement_close :: "loc_eng \<Rightarrow> loc_eng" where
  "loc_eng_gps_measurement_close e =
     (if \<not> has_adapter e then e
      else
        (let e1 = post (Down (LocEngUpdateRegistrationMask LOC_API_ADAPTER_BIT_GNSS_MEASUREMENT
                    LOC_REGISTRATION_MASK_DISABLED)) e
         in e1\<lparr>cbs := (cbs e1)\<lparr>gps_measurement_cb := False\<rparr>\<rparr>))"

text \<open>XTRA; the last two dereference the adapter without a test: \<open>None\<close> is a fault.\<close>

definition loc_eng_xtra_init :: "(bool \<times> bool) option \<Rightarrow> loc_eng \<Rightarrow> int \<times> loc_eng" where
  "loc_eng_xtra_init callbacks e =
     (case callbacks of
        None \<Rightarrow> (- 1, e)
      | Some (download, server) \<Rightarrow>
          (0, e\<lparr>cbs := (cbs e)\<lparr>download_request_cb := download, report_xtra_server_cb := server\<rparr>\<rparr>))"

definition loc_eng_xtra_inject_data :: "string \<Rightarrow> loc_eng \<Rightarrow> (int \<times> loc_eng) option" where
  "loc_eng_xtra_inject_data data e =
     (if has_adapter e then Some (0, post (Down (LocEngInjectXtraData data)) e) else None)"

definition loc_eng_xtra_request_server :: "loc_eng \<Rightarrow> (int \<times> loc_eng) option" where
  "loc_eng_xtra_request_server e =
     (if has_adapter e then Some (0, post (Down LocEngRequestXtraServer) e) else None)"

section \<open>Modem restarts\<close>

definition loc_eng_handle_engine_down :: "loc_eng \<Rightarrow> loc_eng" where
  "loc_eng_handle_engine_down e =
     loc_eng_report_status GPS_STATUS_ENGINE_OFF (e\<lparr>ni_data := loc_eng_ni_reset_on_engine_restart (ni_data e)\<rparr>)"

definition drop_subscribers :: "nif \<Rightarrow> loc_eng \<Rightarrow> loc_eng" where
  "drop_subscribers w e = e\<lparr>nifs := (nifs e)(w := map_option dropAllSubscribers (nifs e w))\<rparr>"

definition loc_eng_handle_engine_up :: "eng_env \<Rightarrow> loc_eng \<Rightarrow> loc_eng" where
  "loc_eng_handle_engine_up env e =
     (let e1 = on_adapter (requestPowerVote env) (loc_eng_reinit e);
          e2 = (if agps_status_cb (cbs e1)
                then loc_eng_agps_reinit env (drop_subscribers internet_nif (drop_subscribers agnss_nif e1)) else e1)
      in if isInSession (adapter e2) then post LocEngStartFix (on_adapter (setInSession env False) e2) else e2)"

section \<open>The messages\<close>

text \<open>
  One definition per class of messages: what its \<open>proc\<close> does.  First those that make one call into the
  modem interface, which they are.
\<close>

definition LocEngInjectLocation_proc :: "rat \<Rightarrow> rat \<Rightarrow> rat \<Rightarrow> modem_call" where [simp]:
  "LocEngInjectLocation_proc lat lon accur = InjectPosition lat lon accur"

definition LocEngSetServerIpv4_proc :: "u32 \<Rightarrow> int \<Rightarrow> LocServerType \<Rightarrow> modem_call" where [simp]:
  "LocEngSetServerIpv4_proc ip port type = SetServerIp ip port type"

definition LocEngSetServerUrl_proc :: "string \<Rightarrow> modem_call" where [simp]:
  "LocEngSetServerUrl_proc url = SetServerUrl url"

definition LocEngAGlonassProtocol_proc :: "u32 \<Rightarrow> modem_call" where [simp]:
  "LocEngAGlonassProtocol_proc p = SetAGLONASSProtocol p"

definition LocEngSuplVer_proc :: "u32 \<Rightarrow> modem_call" where [simp]:
  "LocEngSuplVer_proc v = SetSUPLVersion v"

definition LocEngLppConfig_proc :: "u32 \<Rightarrow> modem_call" where [simp]:
  "LocEngLppConfig_proc p = SetLPPConfig p"

definition LocEngSensorControlConfig_proc :: "u32 \<Rightarrow> u32 \<Rightarrow> modem_call" where [simp]:
  "LocEngSensorControlConfig_proc disabled provider = SetSensorControlConfig disabled provider"

definition LocEngSensorProperties_proc :: "(u8 \<times> rat) list \<Rightarrow> modem_call" where [simp]:
  "LocEngSensorProperties_proc ps = SetSensorProperties ps"

definition LocEngSensorPerfControlConfig_proc :: "u32 list \<Rightarrow> modem_call" where [simp]:
  "LocEngSensorPerfControlConfig_proc ps = SetSensorPerfControlConfig ps"

definition LocEngExtPowerConfig_proc :: "int \<Rightarrow> modem_call" where [simp]:
  "LocEngExtPowerConfig_proc charging = SetExtPowerConfig charging"

definition LocEngInstallAGpsCert_proc :: "string list \<Rightarrow> u32 \<Rightarrow> modem_call" where [simp]:
  "LocEngInstallAGpsCert_proc cs slots = InstallAGpsCert cs slots"

definition LocEngUpdateRegistrationMask_proc :: "event_mask \<Rightarrow> loc_registration_mask_status \<Rightarrow> modem_call" where [simp]:
  "LocEngUpdateRegistrationMask_proc ev st = UpdateRegistrationMask ev st"

definition LocEngRequestXtraServer_proc :: "modem_call" where [simp]:
  "LocEngRequestXtraServer_proc = RequestXtraServer"

definition LocEngInjectXtraData_proc :: "string \<Rightarrow> modem_call" where [simp]:
  "LocEngInjectXtraData_proc d = SetXtraData d"

definition LocEngAdapterGpsLock_proc :: "u32 \<Rightarrow> modem_call" where [simp]:
  "LocEngAdapterGpsLock_proc lock = SetGpsLock lock"

definition LocEngInformNiResponse_proc :: "GpsUserResponse \<Rightarrow> nat \<Rightarrow> modem_call" where [simp]:
  "LocEngInformNiResponse_proc r p = InformNiResponse r p"

definition down_call :: "down_msg \<Rightarrow> modem_call" where
  "down_call m =
     (case m of
        LocEngInjectLocation lat lon accur \<Rightarrow> LocEngInjectLocation_proc lat lon accur
      | LocEngSetServerIpv4 ip port type \<Rightarrow> LocEngSetServerIpv4_proc ip port type
      | LocEngSetServerUrl url \<Rightarrow> LocEngSetServerUrl_proc url
      | LocEngAGlonassProtocol p \<Rightarrow> LocEngAGlonassProtocol_proc p
      | LocEngSuplVer v \<Rightarrow> LocEngSuplVer_proc v
      | LocEngLppConfig p \<Rightarrow> LocEngLppConfig_proc p
      | LocEngSensorControlConfig disabled provider \<Rightarrow> LocEngSensorControlConfig_proc disabled provider
      | LocEngSensorProperties ps \<Rightarrow> LocEngSensorProperties_proc ps
      | LocEngSensorPerfControlConfig ps \<Rightarrow> LocEngSensorPerfControlConfig_proc ps
      | LocEngExtPowerConfig charging \<Rightarrow> LocEngExtPowerConfig_proc charging
      | LocEngInstallAGpsCert cs slots \<Rightarrow> LocEngInstallAGpsCert_proc cs slots
      | LocEngUpdateRegistrationMask ev st \<Rightarrow> LocEngUpdateRegistrationMask_proc ev st
      | LocEngRequestXtraServer \<Rightarrow> LocEngRequestXtraServer_proc
      | LocEngInjectXtraData d \<Rightarrow> LocEngInjectXtraData_proc d
      | LocEngAdapterGpsLock lock \<Rightarrow> LocEngAdapterGpsLock_proc lock
      | LocEngInformNiResponse r p \<Rightarrow> LocEngInformNiResponse_proc r p)"

text \<open>Messages to the AGPS machines.  One that points to a machine dereferences it: a null pointer is a fault.\<close>

definition LocEngSuplEsOpened_proc :: "eng_env \<Rightarrow> loc_eng \<Rightarrow> loc_eng" where [simp]:
  "LocEngSuplEsOpened_proc env e = nif_event env ds_nif RSRC_GRANTED e"

definition LocEngSuplEsClosed_proc :: "eng_env \<Rightarrow> loc_eng \<Rightarrow> loc_eng" where [simp]:
  "LocEngSuplEsClosed_proc env e = nif_event env ds_nif RSRC_RELEASED e"

definition LocEngRequestSuplEs_proc :: "eng_env \<Rightarrow> u32 \<Rightarrow> loc_eng \<Rightarrow> loc_eng" where [simp]:
  "LocEngRequestSuplEs_proc env i e =
     (if nifs e ds_nif \<noteq> None then nif_subscribe env ds_nif (DSSubscriber i False) e
      else if nifs e agnss_nif \<noteq> None then nif_subscribe env agnss_nif (ATLSubscriber i False) e
      else to_modem env (MAtlOpenStatus i 0 None (- 1) (- 1)) e)"

definition LocEngRequestATL_proc :: "eng_env \<Rightarrow> u32 \<Rightarrow> int \<Rightarrow> loc_eng \<Rightarrow> loc_eng" where [simp]:
  "LocEngRequestATL_proc env i type e =
     (case getAgpsStateMachine type e of
        Some w \<Rightarrow> nif_subscribe env w (ATLSubscriber i (type = AGPS_TYPE_INVALID)) e
      | None \<Rightarrow> to_modem env (MAtlOpenStatus i 0 None (- 1) type) e)"

definition LocEngReleaseATL_proc :: "eng_env \<Rightarrow> u32 \<Rightarrow> loc_eng \<Rightarrow> loc_eng" where [simp]:
  "LocEngReleaseATL_proc env i e =
     (case nif_unsubscribe env agnss_nif (ATLSubscriber i False) e of
        (True, e1) \<Rightarrow> e1
      | (False, e1) \<Rightarrow>
     (case nif_unsubscribe env internet_nif (ATLSubscriber i False) e1 of
        (True, e2) \<Rightarrow> e2
      | (False, e2) \<Rightarrow>
     (case nif_unsubscribe env ds_nif (DSSubscriber i False) e2 of
        (True, e3) \<Rightarrow> e3
      | (False, e3) \<Rightarrow> to_modem env (MAtlCloseStatus i 0) e3)))"

definition LocEngReqRelBIT_proc :: "eng_env \<Rightarrow> int \<Rightarrow> u32 \<Rightarrow> u8 list \<Rightarrow> bool \<Rightarrow> loc_eng \<Rightarrow> loc_eng option" where [simp]:
  "LocEngReqRelBIT_proc env type v4 v6 isReq e =
     (case getAgpsStateMachine type e of
        None \<Rightarrow> None
      | Some w \<Rightarrow>
          (let s = BITSubscriber v4 (if v6 = [] then [0] else v6)
           in Some (if isReq then nif_subscribe env w s e else snd (nif_unsubscribe env w s e))))"

definition LocEngReqRelWifi_proc :: "eng_env \<Rightarrow> int \<Rightarrow> u32 \<Rightarrow> string option \<Rightarrow> string option \<Rightarrow> bool \<Rightarrow> loc_eng \<Rightarrow> loc_eng" where [simp]:
  "LocEngReqRelWifi_proc env type sender ssid password isReq e =
     (if nifs e wifi_nif \<noteq> None then
        (let s = WIFISubscriber sender ssid password False
         in if isReq then nif_subscribe env wifi_nif s e else snd (nif_unsubscribe env wifi_nif s e))
      else to_modem env (MAtlOpenStatus sender 0 None (- 1) type) e)"

definition LocEngAtlOpenSuccess_proc :: "eng_env \<Rightarrow> nif option \<Rightarrow> string \<Rightarrow> int \<Rightarrow> loc_eng \<Rightarrow> loc_eng option" where [simp]:
  "LocEngAtlOpenSuccess_proc env sm apn bearer e =
     (case sm of
        None \<Rightarrow> None
      | Some w \<Rightarrow> Some (nif_event env w RSRC_GRANTED
          (nif_do env w (\<lambda>s. setAPN (Some apn) (length apn) (s\<lparr>mBearer := bearer\<rparr>)) e)))"

definition LocEngAtlClosed_proc :: "eng_env \<Rightarrow> nif option \<Rightarrow> loc_eng \<Rightarrow> loc_eng option" where [simp]:
  "LocEngAtlClosed_proc env sm e =
     (case sm of None \<Rightarrow> None | Some w \<Rightarrow> Some (nif_event env w RSRC_RELEASED e))"

definition LocEngAtlOpenFailed_proc :: "eng_env \<Rightarrow> nif option \<Rightarrow> loc_eng \<Rightarrow> loc_eng option" where [simp]:
  "LocEngAtlOpenFailed_proc env sm e =
     (case sm of None \<Rightarrow> None | Some w \<Rightarrow> Some (nif_event env w RSRC_DENIED e))"

definition LocEngDataClientInit_proc :: "eng_env \<Rightarrow> loc_eng \<Rightarrow> loc_eng" where [simp]:
  "LocEngDataClientInit_proc env e =
     (case call_modem env InitDataServiceClient (adapter e) of
        (r, a) \<Rightarrow>
          (let e1 = e\<lparr>adapter := a\<rparr>
           in if r = 0 then e1\<lparr>nifs := (nifs e1)(ds_nif \<mapsto> agps_new servicerTypeExt AGPS_TYPE_INVALID False)\<rparr> else e1))"

definition agps_proc :: "eng_env \<Rightarrow> agps_msg \<Rightarrow> loc_eng \<Rightarrow> loc_eng option" where
  "agps_proc env m e =
     (case m of
        LocEngSuplEsOpened \<Rightarrow> Some (LocEngSuplEsOpened_proc env e)
      | LocEngSuplEsClosed \<Rightarrow> Some (LocEngSuplEsClosed_proc env e)
      | LocEngRequestSuplEs i \<Rightarrow> Some (LocEngRequestSuplEs_proc env i e)
      | LocEngRequestATL i type \<Rightarrow> Some (LocEngRequestATL_proc env i type e)
      | LocEngReleaseATL i \<Rightarrow> Some (LocEngReleaseATL_proc env i e)
      | LocEngReqRelBIT type v4 v6 isReq \<Rightarrow> LocEngReqRelBIT_proc env type v4 v6 isReq e
      | LocEngReqRelWifi type sender ssid password isReq \<Rightarrow> Some (LocEngReqRelWifi_proc env type sender ssid password isReq e)
      | LocEngAtlOpenSuccess sm apn bearer \<Rightarrow> LocEngAtlOpenSuccess_proc env sm apn bearer e
      | LocEngAtlClosed sm \<Rightarrow> LocEngAtlClosed_proc env sm e
      | LocEngAtlOpenFailed sm \<Rightarrow> LocEngAtlOpenFailed_proc env sm e
      | LocEngDataClientInit \<Rightarrow> Some (LocEngDataClientInit_proc env e))"

text \<open>Reports for the framework and requests of the modem.\<close>

definition LocEngReportStatus_proc :: "eng_env \<Rightarrow> GpsStatusValue \<Rightarrow> loc_eng \<Rightarrow> loc_eng" where [simp]:
  "LocEngReportStatus_proc env status e =
     update_aiding_data_for_deletion env (loc_eng_report_status status e)"

definition LocEngReportNmea_proc :: "string \<Rightarrow> loc_eng \<Rightarrow> loc_eng" where [simp]:
  "LocEngReportNmea_proc nmea e = (if nmea_cb (cbs e) then call_back (CbNmea nmea) e else e)"

definition LocEngReportXtraServer_proc :: "string list \<Rightarrow> loc_eng \<Rightarrow> loc_eng" where [simp]:
  "LocEngReportXtraServer_proc servers e =
     (if report_xtra_server_cb (cbs e) then call_back (CbXtraServer servers) e else e)"

definition LocEngRequestXtra_proc :: "loc_eng \<Rightarrow> loc_eng" where [simp]:
  "LocEngRequestXtra_proc e = (if download_request_cb (cbs e) then call_back CbXtraDownload e else e)"

definition LocEngRequestTime_proc :: "eng_env \<Rightarrow> loc_eng \<Rightarrow> loc_eng" where [simp]:
  "LocEngRequestTime_proc env e =
     (if conf_n (gconf e CAPABILITIES) AND GPS_CAPABILITY_ON_DEMAND_TIME env \<noteq> 0 \<and> request_utc_time_cb (cbs e)
      then call_back CbRequestUtcTime e else e)"

definition LocEngRequestNi_proc :: "GpsNiNotification \<Rightarrow> nat option \<Rightarrow> loc_eng \<Rightarrow> loc_eng" where [simp]:
  "LocEngRequestNi_proc notif data e =
     e\<lparr>ni_data := loc_eng_ni_request_handler True notif data (ni_data e)\<rparr>"

definition LocEngReportGpsMeasurement_proc :: "nat \<Rightarrow> loc_eng \<Rightarrow> loc_eng" where [simp]:
  "LocEngReportGpsMeasurement_proc d e =
     (if \<not> muted e \<and> gps_measurement_cb (cbs e) then call_back (CbMeasurement d) e else e)"

definition report_proc :: "eng_env \<Rightarrow> report_msg \<Rightarrow> loc_eng \<Rightarrow> loc_eng" where
  "report_proc env m e =
     (case m of
        LocEngReportPosition loc ext status tech \<Rightarrow> report_position_proc env loc ext status tech e
      | LocEngReportSv sv ext \<Rightarrow> report_sv_proc sv ext e
      | LocEngReportStatus status \<Rightarrow> LocEngReportStatus_proc env status e
      | LocEngReportNmea nmea \<Rightarrow> LocEngReportNmea_proc nmea e
      | LocEngReportXtraServer servers \<Rightarrow> LocEngReportXtraServer_proc servers e
      | LocEngRequestXtra \<Rightarrow> LocEngRequestXtra_proc e
      | LocEngRequestTime \<Rightarrow> LocEngRequestTime_proc env e
      | LocEngRequestNi notif data \<Rightarrow> LocEngRequestNi_proc notif data e
      | LocEngReportGpsMeasurement d \<Rightarrow> LocEngReportGpsMeasurement_proc d e)"

text \<open>The other messages.\<close>

definition get_zpp :: "eng_env \<Rightarrow> loc_eng \<Rightarrow> loc_eng" where
  "get_zpp env e =
     (let e1 = to_modem env GetBestAvailableZppFix e;
          loc = (fst (zpp_fix env))\<lparr>position_source := 4\<rparr>;
          ext = \<lparr>has_dop = False, has_msl = False, has_mag_dev = False, altitudeMeanSeaLevel = 0, pdop = 0, hdop = 0,
                 vdop = 0, magneticDeviation = 0\<rparr>
      in on_adapter (\<lambda>a. snd (call_ulp env (UlpReportPosition loc ext LOC_SESS_SUCCESS (snd (zpp_fix env))) a)) e1)"

definition LocEngPositionMode_proc :: "eng_env \<Rightarrow> LocPosMode \<Rightarrow> loc_eng \<Rightarrow> loc_eng" where [simp]:
  "LocEngPositionMode_proc env m e = on_adapter (\<lambda>a. snd (setPositionMode env (Some m) a)) e"

definition LocEngStartFix_proc :: "eng_env \<Rightarrow> loc_eng \<Rightarrow> loc_eng" where [simp]:
  "LocEngStartFix_proc env e = snd (loc_eng_start_handler env e)"

definition LocEngStopFix_proc :: "eng_env \<Rightarrow> loc_eng \<Rightarrow> loc_eng" where [simp]:
  "LocEngStopFix_proc env e = snd (loc_eng_stop_handler env e)"

definition LocEngGetZpp_proc :: "eng_env \<Rightarrow> loc_eng \<Rightarrow> loc_eng" where [simp]:
  "LocEngGetZpp_proc env e = get_zpp env e"

definition LocEngDown_proc :: "loc_eng \<Rightarrow> loc_eng" where [simp]:
  "LocEngDown_proc e = loc_eng_handle_engine_down e"

definition LocEngUp_proc :: "eng_env \<Rightarrow> loc_eng \<Rightarrow> loc_eng" where [simp]:
  "LocEngUp_proc env e = loc_eng_handle_engine_up env e"

definition LocEngSetTime_proc :: "eng_env \<Rightarrow> int \<Rightarrow> int \<Rightarrow> int \<Rightarrow> loc_eng \<Rightarrow> loc_eng" where [simp]:
  "LocEngSetTime_proc env t tf unc e = on_adapter (\<lambda>a. snd (setTime env t tf unc a)) e"

definition LocEngSuplMode_proc :: "eng_env \<Rightarrow> nat \<Rightarrow> loc_eng \<Rightarrow> loc_eng option" where [simp]:
  "LocEngSuplMode_proc env ulp e =
     (if ulp_obj (mUlp (adapter e)) = ulp
      then Some (on_adapter (\<lambda>a. snd (call_ulp env (setCapabilities (getCarrierCapabilities (gconf e))) a)) e)
      else None)"

definition LocEngDelAidData_proc :: "eng_env \<Rightarrow> 16 word \<Rightarrow> loc_eng \<Rightarrow> loc_eng" where [simp]:
  "LocEngDelAidData_proc env f e =
     update_aiding_data_for_deletion env (e\<lparr>aiding_data_for_deletion := f\<rparr>)"

definition LocEngEnableData_proc :: "eng_env \<Rightarrow> string option \<Rightarrow> int \<Rightarrow> loc_eng \<Rightarrow> loc_eng" where [simp]:
  "LocEngEnableData_proc env apn enable e =
     (let e1 = to_modem env (EnableData enable) e
      in case apn of None \<Rightarrow> e1 | Some n \<Rightarrow> to_modem env (SetAPN n) e1)"

definition LocEngSetCapabilities_proc :: "loc_eng \<Rightarrow> loc_eng" where [simp]:
  "LocEngSetCapabilities_proc e =
     (if set_capabilities_cb (cbs e) then call_back (CbSetCapabilities (conf_n (gconf e CAPABILITIES))) e else e)"

definition LocEngInit_proc :: "loc_eng \<Rightarrow> loc_eng" where [simp]:
  "LocEngInit_proc e = post LocEngSetCapabilities (loc_eng_reinit e)"

definition LocEngGnssConstellationConfig_proc :: "eng_env \<Rightarrow> loc_eng \<Rightarrow> loc_eng" where [simp]:
  "LocEngGnssConstellationConfig_proc env e =
     (case call_modem env GnssConstellationConfig (adapter e) of
        (r, a) \<Rightarrow>
          (let e1 = e\<lparr>adapter := a\<rparr>
           in if r \<noteq> 0 then e1\<lparr>conf := (conf e1)\<lparr>gps_conf := (gconf e1)(CAPABILITIES :=
                  CInt (conf_n (gconf e1 CAPABILITIES) OR GPS_CAPABILITY_MEASUREMENTS env))\<rparr>\<rparr>
              else e1))"

definition LocEngSetXtraVersionCheck_proc :: "eng_env \<Rightarrow> int \<Rightarrow> loc_eng \<Rightarrow> loc_eng" where [simp]:
  "LocEngSetXtraVersionCheck_proc env check e =
     on_adapter (\<lambda>a. snd (setXtraVersionCheck env check a)) e"

definition LocSetUlpProxy_proc :: "eng_env \<Rightarrow> ulp_proxy option \<Rightarrow> loc_eng \<Rightarrow> loc_eng" where [simp]:
  "LocSetUlpProxy_proc env ulp e =
     on_adapter (\<lambda>a. setUlpProxy env (Suc (ulp_obj (mUlp a))) ulp a) e"

definition LocSetXtraUserAgent_proc :: "eng_env \<Rightarrow> loc_eng \<Rightarrow> loc_eng option" where [simp]:
  "LocSetXtraUserAgent_proc env e =
     map_option (\<lambda>agent. call_back (CbUserAgent agent) e)
       (setXtraUserAgent (property_get env) (izat_dev_id env) (serial_file env))"

text \<open>The call of \<open>proc\<close> in \<^verbatim>\<open>MsgTask::run\<close>, which is virtual.\<close>

definition proc :: "eng_env \<Rightarrow> eng_msg \<Rightarrow> loc_eng \<Rightarrow> loc_eng option" where
  "proc env msg e =
     (case msg of
        Down m \<Rightarrow> Some (to_modem env (down_call m) e)
      | Agps m \<Rightarrow> agps_proc env m e
      | Report m \<Rightarrow> Some (report_proc env m e)
      | LocEngPositionMode m \<Rightarrow> Some (LocEngPositionMode_proc env m e)
      | LocEngStartFix \<Rightarrow> Some (LocEngStartFix_proc env e)
      | LocEngStopFix \<Rightarrow> Some (LocEngStopFix_proc env e)
      | LocEngGetZpp \<Rightarrow> Some (LocEngGetZpp_proc env e)
      | LocEngDown \<Rightarrow> Some (LocEngDown_proc e)
      | LocEngUp \<Rightarrow> Some (LocEngUp_proc env e)
      | LocEngSetTime t tf unc \<Rightarrow> Some (LocEngSetTime_proc env t tf unc e)
      | LocEngSuplMode ulp \<Rightarrow> LocEngSuplMode_proc env ulp e
      | LocEngDelAidData f \<Rightarrow> Some (LocEngDelAidData_proc env f e)
      | LocEngEnableData apn enable \<Rightarrow> Some (LocEngEnableData_proc env apn enable e)
      | LocEngSetCapabilities \<Rightarrow> Some (LocEngSetCapabilities_proc e)
      | LocEngInit \<Rightarrow> Some (LocEngInit_proc e)
      | LocEngGnssConstellationConfig \<Rightarrow> Some (LocEngGnssConstellationConfig_proc env e)
      | LocEngSetXtraVersionCheck check \<Rightarrow> Some (LocEngSetXtraVersionCheck_proc env check e)
      | LocSetUlpProxy ulp \<Rightarrow> Some (LocSetUlpProxy_proc env ulp e)
      | LocSetXtraUserAgent \<Rightarrow> LocSetXtraUserAgent_proc env e)"

text \<open>The engine's thread takes the oldest message; with an empty queue it waits.\<close>

definition eng_thread :: "eng_env \<Rightarrow> loc_eng \<Rightarrow> loc_eng option" where
  "eng_thread env e =
     (case adapter_msgs (adapter e) of
        [] \<Rightarrow> Some e
      | m # ms \<Rightarrow> proc env m (on_adapter (\<lambda>a. a\<lparr>adapter_msgs := ms\<rparr>) e))"

end
