(* ===== verification/Eng_Run.thy ===== *)
theory Eng_Run
  imports Loc_Eng
begin

text \<open>
  Runs of the location engine: any interleaving of the framework's calls, the modem's calls and the
  engine's thread, and what holds in every one of them.
\<close>

section \<open>Events\<close>

datatype api_call =
  ApiStart
| ApiStop
| ApiCleanup
| ApiMute
| ApiPositionMode LocPosMode
| ApiInjectTime int int int
| ApiInjectLocation rat rat rat
| ApiDeleteAidingData "16 word"
| ApiAgpsInit bool
| ApiAgpsOpen int "string option" int
| ApiAgpsClosed int
| ApiAgpsOpenFailed int
| ApiSetServer LocServerType string int
| ApiNetworkAvailability int "string option"
| ApiInstallCertificates "string list"
| ApiConfigurationUpdate "string option" int
| ApiMeasurementInit "bool option"
| ApiMeasurementClose
| ApiXtraInit "(bool \<times> bool) option"
| ApiXtraInjectData string
| ApiXtraRequestServer
| ApiNiInit "bool option"
| ApiNiRespond u32 GpsUserResponse
| ApiSetUlp "ulp_proxy option"
| ApiGpsLock u32
| ApiPowerVote bool bool
| ApiSupports bool bool
| ApiXtraUserAgent
| ApiClearAssisted
| ApiReqRelBIT int u32 "u8 list" bool
| ApiReqRelWifi int u32 "string option" "string option" bool

definition api :: "eng_env \<Rightarrow> api_call \<Rightarrow> loc_eng \<Rightarrow> loc_eng option" where
  "api env c e =
     (case c of
        ApiStart \<Rightarrow> Some (snd (loc_eng_start env e))
      | ApiStop \<Rightarrow> Some (snd (loc_eng_stop env e))
      | ApiCleanup \<Rightarrow> Some (loc_eng_cleanup env e)
      | ApiMute \<Rightarrow> Some (loc_eng_mute_one_session e)
      | ApiPositionMode m \<Rightarrow> Some (snd (loc_eng_set_position_mode env m e))
      | ApiInjectTime t tf unc \<Rightarrow> Some (snd (loc_eng_inject_time t tf unc e))
      | ApiInjectLocation lat lon accur \<Rightarrow> Some (snd (loc_eng_inject_location lat lon accur e))
      | ApiDeleteAidingData f \<Rightarrow> Some (loc_eng_delete_aiding_data f e)
      | ApiAgpsInit cb \<Rightarrow> Some (loc_eng_agps_init env cb e)
      | ApiAgpsOpen type apn bearer \<Rightarrow> Some (snd (loc_eng_agps_open type apn bearer e))
      | ApiAgpsClosed type \<Rightarrow> Some (snd (loc_eng_agps_closed type e))
      | ApiAgpsOpenFailed type \<Rightarrow> Some (snd (loc_eng_agps_open_failed type e))
      | ApiSetServer type host port \<Rightarrow> Some (snd (loc_eng_set_server_proxy env type host port e))
      | ApiNetworkAvailability available apn \<Rightarrow> Some (loc_eng_agps_ril_update_network_availability available apn e)
      | ApiInstallCertificates cs \<Rightarrow> Some (snd (loc_eng_agps_install_certificates env cs e))
      | ApiConfigurationUpdate data len \<Rightarrow> Some (loc_eng_configuration_update data len e)
      | ApiMeasurementInit cb \<Rightarrow> Some (snd (loc_eng_gps_measurement_init cb e))
      | ApiMeasurementClose \<Rightarrow> Some (loc_eng_gps_measurement_close e)
      | ApiXtraInit cb \<Rightarrow> Some (snd (loc_eng_xtra_init cb e))
      | ApiXtraInjectData d \<Rightarrow> map_option snd (loc_eng_xtra_inject_data d e)
      | ApiXtraRequestServer \<Rightarrow> map_option snd (loc_eng_xtra_request_server e)
      | ApiNiInit cb \<Rightarrow> Some (e\<lparr>ni_data := loc_eng_ni_init cb (ni_data e)\<rparr>)
      | ApiNiRespond i r \<Rightarrow> Some (e\<lparr>ni_data := loc_eng_ni_respond i r (ni_data e)\<rparr>)
      | ApiSetUlp u \<Rightarrow> Some (post (LocSetUlpProxy u) e)
      | ApiGpsLock lock \<Rightarrow> Some (on_adapter (\<lambda>a. snd (setGpsLockMsg lock a)) e)
      | ApiPowerVote right on \<Rightarrow> Some (on_adapter (\<lambda>a. setPowerVote env on (setPowerVoteRight right a)) e)
      | ApiSupports agps cpi \<Rightarrow>
          Some (on_adapter (\<lambda>a. a\<lparr>mSupportsAgpsRequests := agps, mSupportsPositionInjection := cpi, mSupportsTimeInjection := cpi\<rparr>) e)
      | ApiXtraUserAgent \<Rightarrow> Some (post LocSetXtraUserAgent e)
      | ApiClearAssisted \<Rightarrow> Some (e\<lparr>conf := (conf e)\<lparr>gps_conf := (gconf e)(CAPABILITIES :=
             CInt (conf_n (gconf e CAPABILITIES) AND NOT (gpsConfMSA OR gpsConfMSB)))\<rparr>\<rparr>)
      | ApiReqRelBIT type ipv4 ipv6 isReq \<Rightarrow> Some (post (Agps (LocEngReqRelBIT type ipv4 ipv6 isReq)) e)
      | ApiReqRelWifi type sender ssid password isReq \<Rightarrow> Some (post (Agps (LocEngReqRelWifi type sender ssid password isReq)) e))"

text \<open>A thread of a network-initiated request posts its response to the engine's thread.\<close>

definition ni_thread :: "nat \<Rightarrow> bool \<Rightarrow> loc_eng \<Rightarrow> loc_eng" where
  "ni_thread i timeout e =
     (let n = ni_thread_step i timeout (ni_data e)
      in post_all (map (\<lambda>(r, p). Down (LocEngInformNiResponse r p)) (drop (length (ni_informs (ni_data e))) (ni_informs n)))
           (e\<lparr>ni_data := n\<rparr>))"

definition eng_urls :: "loc_eng \<Rightarrow> string list" where
  "eng_urls e = map (\<lambda>f. conf_s (gconf e f)) [XTRA_SERVER_1, XTRA_SERVER_2, XTRA_SERVER_3]"

datatype eng_event = Thread | UpCall up_call | Api api_call | NiThread nat bool

definition eng_step :: "eng_env \<Rightarrow> eng_event \<Rightarrow> loc_eng \<Rightarrow> loc_eng option" where
  "eng_step env ev e =
     (case ev of
        Thread \<Rightarrow> eng_thread env e
      | UpCall c \<Rightarrow> Some (on_adapter (\<lambda>a. snd (adapter_upcall env (eng_urls e) c a)) e)
      | Api c \<Rightarrow> api env c e
      | NiThread i timeout \<Rightarrow> Some (ni_thread i timeout e))"

fun eng_run :: "eng_env \<Rightarrow> eng_event list \<Rightarrow> loc_eng \<Rightarrow> loc_eng option" where
  "eng_run env [] e = Some e"
| "eng_run env (ev # evs) e = (case eng_step env ev e of None \<Rightarrow> None | Some e1 \<Rightarrow> eng_run env evs e1)"

lemma eng_run_invariant:
  "eng_run env evs e = Some e' \<Longrightarrow> P e \<Longrightarrow>
   (\<And>ev e e'. ev \<in> set evs \<Longrightarrow> eng_step env ev e = Some e' \<Longrightarrow> P e \<Longrightarrow> P e') \<Longrightarrow> P e'"
proof (induction evs arbitrary: e)
  case (Cons ev evs)
  obtain e1 where e1: "eng_step env ev e = Some e1" "eng_run env evs e1 = Some e'"
    using Cons.prems(1) by (auto split: option.splits)
  have "P e1" using Cons.prems(3) [OF _ e1(1) Cons.prems(2)] by simp
  moreover have "P e'" if "ev' \<in> set evs" "eng_step env ev' e = Some e'" "P e" for ev' e e'
    using Cons.prems(3) [OF _ that(2,3)] that(1) by simp
  ultimately show ?case using Cons.IH [OF e1(2)] by blast
qed simp

section \<open>The adapter under the engine's operations\<close>

lemma adapter_simps [simp]:
  "adapter (on_adapter f e) = f (adapter e)" "adapter (post m e) = sendMsg m (adapter e)"
  "adapter (to_modem env c e) = snd (call_modem env c (adapter e))" "adapter (call_back x e) = adapter e"
  "adapter (set_mute b e) = adapter e" "adapter (emit_nmea g e) = adapter e"
  "adapter (loc_inform_gps_status st e) = adapter e" "adapter (loc_eng_report_status st e) = adapter e"
  "adapter (drop_subscribers w e) = adapter e" "adapter (loc_eng_mute_one_session e) = adapter e"
  by (simp_all add: on_adapter_def post_def to_modem_def call_back_def set_mute_def emit_nmea_def
      loc_inform_gps_status_def loc_eng_report_status_def drop_subscribers_def loc_eng_mute_one_session_def Let_def)

lemma adapter_post_all [simp]: "adapter (post_all ms e) = fold sendMsg ms (adapter e)"
  by (induction ms arbitrary: e) (simp_all add: post_all_def)

text \<open>Bounds of the messages that the engine queues.\<close>

definition msg_ok :: "eng_env \<Rightarrow> eng_msg \<Rightarrow> bool" where
  "msg_ok env m =
     (case m of
        Down (LocEngSetServerUrl url) \<Rightarrow> length url < 256
      | Down (LocEngInstallAGpsCert cs slots) \<Rightarrow>
          length cs \<le> slot_count slots \<and> list_all (\<lambda>c. length c \<le> AGPS_CERTIFICATE_MAX_LENGTH env) cs
      | Agps (LocEngAtlOpenSuccess sm apn bearer) \<Rightarrow> length apn \<le> MAX_APN_LEN
      | Report (LocEngReportXtraServer servers) \<Rightarrow> length servers = 3
      | LocEngEnableData (Some apn) enable \<Rightarrow> length apn \<le> MAX_APN_LEN
      | _ \<Rightarrow> True)"

lemma msg_ok_simps [simp]:
  "msg_ok env (Down d) = (case d of
     LocEngSetServerUrl url \<Rightarrow> length url < 256
   | LocEngInstallAGpsCert cs slots \<Rightarrow>
       length cs \<le> slot_count slots \<and> list_all (\<lambda>c. length c \<le> AGPS_CERTIFICATE_MAX_LENGTH env) cs
   | _ \<Rightarrow> True)"
  "msg_ok env (Agps g) = (case g of LocEngAtlOpenSuccess sm apn bearer \<Rightarrow> length apn \<le> MAX_APN_LEN | _ \<Rightarrow> True)"
  "msg_ok env (Report r) = (case r of LocEngReportXtraServer servers \<Rightarrow> length servers = 3 | _ \<Rightarrow> True)"
  "msg_ok env (LocEngEnableData n i) = (case n of None \<Rightarrow> True | Some apn \<Rightarrow> length apn \<le> MAX_APN_LEN)"
  "msg_ok env (LocEngPositionMode pm)" "msg_ok env LocEngStartFix" "msg_ok env LocEngStopFix" "msg_ok env LocEngGetZpp"
  "msg_ok env LocEngDown" "msg_ok env LocEngUp" "msg_ok env (LocEngSetTime t tf unc)" "msg_ok env (LocEngSuplMode u)"
  "msg_ok env (LocEngDelAidData f)" "msg_ok env LocEngSetCapabilities" "msg_ok env LocEngInit"
  "msg_ok env LocEngGnssConstellationConfig" "msg_ok env (LocEngSetXtraVersionCheck check)" "msg_ok env (LocSetUlpProxy p)"
  "msg_ok env LocSetXtraUserAgent"
  by (simp_all add: msg_ok_def)

text \<open>Calls that neither start a fix nor change the session.\<close>

definition plain_call :: "modem_call \<Rightarrow> bool" where
  "plain_call c = (case c of StartFix _ \<Rightarrow> False | SetInSession _ \<Rightarrow> False | _ \<Rightarrow> True)"

lemma plain_down [simp]: "plain_call (down_call m)"
  by (cases m) (simp_all add: plain_call_def down_call_def)

lemma copy_server_length: "length (fold (copy_server n) urls acc) \<le> length acc + length urls"
proof (induction urls arbitrary: acc)
  case (Cons u us)
  have "length (copy_server n u acc) \<le> Suc (length acc)" by (simp add: copy_server_def)
  then show ?case using Cons.IH [of "copy_server n u acc"] by simp
qed simp

lemma xtra_servers_length: "length conf_urls = 3 \<Longrightarrow> length urls = 3 \<Longrightarrow> length (xtra_servers conf_urls urls n) = 3"
  using copy_server_length [of n "map2 (\<lambda>c u. if c \<noteq> [] then c else u) conf_urls urls" "[]"]
  by (simp add: xtra_servers_def Let_def)

section \<open>Invariants of the adapter\<close>

text \<open>
  What an invariant of the adapter has to respect so that every event of a run keeps it: the adapter's
  own operations, with fixes started outside a session only and messages within their bounds.
\<close>

locale adapter_contract =
  fixes env :: eng_env and I :: "eng_adapter \<Rightarrow> bool"
  assumes send: "I a \<Longrightarrow> msg_ok env m \<Longrightarrow> I (sendMsg m a)"
    and pop: "I a \<Longrightarrow> adapter_msgs a = m # ms \<Longrightarrow> I (a\<lparr>adapter_msgs := ms\<rparr>)"
    and down: "I a \<Longrightarrow> plain_call c \<Longrightarrow> I (snd (call_modem env c a))"
    and start: "I a \<Longrightarrow> \<not> mNavigating a \<Longrightarrow> I (snd (startFix env a))"
    and session: "I a \<Longrightarrow> I (setInSession env b a)"
    and fields: "I a \<Longrightarrow> I (a\<lparr>mFixCriteria := pm\<rparr>)" "I a \<Longrightarrow> I (a\<lparr>mPowerVote := v\<rparr>)" "I a \<Longrightarrow> I (a\<lparr>power_out := ps\<rparr>)"
      "I a \<Longrightarrow> I (a\<lparr>mUlp := u\<rparr>)" "I a \<Longrightarrow> I (a\<lparr>ulp_out := us\<rparr>)" "I a \<Longrightarrow> I (a\<lparr>mSupportsTimeInjection := b\<rparr>)"
      "I a \<Longrightarrow> I (a\<lparr>mSupportsAgpsRequests := b1, mSupportsPositionInjection := b2, mSupportsTimeInjection := b3\<rparr>)"
begin

lemma send_all: "I a \<Longrightarrow> list_all (msg_ok env) ms \<Longrightarrow> I (fold sendMsg ms a)"
  by (induction ms arbitrary: a) (auto intro: send)

lemma ulp: "I a \<Longrightarrow> I (snd (call_ulp env c a))"
proof -
  assume "I a"
  then have "I (a\<lparr>mUlp := u, ulp_out := us\<rparr>)" for u us using fields(4,5) by blast
  then show ?thesis by (simp add: call_ulp_def split: prod.split)
qed

lemma ulp_then: "I a \<Longrightarrow> call_ulp env c a = (taken, a') \<Longrightarrow> I a'"
  using ulp by (metis snd_conv)

lemma proxy: "I a \<Longrightarrow> I (setUlpProxy env fresh u a)"
  by (auto simp: setUlpProxy_def Let_def intro!: ulp fields(4))

lemma power: "I a \<Longrightarrow> I (requestPowerVote env a)"
  by (auto simp: requestPowerVote_def plain_call_def intro!: down)

lemma vote: "I a \<Longrightarrow> I (setPowerVote env on (setPowerVoteRight right a))"
  by (auto simp: setPowerVote_def setPowerVoteRight_def Let_def intro!: power fields(2,3))

lemma down_calls:
  "I a \<Longrightarrow> I (snd (setPositionMode env pm a))" "I a \<Longrightarrow> I (snd (setXtraVersionCheck env check a))"
  "I a \<Longrightarrow> I (snd (setTime env t tf unc a))"
  by (auto simp: setPositionMode_def setXtraVersionCheck_def setTime_def Let_def plain_call_def
      intro!: down fields(1,6) split: option.split)

lemma supported: "I a \<Longrightarrow> msg_ok env m \<Longrightarrow> I (snd (if_supported m a))"
  by (simp add: if_supported_def send)

lemma first: "I a \<Longrightarrow> msg_ok env m \<Longrightarrow> I (snd (ulp_first env c m a))"
  by (auto simp: ulp_first_def intro!: send dest: ulp_then split: prod.split)

lemma upcall: "I a \<Longrightarrow> length urls = 3 \<Longrightarrow> I (snd (adapter_upcall env urls c a))"
proof (cases c)
  case (reportXtraServer u1 u2 u3 n)
  assume "I a" "length urls = 3"
  then show ?thesis
    using reportXtraServer xtra_servers_length [of urls "[u1, u2, u3]" n] by (simp add: adapter_upcall_def supported)
qed (simp_all add: adapter_upcall_def send supported first)

lemma dispatch: "I (adapter e) \<Longrightarrow> I (adapter (agps_dispatch env c e))"
  by (cases c) (simp_all add: agps_dispatch_def down plain_call_def adapter_upcall_def supported)

lemma dispatch_all: "I (adapter e) \<Longrightarrow> I (adapter (fold (agps_dispatch env) cs e))"
  by (induction cs arbitrary: e) (simp_all add: dispatch)

lemma nif_ops:
  "I (adapter e) \<Longrightarrow> I (adapter (nif_do env w f e))" "I (adapter e) \<Longrightarrow> I (adapter (nif_subscribe env w s e))"
  "I (adapter e) \<Longrightarrow> I (adapter (snd (nif_unsubscribe env w s e)))" "I (adapter e) \<Longrightarrow> I (adapter (nif_event env w ev e))"
  by (auto simp: nif_do_def nif_subscribe_def nif_unsubscribe_def nif_event_def intro!: dispatch_all split: option.split)

lemma unsubscribe_then: "I (adapter e) \<Longrightarrow> nif_unsubscribe env w s e = (found, e') \<Longrightarrow> I (adapter e')"
  using nif_ops(3) by (metis snd_conv)

lemma servers:
  "I (adapter e) \<Longrightarrow> I (adapter (snd (loc_eng_set_server env type h port e)))"
  by (cases type) (auto simp: loc_eng_set_server_def Let_def intro!: send split: option.split)

lemma agps_reinit: "I (adapter e) \<Longrightarrow> I (adapter (loc_eng_agps_reinit env e))"
  by (auto simp: loc_eng_agps_reinit_def Let_def intro!: servers split: option.split prod.split)

lemma reinit: "I (adapter e) \<Longrightarrow> I (adapter (loc_eng_reinit e))"
  by (auto simp: loc_eng_reinit_def loc_eng_xtra_version_check_def reinit_msgs_def Let_def intro!: send send_all)

lemma handlers:
  "I (adapter e) \<Longrightarrow> I (adapter (snd (loc_eng_start_handler env e)))"
  "I (adapter e) \<Longrightarrow> I (adapter (snd (loc_eng_stop_handler env e)))"
  "I (adapter e) \<Longrightarrow> I (adapter (loc_eng_handle_engine_up env e))"
  "I (adapter e) \<Longrightarrow> I (adapter (loc_eng_handle_engine_down e))"
  "I (adapter e) \<Longrightarrow> I (adapter (update_aiding_data_for_deletion env e))"
proof -
  assume I: "I (adapter e)"
  show "I (adapter (snd (loc_eng_start_handler env e)))"
    using I start [OF I] by (auto simp: loc_eng_start_handler_def isInSession_def intro!: session split: prod.split)
  have "I (snd (call_modem env StopFix (adapter e)))" using I by (simp add: down plain_call_def)
  then show "I (adapter (snd (loc_eng_stop_handler env e)))"
    using I by (auto simp: loc_eng_stop_handler_def intro!: session split: prod.split)
  show "I (adapter (loc_eng_handle_engine_up env e))"
    using I by (auto simp: loc_eng_handle_engine_up_def Let_def intro!: send session agps_reinit power reinit)
  show "I (adapter (loc_eng_handle_engine_down e))" using I by (simp add: loc_eng_handle_engine_down_def)
  show "I (adapter (update_aiding_data_for_deletion env e))"
    using I by (simp add: update_aiding_data_for_deletion_def down plain_call_def)
qed

lemma report: "I (adapter e) \<Longrightarrow> I (adapter (report_proc env m e))"
proof (cases m)
  case (LocEngReportPosition loc ext status tech)
  assume I: "I (adapter e)"
  have "adapter (snd (report_location loc status tech e)) = adapter e" by (simp add: report_location_def)
  moreover have "I (adapter (end_single_shot env r status e1))" if "adapter e1 = adapter e" for r e1
    using I that by (auto simp: end_single_shot_def plain_call_def intro!: session down)
  ultimately show ?thesis
    using I LocEngReportPosition by (auto simp: report_proc_def report_position_proc_def Let_def split: prod.split)
next
  case (LocEngReportStatus st)
  then show "I (adapter e) \<Longrightarrow> ?thesis" by (simp add: report_proc_def handlers)
qed (simp_all add: report_proc_def report_sv_proc_def Let_def)

lemma agps: "I (adapter e) \<Longrightarrow> agps_proc env m e = Some e' \<Longrightarrow> I (adapter e')"
proof (cases m)
  case (LocEngReleaseATL i)
  assume I: "I (adapter e)" and e': "agps_proc env m e = Some e'"
  obtain f1 e1 where u1: "nif_unsubscribe env agnss_nif (ATLSubscriber i False) e = (f1, e1)" by fastforce
  obtain f2 e2 where u2: "nif_unsubscribe env internet_nif (ATLSubscriber i False) e1 = (f2, e2)" by fastforce
  obtain f3 e3 where u3: "nif_unsubscribe env ds_nif (DSSubscriber i False) e2 = (f3, e3)" by fastforce
  have I1: "I (adapter e1)" using unsubscribe_then [OF I u1] .
  have I2: "I (adapter e2)" using unsubscribe_then [OF I1 u2] .
  have I3: "I (adapter e3)" using unsubscribe_then [OF I2 u3] .
  have "I (snd (call_modem env (MAtlCloseStatus i 0) (adapter e3)))" using I3 by (simp add: down plain_call_def)
  with I1 I2 I3 e' LocEngReleaseATL u1 u2 u3 show ?thesis
    by (cases f1; cases f2; cases f3) (auto simp: agps_proc_def)
next
  case LocEngDataClientInit
  assume "I (adapter e)" "agps_proc env m e = Some e'"
  moreover from this have "I (snd (call_modem env InitDataServiceClient (adapter e)))" by (simp add: down plain_call_def)
  ultimately show ?thesis
    using LocEngDataClientInit by (auto simp: agps_proc_def Let_def split: prod.splits if_splits)
qed (auto simp: agps_proc_def nif_ops down plain_call_def Let_def split: option.splits if_splits)

lemma proc: "I (adapter e) \<Longrightarrow> proc env m e = Some e' \<Longrightarrow> I (adapter e')"
proof (cases m)
  case LocEngGnssConstellationConfig
  assume "I (adapter e)" "proc env m e = Some e'"
  moreover from this have "I (snd (call_modem env GnssConstellationConfig (adapter e)))" by (simp add: down plain_call_def)
  ultimately show ?thesis
    using LocEngGnssConstellationConfig by (auto simp: proc_def Let_def split: prod.splits if_splits)
next
  case (LocEngEnableData apn enable)
  assume "I (adapter e)" "proc env m e = Some e'"
  with LocEngEnableData show ?thesis by (auto simp: proc_def Let_def plain_call_def intro!: down split: option.splits)
next
  case LocEngGetZpp
  assume "I (adapter e)" "proc env m e = Some e'"
  with LocEngGetZpp show ?thesis by (auto simp: proc_def get_zpp_def Let_def plain_call_def intro!: down ulp)
qed (auto simp: proc_def down handlers report agps send reinit ulp proxy down_calls split: if_splits)

lemma thread: "I (adapter e) \<Longrightarrow> eng_thread env e = Some e' \<Longrightarrow> I (adapter e')"
proof (cases "adapter_msgs (adapter e)")
  case (Cons m ms)
  assume I: "I (adapter e)" and e': "eng_thread env e = Some e'"
  let ?e = "on_adapter (\<lambda>a. a\<lparr>adapter_msgs := ms\<rparr>) e"
  have "I (adapter ?e)" using pop [OF I Cons] by simp
  moreover have "proc env m ?e = Some e'" using e' Cons by (simp add: eng_thread_def)
  ultimately show ?thesis by (rule proc)
qed (simp add: eng_thread_def)

lemma sessions:
  "I (adapter e) \<Longrightarrow> I (adapter (snd (loc_eng_start env e)))" "I (adapter e) \<Longrightarrow> I (adapter (snd (loc_eng_stop env e)))"
  "I (adapter e) \<Longrightarrow> I (adapter (snd (loc_eng_set_position_mode env pm e)))" "I (adapter e) \<Longrightarrow> I (adapter (loc_eng_cleanup env e))"
proof -
  assume I: "I (adapter e)"
  show "I (adapter (snd (loc_eng_start env e)))" and stop: "I (adapter (snd (loc_eng_stop env e)))"
    and "I (adapter (snd (loc_eng_set_position_mode env pm e)))"
    using I by (auto simp: loc_eng_start_def loc_eng_stop_def loc_eng_set_position_mode_def Let_def
        intro!: send dest: ulp_then split: prod.split)
  show "I (adapter (loc_eng_cleanup env e))" using I stop by (simp add: loc_eng_cleanup_def)
qed

lemma agps_api:
  "I (adapter e) \<Longrightarrow> I (adapter (loc_eng_agps_init env cb e))"
  "I (adapter e) \<Longrightarrow> I (adapter (snd (loc_eng_agps_open type apn bearer e)))"
  "I (adapter e) \<Longrightarrow> I (adapter (snd (loc_eng_agps_closed type e)))"
  "I (adapter e) \<Longrightarrow> I (adapter (snd (loc_eng_agps_open_failed type e)))"
  "I (adapter e) \<Longrightarrow> I (adapter (loc_eng_agps_ril_update_network_availability av apn e))"
  "I (adapter e) \<Longrightarrow> I (adapter (snd (loc_eng_set_server_proxy env st h port e)))"
  by (auto simp: loc_eng_agps_init_def loc_eng_agps_open_def loc_eng_agps_closed_def loc_eng_agps_open_failed_def
      loc_eng_agps_ril_update_network_availability_def loc_eng_set_server_proxy_def Let_def
      intro!: agps_reinit servers send split: option.split LocServerType.split)

lemma update_msgs_ok: "list_all (msg_ok env) (update_msgs u old new)"
  by (simp add: update_msgs_def)

lemma certificates: "I (adapter e) \<Longrightarrow> I (adapter (snd (loc_eng_agps_install_certificates env cs e)))"
  by (auto simp: loc_eng_agps_install_certificates_def Let_def list_ex_iff list_all_iff not_less intro!: send)

lemma other_api:
  "I (adapter e) \<Longrightarrow> I (adapter (loc_eng_configuration_update data len e))"
  "I (adapter e) \<Longrightarrow> I (adapter (snd (loc_eng_gps_measurement_init mcb e)))"
  "I (adapter e) \<Longrightarrow> I (adapter (loc_eng_gps_measurement_close e))"
  "I (adapter e) \<Longrightarrow> I (adapter (snd (loc_eng_xtra_init xcb e)))"
  by (auto simp: loc_eng_configuration_update_def configuration_update_def loc_eng_gps_measurement_init_def
      loc_eng_gps_measurement_close_def loc_eng_xtra_init_def Let_def intro!: send send_all update_msgs_ok
      split: option.split prod.split)

lemma api: "I (adapter e) \<Longrightarrow> api env c e = Some e' \<Longrightarrow> I (adapter e')"
proof (cases c)
  case (ApiXtraInjectData d)
  assume "I (adapter e)" "api env c e = Some e'"
  with ApiXtraInjectData show ?thesis by (auto simp: api_def loc_eng_xtra_inject_data_def intro!: send split: if_splits)
next
  case ApiXtraRequestServer
  assume "I (adapter e)" "api env c e = Some e'"
  with ApiXtraRequestServer show ?thesis by (auto simp: api_def loc_eng_xtra_request_server_def intro!: send split: if_splits)
next
  case (ApiInjectTime t tf unc)
  assume "I (adapter e)" "api env c e = Some e'"
  with ApiInjectTime show ?thesis by (auto simp: api_def loc_eng_inject_time_def intro!: send)
next
  case (ApiInjectLocation lat lon accur)
  assume "I (adapter e)" "api env c e = Some e'"
  with ApiInjectLocation show ?thesis by (auto simp: api_def loc_eng_inject_location_def intro!: send)
next
  case (ApiDeleteAidingData f)
  assume "I (adapter e)" "api env c e = Some e'"
  with ApiDeleteAidingData show ?thesis by (auto simp: api_def loc_eng_delete_aiding_data_def intro!: send)
next
  case (ApiGpsLock lock)
  assume "I (adapter e)" "api env c e = Some e'"
  with ApiGpsLock show ?thesis by (auto simp: api_def setGpsLockMsg_def intro!: send)
qed (auto simp: api_def sessions agps_api certificates other_api vote intro!: send fields(7))

lemma step:
  assumes "I (adapter e)" and "eng_step env ev e = Some e'"
  shows "I (adapter e')"
proof (cases ev)
  case (NiThread i timeout)
  have "list_all (msg_ok env) (map (\<lambda>(r, p). Down (LocEngInformNiResponse r p)) ms)" for ms
    by (auto simp: list_all_iff)
  with NiThread assms show ?thesis by (auto simp: eng_step_def ni_thread_def Let_def intro!: send_all)
next
  case (UpCall c)
  with assms show ?thesis by (auto simp: eng_step_def eng_urls_def intro!: upcall)
qed (use assms in \<open>auto simp: eng_step_def intro: thread api\<close>)

theorem run: "eng_run env evs e = Some e' \<Longrightarrow> I (adapter e) \<Longrightarrow> I (adapter e')"
  by (rule eng_run_invariant [where P = "\<lambda>e. I (adapter e)"]) (auto intro: step)

end

section \<open>Sessions\<close>

text \<open>
  The modem's view of the calls it gets: a fix may be started outside a session only; the result is
  whether it has been told that a session is on.
\<close>

fun session_calls :: "bool \<Rightarrow> modem_call list \<Rightarrow> bool option" where
  "session_calls b [] = Some b"
| "session_calls b (StartFix m # cs) = (if b then None else session_calls b cs)"
| "session_calls b (SetInSession b' # cs) = session_calls b' cs"
| "session_calls b (_ # cs) = session_calls b cs"

lemma session_calls_append:
  "session_calls b (cs @ ds) = (case session_calls b cs of None \<Rightarrow> None | Some b' \<Rightarrow> session_calls b' ds)"
  by (induction b cs rule: session_calls.induct) simp_all

lemma session_calls_plain: "plain_call c \<Longrightarrow> session_calls b [c] = Some b"
  by (cases c) (simp_all add: plain_call_def)

definition session_ok :: "eng_adapter \<Rightarrow> bool" where
  "session_ok a \<longleftrightarrow> session_calls False (modem_out a) = Some (mNavigating a)"

interpretation sess: adapter_contract env session_ok for env
proof unfold_locales
  show "session_ok (setInSession env b a)" if "session_ok a" for b a
    using that by (simp add: session_ok_def setInSession_def Let_def session_calls_append call_modem_def)
  show "session_ok (snd (startFix env a))" if "session_ok a" "\<not> mNavigating a" for a
    using that by (simp add: session_ok_def startFix_def session_calls_append)
  show "session_ok (snd (call_modem env c a))" if "session_ok a" "plain_call c" for c a
    using that by (simp add: session_ok_def session_calls_append session_calls_plain)
qed (simp_all add: session_ok_def sendMsg_def)

text \<open>An engine that has just been initialised.\<close>

definition eng_started :: "loc_eng \<Rightarrow> bool" where
  "eng_started e \<longleftrightarrow> (\<exists>c ev ev' e0. \<not> has_adapter e0 \<and> ev \<noteq> 0 \<and> loc_eng_init (Some c) ev e0 = (0, ev', e))"

lemma eng_startedD:
  assumes "eng_started e"
  shows "adapter e = sendMsg LocEngInit LocEngAdapter_new" "nifs e = (\<lambda>_. None)" "has_adapter e" "\<not> agps_status_cb (cbs e)"
  using assms by (auto simp: eng_started_def loc_eng_init_def memset_eng_def Let_def post_def on_adapter_def)

text \<open>C1: In every run of an initialised engine, whatever the framework and the modem do and in whatever order,
  the modem is told to start a fix only while no session is on, and the engine's session flag is what the
  modem was last told.\<close>

theorem eng_session_invariant:
  assumes "eng_started e" and "eng_run env evs e = Some e'"
  shows "session_calls False (modem_out (adapter e')) = Some (isInSession (adapter e'))"
proof -
  have "session_ok (adapter e)" by (simp add: eng_startedD(1) [OF assms(1)] session_ok_def LocEngAdapter_new_def)
  then have "session_ok (adapter e')" by (rule sess.run [OF assms(2)])
  then show ?thesis by (simp add: session_ok_def isInSession_def)
qed

section \<open>Bounds of the queue\<close>

definition eng_msgs_ok :: "eng_env \<Rightarrow> eng_adapter \<Rightarrow> bool" where
  "eng_msgs_ok env a \<longleftrightarrow> list_all (msg_ok env) (adapter_msgs a)"

interpretation queue: adapter_contract env "eng_msgs_ok env" for env
  by unfold_locales (simp_all add: eng_msgs_ok_def setInSession_def startFix_def Let_def call_modem_def)

text \<open>C5: In every run every message in the queue is within the bounds that its receiver relies on: server
  addresses below 256 characters, access point names of at most 100, no more certificates than there are
  writable slots and none longer than allowed, and always three XTRA servers.\<close>

theorem eng_queue_bounds:
  assumes "eng_started e" and "eng_run env evs e = Some e'"
  shows "list_all (msg_ok env) (adapter_msgs (adapter e'))"
proof -
  have "eng_msgs_ok env (adapter e)" by (simp add: eng_startedD(1) [OF assms(1)] eng_msgs_ok_def LocEngAdapter_new_def)
  then have "eng_msgs_ok env (adapter e')" by (rule queue.run [OF assms(2)])
  then show ?thesis by (simp add: eng_msgs_ok_def)
qed

text \<open>An initialised engine for the examples, and a run that starts a session and reports a position.\<close>

definition eng_blank :: loc_eng where
  "eng_blank = \<lparr>has_adapter = False, adapter = LocEngAdapter_new, cbs = no_cbs, intermediateFix = 0, nifs = (\<lambda>_. None),
     engine_status = GPS_STATUS_NONE, fix_session_status = GPS_STATUS_NONE, aiding_data_for_deletion = 0, ni_data = ni_zero,
     generateNmea = False, nmea_data = \<lparr>sv_used_mask = 0, c_pdop = 0, c_hdop = 0, c_vdop = 0, nmea_sent = []\<rparr>,
     supl_host = None, c2k_host = None, conf = snd (loc_eng_read_config None None conf_zero), agpsStatus = 0, eng_out = []\<rparr>"

definition all_cbs :: eng_cbs where
  "all_cbs = no_cbs\<lparr>location_cb := True, status_cb := True, sv_status_cb := True, nmea_cb := True\<rparr>"

definition eng_example :: loc_eng where
  "eng_example = snd (snd (loc_eng_init (Some all_cbs) 1 eng_blank))"

lemma eng_example_started: "eng_started eng_example"
  unfolding eng_started_def eng_example_def
  by (intro exI [of _ all_cbs] exI [of _ 1] exI [of _ eng_blank] exI)
    (simp add: loc_eng_init_def eng_blank_def Let_def)

definition start_events :: "eng_event list" where
  "start_events = Api (ApiPositionMode LocPosMode_default) # Api ApiStart # replicate 14 Thread"

lemma start_events_run:
  "eng_run example_env start_events eng_example \<noteq> None" "isInSession (adapter (the (eng_run example_env start_events eng_example)))"
  by code_simp+

lemma eng_session_invariant_witness:
  "session_calls False (modem_out (adapter (the (eng_run example_env start_events eng_example)))) = Some True"
proof -
  obtain e' where e': "eng_run example_env start_events eng_example = Some e'" using start_events_run(1) by blast
  from eng_session_invariant [OF eng_example_started e'] start_events_run(2) e' show ?thesis by simp
qed

lemma eng_queue_bounds_witness:
  "list_all (msg_ok example_env) (adapter_msgs (adapter (the (eng_run example_env start_events eng_example))))"
proof -
  obtain e' where e': "eng_run example_env start_events eng_example = Some e'" using start_events_run(1) by blast
  from eng_queue_bounds [OF eng_example_started e'] e' show ?thesis by simp
qed

end
