(* ===== verification/Eng_Machines.thy ===== *)
theory Eng_Machines
  imports Eng_Run
begin

text \<open>
  The AGPS machines of the engine in its runs: which operations touch them, and the two interfaces through which
  an invariant of the machines becomes one of the runs, without and with restarts of the modem.
\<close>

lemma nifs_simps [simp]:
  "nifs (on_adapter f e) = nifs e" "nifs (post m e) = nifs e" "nifs (to_modem env c e) = nifs e"
  "nifs (call_back x e) = nifs e" "nifs (set_mute b e) = nifs e" "nifs (emit_nmea g e) = nifs e"
  "nifs (loc_inform_gps_status st e) = nifs e" "nifs (loc_eng_report_status st e) = nifs e"
  "nifs (loc_eng_mute_one_session e) = nifs e" "nifs (update_aiding_data_for_deletion env e) = nifs e"
  "nifs (end_single_shot env r lst e) = nifs e" "nifs (agps_dispatch env c' e) = nifs e"
  "nifs (snd (loc_eng_set_server env ty h port e)) = nifs e"
  by (auto simp: on_adapter_def post_def to_modem_def call_back_def set_mute_def emit_nmea_def loc_inform_gps_status_def
      loc_eng_report_status_def loc_eng_mute_one_session_def update_aiding_data_for_deletion_def end_single_shot_def
      agps_dispatch_def loc_eng_set_server_def Let_def split: agps_call.split LocServerType.split option.split)

lemma nifs_post_all [simp]: "nifs (post_all ms e) = nifs e"
  by (induction ms arbitrary: e) (simp_all add: post_all_def)

lemma nifs_dispatch_all [simp]: "nifs (fold (agps_dispatch env) cs e) = nifs e"
  by (induction cs arbitrary: e) simp_all

lemma nifs_agps_reinit [simp]: "nifs (loc_eng_agps_reinit env e) = nifs e"
  by (auto simp: loc_eng_agps_reinit_def Let_def split: option.split prod.split)

lemma nifs_nif_do: "nifs (nif_do env w f e) = (case nifs e w of None \<Rightarrow> nifs e | Some sm \<Rightarrow> (nifs e)(w \<mapsto> f sm))"
  by (simp add: nif_do_def split: option.split)

lemma nifs_reinit [simp]: "nifs (loc_eng_reinit e) = nifs e"
  by (auto simp: loc_eng_reinit_def loc_eng_xtra_version_check_def Let_def)

lemma nifs_report_location: "report_location loc lst tech e = (r, e1) \<Longrightarrow> nifs e1 = nifs e"
  by (auto simp: report_location_def split: if_splits)

text \<open>The step in which the engine's thread takes up a restart of the modem.\<close>

definition restarts :: "eng_event \<Rightarrow> loc_eng \<Rightarrow> bool" where
  "restarts ev e \<longleftrightarrow> ev = Thread \<and> (case adapter_msgs (adapter e) of [] \<Rightarrow> False | m # ms \<Rightarrow> m = LocEngUp)"

fun no_restart :: "eng_env \<Rightarrow> eng_event list \<Rightarrow> loc_eng \<Rightarrow> bool" where
  "no_restart env [] e \<longleftrightarrow> True"
| "no_restart env (ev # evs) e \<longleftrightarrow>
     \<not> restarts ev e \<and> (case eng_step env ev e of None \<Rightarrow> True | Some e1 \<Rightarrow> no_restart env evs e1)"

section \<open>Invariants of the machines\<close>

text \<open>
  What an invariant of the AGPS machines has to respect so that every event of a run keeps it: it looks at nothing
  but the machines, and their operations keep it, as the messages and the initialisation use them.
\<close>

locale machine_contract =
  fixes env :: eng_env and I :: "loc_eng \<Rightarrow> bool"
  assumes cong: "nifs e' = nifs e \<Longrightarrow> I e \<Longrightarrow> I e'"
    and subscribe: "I e \<Longrightarrow> I (nif_subscribe env w s e)"
    and unsubscribe: "I e \<Longrightarrow> I (snd (nif_unsubscribe env w s e))"
    and event: "I e \<Longrightarrow> I (nif_event env w ev e)"
    and bearer: "I e \<Longrightarrow> I (nif_do env w (\<lambda>s. setAPN (Some apn) n (s\<lparr>mBearer := b\<rparr>)) e)"
    and init: "I e \<Longrightarrow> I (loc_eng_agps_init env cb e)"
    and data_client: "I e \<Longrightarrow> I (LocEngDataClientInit_proc env e)"
begin

lemma same: "I e \<Longrightarrow> nifs e' = nifs e \<Longrightarrow> I e'"
  by (rule cong)

lemma agps: "I e \<Longrightarrow> agps_proc env m e = Some e' \<Longrightarrow> I e'"
proof (cases m)
  case (LocEngReleaseATL i)
  assume ok: "I e" and e': "agps_proc env m e = Some e'"
  obtain f1 e1 where u1: "nif_unsubscribe env agnss_nif (ATLSubscriber i False) e = (f1, e1)" by fastforce
  obtain f2 e2 where u2: "nif_unsubscribe env internet_nif (ATLSubscriber i False) e1 = (f2, e2)" by fastforce
  obtain f3 e3 where u3: "nif_unsubscribe env ds_nif (DSSubscriber i False) e2 = (f3, e3)" by fastforce
  have "I e1" "I e2" "I e3"
    using ok u1 u2 u3 unsubscribe by (metis snd_conv)+
  moreover from this have "I (to_modem env (MAtlCloseStatus i 0) e3)" by (auto intro: same)
  ultimately show ?thesis using e' LocEngReleaseATL u1 u2 u3
    by (cases f1; cases f2; cases f3) (auto simp: agps_proc_def)
next
  case LocEngDataClientInit
  assume "I e" "agps_proc env m e = Some e'"
  with LocEngDataClientInit show ?thesis using data_client [of e] by (simp add: agps_proc_def)
next
  case (LocEngAtlOpenSuccess sm apn b)
  assume "I e" "agps_proc env m e = Some e'"
  with LocEngAtlOpenSuccess show ?thesis by (auto simp: agps_proc_def intro: event bearer split: option.splits)
qed (auto simp: agps_proc_def Let_def intro: subscribe unsubscribe event same split: option.splits if_splits)

lemma report: "I e \<Longrightarrow> I (report_proc env m e)"
proof -
  have "nifs (report_proc env m e) = nifs e"
    by (cases m) (auto simp: report_proc_def report_position_proc_def report_sv_proc_def Let_def
        dest!: nifs_report_location split: prod.splits)
  then show "I e \<Longrightarrow> ?thesis" by (rule cong)
qed

lemma message: "I e \<Longrightarrow> proc env m e = Some e' \<Longrightarrow> m \<noteq> LocEngUp \<Longrightarrow> I e'"
proof (cases m)
  case (Agps g)
  then show "I e \<Longrightarrow> proc env m e = Some e' \<Longrightarrow> ?thesis" by (simp add: proc_def agps)
next
  case (Report r)
  then show "I e \<Longrightarrow> proc env m e = Some e' \<Longrightarrow> ?thesis" by (auto simp: proc_def report)
qed (auto simp: proc_def get_zpp_def loc_eng_start_handler_def loc_eng_stop_handler_def loc_eng_handle_engine_down_def
    update_aiding_data_for_deletion_def Let_def
    intro: same split: prod.splits if_splits option.splits)

lemma framework: "I e \<Longrightarrow> api env c e = Some e' \<Longrightarrow> I e'"
proof (cases c)
  case (ApiAgpsInit cb)
  assume "I e" "api env c e = Some e'"
  with ApiAgpsInit show ?thesis using init [of e cb] by (simp add: api_def)
qed (auto simp: api_def loc_eng_start_def loc_eng_stop_def loc_eng_cleanup_def loc_eng_set_position_mode_def
    loc_eng_inject_time_def loc_eng_inject_location_def loc_eng_delete_aiding_data_def loc_eng_agps_open_def
    loc_eng_agps_closed_def loc_eng_agps_open_failed_def loc_eng_set_server_proxy_def
    loc_eng_agps_ril_update_network_availability_def loc_eng_agps_install_certificates_def loc_eng_configuration_update_def
    loc_eng_gps_measurement_init_def loc_eng_gps_measurement_close_def loc_eng_xtra_init_def loc_eng_xtra_inject_data_def
    loc_eng_xtra_request_server_def Let_def
    intro: same split: prod.splits if_splits option.splits LocServerType.splits)

lemma step:
  assumes "I e" and "eng_step env ev e = Some e'" and "\<not> restarts ev e"
  shows "I e'"
proof (cases ev)
  case Thread
  show ?thesis
  proof (cases "adapter_msgs (adapter e)")
    case (Cons m ms)
    have "I (on_adapter (\<lambda>a. a\<lparr>adapter_msgs := ms\<rparr>) e)" using assms(1) by (auto intro: same)
    with Cons Thread assms show ?thesis
      by (auto simp: eng_step_def eng_thread_def restarts_def intro: message)
  qed (use Thread assms in \<open>simp add: eng_step_def eng_thread_def\<close>)
next
  case (NiThread i timeout)
  with assms show ?thesis by (auto simp: eng_step_def ni_thread_def Let_def intro: same)
qed (use assms in \<open>auto simp: eng_step_def intro: framework same\<close>)

lemma run: "I e \<Longrightarrow> eng_run env evs e = Some e' \<Longrightarrow> no_restart env evs e \<Longrightarrow> I e'"
  by (induction evs arbitrary: e) (auto intro: step split: option.splits)

end

text \<open>An invariant that the loss of all subscribers does not break survives restarts of the modem, too.\<close>

locale restart_contract = machine_contract +
  assumes drop: "I e \<Longrightarrow> I (drop_subscribers w e)"
begin

lemma restart: "I e \<Longrightarrow> I (loc_eng_handle_engine_up env e)"
proof -
  assume ok: "I e"
  let ?e1 = "on_adapter (requestPowerVote env) (loc_eng_reinit e)"
  have e1: "I ?e1" using ok by (rule same) simp
  then have "I (loc_eng_agps_reinit env (drop_subscribers internet_nif (drop_subscribers agnss_nif ?e1)))"
    by (intro cong [OF nifs_agps_reinit] drop)
  with e1 have "I (if agps_status_cb (cbs ?e1)
      then loc_eng_agps_reinit env (drop_subscribers internet_nif (drop_subscribers agnss_nif ?e1)) else ?e1)" by simp
  then show ?thesis unfolding loc_eng_handle_engine_up_def Let_def by (rule same) simp
qed

lemma any_step: "I e \<Longrightarrow> eng_step env ev e = Some e' \<Longrightarrow> I e'"
proof (cases "restarts ev e")
  case True
  assume ok: "I e" and e': "eng_step env ev e = Some e'"
  from True obtain ms where ev: "ev = Thread" "adapter_msgs (adapter e) = LocEngUp # ms"
    by (auto simp: restarts_def split: list.splits)
  have "I (on_adapter (\<lambda>a. a\<lparr>adapter_msgs := ms\<rparr>) e)" using ok by (auto intro: same)
  from restart [OF this] show ?thesis using e' ev by (simp add: eng_step_def eng_thread_def proc_def)
qed (rule step)

lemma any_run: "I e \<Longrightarrow> eng_run env evs e = Some e' \<Longrightarrow> I e'"
  by (rule eng_run_invariant) (auto intro: any_step)

end

end
