(* ===== verification/Eng_Props.thy ===== *)
theory Eng_Props
  imports Eng_Machines
begin

text \<open>
  What the handlers of the location engine do: deferred deletion of aiding data, muting, the decision
  on position reports, restarts of the modem, certificates and the AGPS machines of a run.
\<close>

section \<open>Aiding data\<close>

text \<open>The calls into the modem interface that an operation adds.\<close>

definition new_calls :: "loc_eng \<Rightarrow> loc_eng \<Rightarrow> modem_call list" where
  "new_calls e e' = drop (length (modem_out (adapter e))) (modem_out (adapter e'))"

text \<open>Aiding data is deleted only while the engine is not on, and then at once and completely: a request
  while the engine is on makes no call and stays pending, a request otherwise is passed on unless it is
  empty, and the report that the engine has been turned off passes on the pending request, exactly once.\<close>

theorem aiding_data_deferred:
  "proc env (LocEngDelAidData f) e = Some e1 \<Longrightarrow>
     (if engine_status e = GPS_STATUS_ENGINE_ON then new_calls e e1 = [] \<and> aiding_data_for_deletion e1 = f
      else new_calls e e1 = (if f = 0 then [] else [DeleteAidingData f]) \<and> aiding_data_for_deletion e1 = 0) \<and>
     (\<forall>e2. aiding_data_for_deletion e = f \<and> proc env (Report (LocEngReportStatus GPS_STATUS_ENGINE_OFF)) e = Some e2 \<longrightarrow>
        new_calls e e2 = (if f = 0 then [] else [DeleteAidingData f]) \<and> aiding_data_for_deletion e2 = 0)"
  by (auto simp: proc_def report_proc_def update_aiding_data_for_deletion_def new_calls_def to_modem_def on_adapter_def
      loc_eng_report_status_def set_mute_def loc_inform_gps_status_def call_back_def Let_def)

lemma aiding_data_deferred_witness:
  "new_calls eng_example (the (proc example_env (LocEngDelAidData 0xFFFF) eng_example)) = [DeleteAidingData 0xFFFF]"
proof -
  obtain e1 where e1: "proc example_env (LocEngDelAidData 0xFFFF) eng_example = Some e1" by (simp add: proc_def)
  have "engine_status eng_example = GPS_STATUS_NONE" by code_simp
  with aiding_data_deferred [OF e1] e1 show ?thesis by simp
qed

section \<open>Muting\<close>

definition new_out :: "loc_eng \<Rightarrow> loc_eng \<Rightarrow> eng_call list" where
  "new_out e e' = drop (length (eng_out e)) (eng_out e')"



section \<open>Position reports\<close>

fun is_location :: "eng_call \<Rightarrow> bool" where
  "is_location (CbLocation l) = True"
| "is_location _ = False"

lemma tech_bits:
  "(LOC_POS_TECH_MASK_SATELLITE OR LOC_POS_TECH_MASK_SENSORS OR LOC_POS_TECH_MASK_HYBRID) AND tech \<noteq> 0 \<longleftrightarrow>
   bit tech 0 \<or> bit tech 3 \<or> bit tech 7"
proof -
  have m: "LOC_POS_TECH_MASK_SATELLITE OR LOC_POS_TECH_MASK_SENSORS OR LOC_POS_TECH_MASK_HYBRID =
      (2 ^ 0 OR 2 ^ 3 OR 2 ^ 7 :: u32)"
    by (simp add: tech_defs)
  have b: "bit (2 ^ 0 OR 2 ^ 3 OR 2 ^ 7 :: u32) k \<longleftrightarrow> k = 0 \<or> k = 3 \<or> k = 7" for k
    using bit_exp_iff [of 0 k, where ?'a = u32] bit_exp_iff [of 3 k, where ?'a = u32] bit_exp_iff [of 7 k, where ?'a = u32]
    unfolding bit_or_iff by auto
  show ?thesis
  proof
    assume "(LOC_POS_TECH_MASK_SATELLITE OR LOC_POS_TECH_MASK_SENSORS OR LOC_POS_TECH_MASK_HYBRID) AND tech \<noteq> 0"
    then have "(2 ^ 0 OR 2 ^ 3 OR 2 ^ 7) AND tech \<noteq> 0" unfolding m .
    then obtain k where "bit ((2 ^ 0 OR 2 ^ 3 OR 2 ^ 7) AND tech) k"
      using bit_word_eqI [of "(2 ^ 0 OR 2 ^ 3 OR 2 ^ 7) AND tech" 0] by (metis bit_0_eq bot_apply bot_bool_def)
    then show "bit tech 0 \<or> bit tech 3 \<or> bit tech 7" unfolding bit_and_iff b by blast
  next
    assume "bit tech 0 \<or> bit tech 3 \<or> bit tech 7"
    then obtain k where "bit ((2 ^ 0 OR 2 ^ 3 OR 2 ^ 7) AND tech) k" unfolding bit_and_iff b by blast
    then have "(2 ^ 0 OR 2 ^ 3 OR 2 ^ 7) AND tech \<noteq> 0" by (metis bit_0_eq bot_apply bot_bool_def)
    then show "(LOC_POS_TECH_MASK_SATELLITE OR LOC_POS_TECH_MASK_SENSORS OR LOC_POS_TECH_MASK_HYBRID) AND tech \<noteq> 0"
      unfolding m .
  qed
qed

text \<open>What the framework is to see: the specification of the decision.\<close>

definition position_wanted :: "ulp_location \<Rightarrow> loc_sess_status \<Rightarrow> u32 \<Rightarrow> loc_eng \<Rightarrow> bool" where
  "position_wanted loc st tech e \<longleftrightarrow>
     location_cb (cbs e) \<and>
     (st = LOC_SESS_FAILURE \<or>
      st = LOC_SESS_SUCCESS \<and> (bit tech 0 \<or> bit tech 3 \<or> bit tech 7) \<or>
      intermediateFix e = 1 \<and>
        (has_accuracy loc \<longrightarrow> conf_n (gconf e ACCURACY_THRES) = 0 \<or>
           accuracy loc \<le> rat_of_int (uint (conf_n (gconf e ACCURACY_THRES)))))"

lemma report_location_wanted:
  "report_location loc st tech e =
     (position_wanted loc st tech e,
      if position_wanted loc st tech e then call_back (CbLocation (if st = LOC_SESS_FAILURE then None else Some loc)) e else e)"
  by (auto simp: report_location_def position_wanted_def accept_position_def accurate_enough_def tech_bits not_less)

lemma report_position_eq:
  "\<not> muted e \<Longrightarrow> report_position_proc env loc ext st tech e =
     (let w = position_wanted loc st tech e;
          e1 = (if w then call_back (CbLocation (if st = LOC_SESS_FAILURE then None else Some loc)) e else e);
          e2 = end_single_shot env w st e1
      in if generateNmea e2 \<and> isInSession (adapter e2)
         then emit_nmea (nmea_generate_pos (gps_location.truncate loc) ext (w \<and> st \<noteq> LOC_SESS_FAILURE)
                (pm_mode (mFixCriteria (adapter e2)) = LOC_POSITION_MODE_STANDALONE)) e2
         else e2)"
  by (simp only: report_position_proc_def report_location_wanted prod.case if_False Let_def)

lemma emit_nmea_out: "filter is_location (new_out e (emit_nmea f e')) = filter is_location (new_out e e')"
  if "length (eng_out e) \<le> length (eng_out e')"
  using that by (auto simp: new_out_def emit_nmea_def Let_def filter_empty_conv)

lemma end_single_shot_facts:
  "eng_out (end_single_shot env r st e) = eng_out e" "generateNmea (end_single_shot env r st e) = generateNmea e"
  "isInSession (adapter (end_single_shot env r st e)) =
     (isInSession (adapter e) \<and> \<not> (r \<and> pm_recurrence (mFixCriteria (adapter e)) = GPS_POSITION_RECURRENCE_SINGLE))"
  "modem_out (adapter (end_single_shot env r st e)) = modem_out (adapter e) @
     (if r \<and> pm_recurrence (mFixCriteria (adapter e)) = GPS_POSITION_RECURRENCE_SINGLE
      then (if st = LOC_SESS_INTERMEDIATE then [StopFix] else []) @ [SetInSession False] else [])"
  by (auto simp: end_single_shot_def on_adapter_def to_modem_def setInSession_def isInSession_def call_modem_def Let_def)

text \<open>C13: A position report that is not muted reaches the framework exactly when it is wanted: a failure, a
  final fix from satellites, sensors or both, or, when intermediate fixes are enabled, any fix that is
  accurate enough; a reported fix of a single-shot session ends the session, stopping the modem first
  when the fix was intermediate, and any other report makes no call into the modem.\<close>

theorem position_report_decision:
  assumes "\<not> muted e" and "proc env (Report (LocEngReportPosition loc ext st tech)) e = Some e'"
  shows "filter is_location (new_out e e') =
      (if position_wanted loc st tech e then [CbLocation (if st = LOC_SESS_FAILURE then None else Some loc)] else []) \<and>
    new_calls e e' =
      (if position_wanted loc st tech e \<and> pm_recurrence (mFixCriteria (adapter e)) = GPS_POSITION_RECURRENCE_SINGLE
       then (if st = LOC_SESS_INTERMEDIATE then [StopFix] else []) @ [SetInSession False] else []) \<and>
    (isInSession (adapter e') \<longleftrightarrow> isInSession (adapter e) \<and>
       \<not> (position_wanted loc st tech e \<and> pm_recurrence (mFixCriteria (adapter e)) = GPS_POSITION_RECURRENCE_SINGLE))"
proof -
  define w where "w = position_wanted loc st tech e"
  define e1 where "e1 = (if w then call_back (CbLocation (if st = LOC_SESS_FAILURE then None else Some loc)) e else e)"
  define e2 where "e2 = end_single_shot env w st e1"
  have "e' = report_position_proc env loc ext st tech e" using assms(2) by (simp add: proc_def report_proc_def)
  then have "e' = (if generateNmea e2 \<and> isInSession (adapter e2)
      then emit_nmea (nmea_generate_pos (gps_location.truncate loc) ext (w \<and> st \<noteq> LOC_SESS_FAILURE)
             (pm_mode (mFixCriteria (adapter e2)) = LOC_POSITION_MODE_STANDALONE)) e2
      else e2)"
    unfolding report_position_eq [OF assms(1)] w_def e1_def e2_def Let_def .
  then have e': "e' = e2 \<or> (\<exists>f. e' = emit_nmea f e2)" by (metis (full_types))
  have out: "eng_out e2 = eng_out e @ (if w then [CbLocation (if st = LOC_SESS_FAILURE then None else Some loc)] else [])"
    and a1: "adapter e1 = adapter e"
    by (simp_all add: e2_def e1_def end_single_shot_facts call_back_def)
  then have "filter is_location (new_out e e2) =
      (if w then [CbLocation (if st = LOC_SESS_FAILURE then None else Some loc)] else [])" "length (eng_out e) \<le> length (eng_out e2)"
    by (simp_all add: new_out_def)
  with e' have "filter is_location (new_out e e') =
      (if w then [CbLocation (if st = LOC_SESS_FAILURE then None else Some loc)] else [])" "adapter e' = adapter e2"
    by (auto simp only: emit_nmea_out adapter_simps)
  then show ?thesis unfolding w_def [symmetric] by (simp add: new_calls_def e2_def end_single_shot_facts a1)
qed

definition example_fix :: ulp_location where
  "example_fix = (fst (zpp_fix example_env))\<lparr>has_accuracy := True, accuracy := 10\<rparr>"

definition no_ext :: location_extended where
  "no_ext = \<lparr>has_dop = False, has_msl = False, has_mag_dev = False, altitudeMeanSeaLevel = 0, pdop = 0, hdop = 0,
     vdop = 0, magneticDeviation = 0\<rparr>"

lemma position_report_decision_witness:
  "filter is_location (new_out eng_example
     (the (proc example_env (Report (LocEngReportPosition example_fix no_ext LOC_SESS_SUCCESS 1)) eng_example))) =
   [CbLocation (Some example_fix)]"
proof -
  obtain e' where e': "proc example_env (Report (LocEngReportPosition example_fix no_ext LOC_SESS_SUCCESS 1)) eng_example = Some e'"
    by (simp add: proc_def)
  have "\<not> muted eng_example" "position_wanted example_fix LOC_SESS_SUCCESS 1 eng_example" by code_simp+
  with position_report_decision [OF _ e'] e' show ?thesis by simp
qed

text \<open>
  The session flag is cleared before it decides about the sentences: with sentences generated by the
  engine, the fix of a single-shot session produces none.
\<close>

lemma single_shot_without_nmea:
  assumes "\<not> muted e" and "proc env (Report (LocEngReportPosition loc ext st tech)) e = Some e'"
    and "position_wanted loc st tech e" and "pm_recurrence (mFixCriteria (adapter e)) = GPS_POSITION_RECURRENCE_SINGLE"
  shows "list_all is_location (new_out e e')"
proof -
  let ?e1 = "call_back (CbLocation (if st = LOC_SESS_FAILURE then None else Some loc)) e"
  have "e' = report_position_proc env loc ext st tech e" using assms(2) by (simp add: proc_def report_proc_def)
  moreover have "\<not> isInSession (adapter (end_single_shot env True st ?e1))"
    using assms(4) unfolding end_single_shot_facts by simp
  ultimately have "e' = end_single_shot env True st ?e1"
    using assms(3) by (simp only: report_position_eq [OF assms(1)] Let_def if_True if_False simp_thms)
  then show ?thesis by (simp add: new_out_def end_single_shot_facts call_back_def)
qed

section \<open>Restarts of the modem\<close>












section \<open>The AGPS machines of a run\<close>

text \<open>Every machine of the framework's connectivity service is in a state of its own runs.\<close>

definition machines_ok :: "loc_eng \<Rightarrow> bool" where
  "machines_ok e \<longleftrightarrow> (\<forall>w sm. w \<noteq> ds_nif \<longrightarrow> nifs e w = Some sm \<longrightarrow> agps_reachable sm)"

lemma machines_ok_cong: "nifs e' = nifs e \<Longrightarrow> machines_ok e \<Longrightarrow> machines_ok e'"
  by (simp add: machines_ok_def)

lemma machines_nif_do:
  "machines_ok e \<Longrightarrow> (\<And>sm. w \<noteq> ds_nif \<Longrightarrow> agps_reachable sm \<Longrightarrow> agps_reachable (f sm)) \<Longrightarrow> machines_ok (nif_do env w f e)"
  by (auto simp: machines_ok_def nifs_nif_do split: option.split)

lemma machines_ops:
  "machines_ok e \<Longrightarrow> machines_ok (nif_subscribe env w s e)"
  "machines_ok e \<Longrightarrow> machines_ok (snd (nif_unsubscribe env w s e))"
  "machines_ok e \<Longrightarrow> machines_ok (nif_event env w ev e)"
  unfolding nif_subscribe_def nif_unsubscribe_def nif_event_def snd_conv
  by (rule machines_nif_do; simp add: send_of_def agps_subscribe agps_unsubscribe agps_event)+

interpretation machines: machine_contract env machines_ok for env
proof (unfold_locales, goal_cases)
  case (1 e' e)
  then show ?case by (rule machines_ok_cong)
next
  case (5 e w apn n b)
  then show ?case by (rule machines_nif_do) (intro agps_setAPN agps_setBearer)
next
  case (6 e cb)
  then show ?case by (auto simp: loc_eng_agps_init_def machines_ok_def Let_def intro: agps_init)
next
  case (7 e)
  then show ?case by (auto simp: machines_ok_def Let_def split: prod.split)
qed (rule machines_ops, assumption)+

text \<open>C7: As long as the modem does not restart, every AGPS machine that serves the framework, in every run of an
  initialised engine, is in a state that the machine reaches on its own: its state agrees with its subscribers,
  and the connectivity service has seen releases only right after requests.\<close>

theorem eng_agps_refines:
  assumes "eng_started e" and "eng_run env evs e = Some e'" and "no_restart env evs e"
    and "nifs e' w = Some sm" and "w \<noteq> ds_nif"
  shows "agps_reachable sm \<and> agps_inv_of (mStatePtr sm) (mSubscribers sm) \<and> paired False (nif_log sm) \<and>
    (mStatePtr sm \<in> {PendingState, AcquiredState} \<longrightarrow> nif_held (nif_log sm))"
proof -
  have "machines_ok e" by (simp add: machines_ok_def eng_startedD(2) [OF assms(1)])
  then have "machines_ok e'" by (rule machines.run [OF _ assms(2,3)])
  then have sm: "agps_reachable sm" using assms(4,5) by (auto simp: machines_ok_def)
  with agps_reachable_ok [OF sm] show ?thesis by (simp add: agps_ok_def)
qed

definition atl_events :: "eng_event list" where
  "atl_events = Api (ApiAgpsInit True) # Api (ApiSupports True True) # UpCall (requestATL 7 AGPS_TYPE_WWAN_ANY) # replicate 16 Thread"

definition eng_atl :: loc_eng where
  "eng_atl = the (eng_run example_env atl_events eng_example)"

lemma atl_events_run:
  "eng_run example_env atl_events eng_example \<noteq> None" "no_restart example_env atl_events eng_example"
  "map_option mStatePtr (nifs eng_atl internet_nif) = Some PendingState"
  by code_simp+

lemma eng_agps_refines_witness:
  "agps_inv_of PendingState (mSubscribers (the (nifs eng_atl internet_nif))) \<and> nif_held (nif_log (the (nifs eng_atl internet_nif)))"
proof -
  have run: "eng_run example_env atl_events eng_example = Some eng_atl" using atl_events_run(1) by (auto simp: eng_atl_def)
  obtain sm where sm: "nifs eng_atl internet_nif = Some sm" "mStatePtr sm = PendingState" using atl_events_run(3) by auto
  from eng_agps_refines [OF eng_example_started run atl_events_run(2) sm(1)] sm show ?thesis by simp
qed

text \<open>
  A restart drops the subscribers of a machine but not its state: the machine of this run is left
  acquired with nobody subscribed, and stays so.
\<close>

lemma restart_leaves_machine_acquired:
  "map_option (\<lambda>sm. (mStatePtr sm, mSubscribers sm))
     (nifs (the (eng_run example_env
        ([Api (ApiAgpsOpen AGPS_TYPE_WWAN_ANY (Some ''net'') 1), Thread, UpCall handleEngineUpEvent] @ replicate 3 Thread) eng_atl))
        internet_nif) = Some (AcquiredState, [])"
  by code_simp

text \<open>The calls of the connectivity service post a pointer to a machine that may not exist.\<close>

lemma atl_without_machine_faults:
  "agps_proc env (LocEngAtlClosed None) e = None" "agps_proc env (LocEngAtlOpenFailed None) e = None"
  "agps_proc env (LocEngAtlOpenSuccess None apn bearer) e = None"
  "nifs e = (\<lambda>_. None) \<Longrightarrow> agps_proc env (LocEngReqRelBIT type v4 v6 isReq) e = None"
  by (simp_all add: agps_proc_def getAgpsStateMachine_def)

text \<open>A configuration update that waits in the queue keeps the pointer to a proxy that may be replaced.\<close>

lemma supl_mode_stale_proxy:
  "ulp_obj (mUlp (adapter e)) \<noteq> p \<Longrightarrow> proc env (LocEngSuplMode p) e = None"
  by (simp add: proc_def)

text \<open>
  The comment of \<^verbatim>\<open>loc_eng_set_server_proxy\<close> promises that a server that is set too early is kept, but
  the initialisation clears it with the rest of the structure.
\<close>

lemma init_forgets_servers:
  assumes "loc_eng_init (Some c) ev (snd (loc_eng_set_server_proxy env LOC_AGPS_SUPL_SERVER host port e)) = (0, ev', e')"
    and "\<not> has_adapter e" and "ev \<noteq> 0"
  shows "supl_host e' = None"
  using assms by (auto simp: loc_eng_init_def loc_eng_set_server_proxy_def memset_eng_def Let_def post_def on_adapter_def)

section \<open>Certificates\<close>

text \<open>The number of bits that are set, digit by digit.\<close>

fun bits_set :: "nat \<Rightarrow> nat" where
  "bits_set n = (if n = 0 then 0 else n mod 2 + bits_set (n div 2))"

declare bits_set.simps [simp del]

lemma bits_set_double: "bits_set (2 * k) = bits_set k" "bits_set (Suc (2 * k)) = Suc (bits_set k)"
  by (simp_all add: bits_set.simps [of "2 * k"] bits_set.simps [of "Suc (2 * k)"] bits_set.simps [of 0])

lemma bits_set_clear_lowest: "0 < n \<Longrightarrow> bits_set n = Suc (bits_set (n AND (n - 1)))"
proof (induction n rule: less_induct)
  case (less n)
  show ?case
  proof (cases "odd n")
    case True
    then obtain k where n: "n = Suc (2 * k)" by (auto elim: oddE)
    then have "n AND (n - 1) = 2 * k" by (simp add: and_nat_rec [of "Suc (2 * k)" "2 * k"])
    then show ?thesis by (simp add: n bits_set_double)
  next
    case False
    then obtain k where n: "n = 2 * k" and k: "0 < k" using less.prems by (auto elim: evenE)
    then have "n - 1 = Suc (2 * (k - 1))" by simp
    then have "n AND (n - 1) = 2 * k AND Suc (2 * (k - 1))" by (simp add: n)
    also have "\<dots> = 2 * (k AND (k - 1))" using and_nat_rec [of "2 * k" "Suc (2 * (k - 1))"] by simp
    finally have "n AND (n - 1) = 2 * (k AND (k - 1))" .
    with less.IH [of k] n k show ?thesis by (simp add: bits_set_double)
  qed
qed

lemma slot_count_bits: "slot_count w = bits_set (unat w)"
proof (induction w rule: slot_count.induct)
  case (1 w)
  show ?case
  proof (cases "w = 0")
    case False
    then have "unat (w - 1) = unat w - 1" "0 < unat w" by (simp_all add: unat_minus_one unat_gt_0)
    then show ?thesis
      using 1 [OF False] bits_set_clear_lowest [of "unat w"] False
      by (simp add: slot_count.simps [of w] unsigned_and_eq)
  qed (simp add: slot_count.simps [of 0] bits_set.simps [of 0])
qed

text \<open>C37: Certificates are accepted exactly when each of them has a writable slot of its own (the slots are the bits
  that are set in the configured mask) and none is too long; then all of them are queued for the modem
  together with the mask, and in every other case the engine is left as it was.\<close>

theorem certificates_fit_slots:
  assumes "has_adapter e" and "certs \<noteq> []"
  shows "let mask = conf_n (gconf e AGPS_CERT_WRITABLE_MASK);
             ok = (length certs \<le> bits_set (unat mask) \<and> list_all (\<lambda>c. length c \<le> AGPS_CERTIFICATE_MAX_LENGTH env) certs)
         in (fst (loc_eng_agps_install_certificates env certs e) = AGPS_CERTIFICATE_OPERATION_SUCCESS \<longleftrightarrow> ok) \<and>
            snd (loc_eng_agps_install_certificates env certs e) =
              (if ok then post (Down (LocEngInstallAGpsCert certs mask)) e else e)"
  using assms
  by (auto simp: loc_eng_agps_install_certificates_def slot_count_bits list_ex_iff list_all_iff not_less not_le Let_def)

definition eng_two_slots :: loc_eng where
  "eng_two_slots = eng_example\<lparr>conf := (conf eng_example)\<lparr>gps_conf :=
     (gconf eng_example)(AGPS_CERT_WRITABLE_MASK := CInt 5)\<rparr>\<rparr>"

lemma certificates_fit_slots_witness:
  "fst (loc_eng_agps_install_certificates example_env [''abc'', ''de''] eng_two_slots) = AGPS_CERTIFICATE_OPERATION_SUCCESS"
proof -
  have "has_adapter eng_two_slots" "2 \<le> bits_set (unat (conf_n (gconf eng_two_slots AGPS_CERT_WRITABLE_MASK)))"
    "AGPS_CERTIFICATE_MAX_LENGTH example_env = 2000"
    by code_simp+
  with certificates_fit_slots [of eng_two_slots "[''abc'', ''de'']" example_env] show ?thesis by (simp add: Let_def)
qed

end
