(* ===== verification/Loc_Target.thy ===== *)
theory Loc_Target
  imports Prelude
begin

text \<open>
  \<^verbatim>\<open>loc_target.cpp\<close> and the target names of \<^verbatim>\<open>loc_log.cpp\<close>: which platform the service runs on.  System
  properties and the files under \<^verbatim>\<open>/sys\<close> and \<^verbatim>\<open>/dev\<close> are a record of the model.
\<close>

section \<open>Targets\<close>

datatype GNSS_TARGET = GNSS_NONE | GNSS_MSM | GNSS_GSS | GNSS_MDM | GNSS_QCA1530 | GNSS_AUTO | GNSS_UNKNOWN

datatype SSC_TYPE = NO_SSC | HAS_SSC

fun gnss_val :: "GNSS_TARGET \<Rightarrow> u32" where
  "gnss_val GNSS_NONE = 0"
| "gnss_val GNSS_MSM = 1"
| "gnss_val GNSS_GSS = 2"
| "gnss_val GNSS_MDM = 3"
| "gnss_val GNSS_QCA1530 = 4"
| "gnss_val GNSS_AUTO = 5"
| "gnss_val GNSS_UNKNOWN = 6"

fun ssc_val :: "SSC_TYPE \<Rightarrow> u32" where
  "ssc_val NO_SSC = 0"
| "ssc_val HAS_SSC = 1"

definition TARGET_SET :: "GNSS_TARGET \<Rightarrow> SSC_TYPE \<Rightarrow> u32" where
  "TARGET_SET gnss ssc = push_bit 1 (gnss_val gnss) OR ssc_val ssc"

abbreviation "TARGET_DEFAULT \<equiv> TARGET_SET GNSS_MSM HAS_SSC"
abbreviation "TARGET_MDM \<equiv> TARGET_SET GNSS_MDM HAS_SSC"
abbreviation "TARGET_APQ_SA \<equiv> TARGET_SET GNSS_GSS NO_SSC"
abbreviation "TARGET_MPQ \<equiv> TARGET_SET GNSS_NONE NO_SSC"
abbreviation "TARGET_MSM_NO_SSC \<equiv> TARGET_SET GNSS_MSM NO_SSC"
abbreviation "TARGET_QCA1530 \<equiv> TARGET_SET GNSS_QCA1530 NO_SSC"
abbreviation "TARGET_AUTO \<equiv> TARGET_SET GNSS_AUTO NO_SSC"
abbreviation "TARGET_UNKNOWN \<equiv> TARGET_SET GNSS_UNKNOWN NO_SSC"

definition getTargetGnssType :: "u32 \<Rightarrow> u32" where
  "getTargetGnssType t = drop_bit 1 t"

section \<open>Reading the platform\<close>

datatype dev_file = Absent | Unreadable | Content string

text \<open>The first line that \<^verbatim>\<open>fgets\<close> stores in a buffer of \<open>n\<close> bytes, up to its first null byte.\<close>

definition fgets_line :: "nat \<Rightarrow> string \<Rightarrow> string" where
  "fgets_line n s =
     (let t = take (n - 1) s; l = takeWhile (\<lambda>c. c \<noteq> CHR 0x0A) t
      in takeWhile (\<lambda>c. c \<noteq> CHR 0x00) (if length l < length t then l @ [CHR 0x0A] else l))"

definition LINE_LEN :: nat where
  "LINE_LEN = 100"

definition read_a_line :: "dev_file \<Rightarrow> nat \<Rightarrow> int \<times> string" where
  "read_a_line f line_size =
     (case f of Content s \<Rightarrow> (0, fgets_line line_size s) | _ \<Rightarrow> (- 1, []))"

text \<open>\<open>sys_qca1530 i\<close> is the answer of the property service at poll \<open>i\<close>, \<open>None\<close> when it cannot be read.\<close>

record platform =
  sys_qca1530 :: "nat \<Rightarrow> string option"
  ro_baseband :: string
  hw_platform :: dev_file
  hw_platform_dep :: dev_file
  soc_id :: dev_file
  soc_id_dep :: dev_file
  dev_mdm :: dev_file

definition QCA1530_DETECT_TIMEOUT :: nat where
  "QCA1530_DETECT_TIMEOUT = 15"

text \<open>The polls that are left, the next poll, the seconds slept.\<close>

fun qca1530_loop :: "nat \<Rightarrow> (nat \<Rightarrow> string option) \<Rightarrow> nat \<Rightarrow> bool \<times> nat" where
  "qca1530_loop 0 q i = (False, i)"
| "qca1530_loop (Suc n) q i =
     (case q i of
        None \<Rightarrow> (False, i)
      | Some buf \<Rightarrow>
          if buf = ''yes'' then (True, i)
          else if buf = ''detect'' then qca1530_loop n q (Suc i)
          else (False, i))"

definition is_qca1530 :: "platform \<Rightarrow> bool" where
  "is_qca1530 p = fst (qca1530_loop QCA1530_DETECT_TIMEOUT (sys_qca1530 p) 0)"

definition starts_with :: "string \<Rightarrow> string \<Rightarrow> bool" where
  "starts_with s p \<longleftrightarrow> take (length p) s = p"

text \<open>\<^verbatim>\<open>memcmp\<close> with the literal and \<^verbatim>\<open>IS_STR_END\<close> of the character behind it.\<close>

definition line_is :: "string \<Rightarrow> string \<Rightarrow> bool" where
  "line_is s p \<longleftrightarrow> starts_with s p \<and>
     (case drop (length p) s of [] \<Rightarrow> True | c # _ \<Rightarrow> c \<in> {CHR 0x0A, CHR 0x0D})"

text \<open>\<open>gTarget\<close> starts with all bits set and is kept between calls; it is also the result.\<close>

definition loc_get_target :: "platform \<Rightarrow> u32 \<Rightarrow> u32" where
  "loc_get_target p gTarget =
     (if gTarget \<noteq> - 1 then gTarget
      else if is_qca1530 p then TARGET_QCA1530
      else
        (let baseband = ro_baseband p;
             rd_hw_platform = snd (read_a_line (if hw_platform p \<noteq> Absent then hw_platform p else hw_platform_dep p) LINE_LEN);
             rd_id = snd (read_a_line (if soc_id p \<noteq> Absent then soc_id p else soc_id_dep p) LINE_LEN)
         in if starts_with baseband ''auto'' then TARGET_AUTO
            else if starts_with baseband ''apq'' then (if line_is rd_id ''130'' then TARGET_MPQ else TARGET_APQ_SA)
            else if line_is rd_hw_platform ''Liquid'' \<or> line_is rd_hw_platform ''Surf'' \<or> line_is rd_hw_platform ''MTP''
            then (if fst (read_a_line (dev_mdm p) LINE_LEN) = 0 then TARGET_MDM else gTarget)
            else if line_is rd_id ''142'' \<or> line_is rd_id ''116'' then TARGET_MSM_NO_SSC
            else TARGET_UNKNOWN))"

definition loc_identify_lean_target :: "string \<Rightarrow> bool" where
  "loc_identify_lean_target ro_lean \<longleftrightarrow> take 92 ro_lean = ''true''"

section \<open>Names\<close>

definition UNKNOWN_STR :: string where
  "UNKNOWN_STR = ''UNKNOWN''"

fun loc_get_name_from_mask :: "(string \<times> u32) list \<Rightarrow> u32 \<Rightarrow> string" where
  "loc_get_name_from_mask [] m = UNKNOWN_STR"
| "loc_get_name_from_mask ((name, val) # table) m =
     (if val AND m \<noteq> 0 then name else loc_get_name_from_mask table m)"

fun loc_get_name_from_val :: "(string \<times> u32) list \<Rightarrow> u32 \<Rightarrow> string" where
  "loc_get_name_from_val [] value = UNKNOWN_STR"
| "loc_get_name_from_val ((name, val) # table) value =
     (if val = value then name else loc_get_name_from_val table value)"

definition target_name :: "(string \<times> u32) list" where
  "target_name =
     [(''GNSS_NONE'', 0), (''GNSS_MSM'', 1), (''GNSS_GSS'', 2), (''GNSS_MDM'', 3), (''GNSS_QCA1530'', 4),
      (''GNSS_AUTO'', 5), (''GNSS_UNKNOWN'', 6)]"

definition loc_get_target_name :: "u32 \<Rightarrow> string" where
  "loc_get_target_name t =
     (let index = getTargetGnssType t;
          index = (if index \<ge> of_nat (length target_name) then of_nat (length target_name - 1) else index)
      in if t AND ssc_val HAS_SSC = ssc_val HAS_SSC
         then '' '' @ loc_get_name_from_val target_name index @ '' with SSC''
         else '' '' @ loc_get_name_from_val target_name index @ ''  without SSC'')"

section \<open>Properties\<close>

lemma getTargetGnssType_set [simp]: "getTargetGnssType (TARGET_SET g s) = gnss_val g"
  by (cases g; cases s) (simp_all add: getTargetGnssType_def TARGET_SET_def drop_bit_eq_div push_bit_eq_mult)

lemma target_set_inject: "TARGET_SET g s = TARGET_SET g' s' \<longleftrightarrow> g = g' \<and> s = s'"
  by (cases g; cases s; cases g'; cases s') (simp_all add: TARGET_SET_def push_bit_eq_mult)

lemma target_set_known: "TARGET_SET g s \<noteq> - 1"
  by (cases g; cases s) (simp_all add: TARGET_SET_def push_bit_eq_mult)

text \<open>The property service is asked at most fifteen times, and one second passes between two polls.\<close>

lemma qca1530_bounded: "snd (qca1530_loop n q i) \<le> i + n"
  by (induction n q i rule: qca1530_loop.induct) (auto split: option.split)

lemma is_qca1530_iff:
  "fst (qca1530_loop n q i) \<longleftrightarrow> (\<exists>k < n. q (i + k) = Some ''yes'' \<and> (\<forall>j < k. q (i + j) = Some ''detect''))"
proof (induction n q i rule: qca1530_loop.induct)
  case (2 n q i)
  have step: "(\<exists>k < Suc n. P k) \<longleftrightarrow> P 0 \<or> (\<exists>k < n. P (Suc k))" for P
    by (metis less_Suc_eq_0_disj zero_less_Suc Suc_less_eq)
  have all: "(\<forall>j < Suc k. Q j) \<longleftrightarrow> Q 0 \<and> (\<forall>j < k. Q (Suc j))" for k and Q :: "nat \<Rightarrow> bool"
    by (metis less_Suc_eq_0_disj zero_less_Suc Suc_less_eq)
  show ?case using 2 by (auto simp: step all split: option.split)
qed simp

text \<open>A target that has been detected stays, whatever the platform says later.\<close>

lemma target_cached: "loc_get_target p (- 1) \<noteq> - 1 \<Longrightarrow> loc_get_target p' (loc_get_target p (- 1)) = loc_get_target p (- 1)"
  by (simp add: loc_get_target_def [of p'])

text \<open>
  A Liquid, Surf or MTP board without a modem device is never classified: the result has all bits
  set, is none of the targets, and the next call starts over.
\<close>

lemma board_without_modem_undetected:
  assumes "\<not> is_qca1530 p" and "\<not> starts_with (ro_baseband p) ''auto''" and "\<not> starts_with (ro_baseband p) ''apq''"
    and "hw_platform p = Content ''MTP''" and "dev_mdm p = Absent"
  shows "loc_get_target p (- 1) = - 1"
proof -
  have "snd (read_a_line (Content ''MTP'') LINE_LEN) = ''MTP''" by code_simp
  moreover have "line_is ''MTP'' ''MTP''" by code_simp
  ultimately show ?thesis using assms by (simp add: loc_get_target_def Let_def read_a_line_def [of Absent])
qed

text \<open>Different targets have different names, and a value out of range is named like the unknown target.\<close>

lemma target_name_set:
  "loc_get_target_name (TARGET_SET g s) =
     '' '' @ fst (target_name ! unat (gnss_val g)) @ (case s of HAS_SSC \<Rightarrow> '' with SSC'' | NO_SSC \<Rightarrow> ''  without SSC'')"
  by (cases g; cases s; hypsubst; code_simp)

lemma target_name_distinct: "loc_get_target_name (TARGET_SET g s) = loc_get_target_name (TARGET_SET g' s') \<longleftrightarrow> g = g' \<and> s = s'"
  unfolding target_name_set by (cases g; cases s; cases g'; cases s') (simp_all add: target_name_def)

lemma target_name_out_of_range: "loc_get_target_name (- 1) = '' GNSS_UNKNOWN with SSC''"
  by code_simp

end
