(* ===== verification/Loc_Context.thy ===== *)
theory Loc_Context
  imports Loc_Target Gps_Types
begin

text \<open>
  \<^verbatim>\<open>ContextBase.cpp/.h\<close>, \<^verbatim>\<open>LocDualContext.cpp/.h\<close> and \<^verbatim>\<open>LBSProxyBase.h\<close>: the foreground and the background context
  of the service, the message task that they share, and which implementation of the modem interface
  a context gets.  What the optional libraries contain is a parameter.
\<close>

section \<open>Event masks\<close>

definition LOC_API_ADAPTER_BIT_PARSED_POSITION_REPORT :: event_mask where "LOC_API_ADAPTER_BIT_PARSED_POSITION_REPORT = push_bit 0 1"
definition LOC_API_ADAPTER_BIT_SATELLITE_REPORT :: event_mask where "LOC_API_ADAPTER_BIT_SATELLITE_REPORT = push_bit 1 1"
definition LOC_API_ADAPTER_BIT_NMEA_POSITION_REPORT :: event_mask where "LOC_API_ADAPTER_BIT_NMEA_POSITION_REPORT = push_bit 3 1"
definition LOC_API_ADAPTER_BIT_NI_NOTIFY_VERIFY_REQUEST :: event_mask where "LOC_API_ADAPTER_BIT_NI_NOTIFY_VERIFY_REQUEST = push_bit 4 1"
definition LOC_API_ADAPTER_BIT_ASSISTANCE_DATA_REQUEST :: event_mask where "LOC_API_ADAPTER_BIT_ASSISTANCE_DATA_REQUEST = push_bit 5 1"
definition LOC_API_ADAPTER_BIT_LOCATION_SERVER_REQUEST :: event_mask where "LOC_API_ADAPTER_BIT_LOCATION_SERVER_REQUEST = push_bit 6 1"
definition LOC_API_ADAPTER_BIT_IOCTL_REPORT :: event_mask where "LOC_API_ADAPTER_BIT_IOCTL_REPORT = push_bit 7 1"
definition LOC_API_ADAPTER_BIT_STATUS_REPORT :: event_mask where "LOC_API_ADAPTER_BIT_STATUS_REPORT = push_bit 8 1"
definition LOC_API_ADAPTER_BIT_GEOFENCE_GEN_ALERT :: event_mask where "LOC_API_ADAPTER_BIT_GEOFENCE_GEN_ALERT = push_bit 14 1"

lemmas event_bit_defs = LOC_API_ADAPTER_BIT_PARSED_POSITION_REPORT_def LOC_API_ADAPTER_BIT_SATELLITE_REPORT_def
  LOC_API_ADAPTER_BIT_NMEA_POSITION_REPORT_def LOC_API_ADAPTER_BIT_NI_NOTIFY_VERIFY_REQUEST_def
  LOC_API_ADAPTER_BIT_ASSISTANCE_DATA_REQUEST_def LOC_API_ADAPTER_BIT_LOCATION_SERVER_REQUEST_def
  LOC_API_ADAPTER_BIT_IOCTL_REPORT_def LOC_API_ADAPTER_BIT_STATUS_REPORT_def LOC_API_ADAPTER_BIT_GEOFENCE_GEN_ALERT_def
  LOC_API_ADAPTER_BIT_NMEA_1HZ_REPORT_def LOC_API_ADAPTER_BIT_GNSS_MEASUREMENT_def

definition mFgExclMask :: event_mask where
  "mFgExclMask = 0"

definition mBgExclMask :: event_mask where
  "mBgExclMask =
     LOC_API_ADAPTER_BIT_PARSED_POSITION_REPORT OR LOC_API_ADAPTER_BIT_SATELLITE_REPORT OR
     LOC_API_ADAPTER_BIT_NMEA_1HZ_REPORT OR LOC_API_ADAPTER_BIT_NMEA_POSITION_REPORT OR
     LOC_API_ADAPTER_BIT_IOCTL_REPORT OR LOC_API_ADAPTER_BIT_STATUS_REPORT OR
     LOC_API_ADAPTER_BIT_GEOFENCE_GEN_ALERT OR LOC_API_ADAPTER_BIT_GNSS_MEASUREMENT"

section \<open>Contexts\<close>

datatype loc_api_impl = FromLBS | FromV02 | FromRpc | LocApiDummy

datatype lbs_proxy = LBSProxyLib | LBSProxyDummy

text \<open>
  The libraries: whether the proxy's library yields a proxy and that yields a modem interface, and
  what each of the two interface libraries yields (\<open>None\<close>: it is not there).
\<close>

record loc_libs =
  lbs_core :: bool
  lbs_getLocApi :: bool
  loc_api_v02 :: "bool option"
  loc_api_rpc :: "bool option"

definition getLBSProxy :: "loc_libs \<Rightarrow> lbs_proxy" where
  "getLBSProxy libs = (if lbs_core libs then LBSProxyLib else LBSProxyDummy)"

definition lbs_has_api :: "lbs_proxy \<Rightarrow> loc_libs \<Rightarrow> bool" where
  "lbs_has_api proxy libs = (case proxy of LBSProxyLib \<Rightarrow> lbs_getLocApi libs | LBSProxyDummy \<Rightarrow> False)"

definition createLocApi :: "loc_libs \<Rightarrow> u32 \<Rightarrow> lbs_proxy \<Rightarrow> loc_api_impl" where
  "createLocApi libs target proxy =
     (let locApi =
        (if TARGET_MPQ \<noteq> target then
           (if lbs_has_api proxy libs then Some FromLBS
            else (case loc_api_v02 libs of
                    Some yields \<Rightarrow> if yields then Some FromV02 else None
                  | None \<Rightarrow>
                      (case loc_api_rpc libs of
                         Some yields \<Rightarrow> if yields then Some FromRpc else None
                       | None \<Rightarrow> None)))
         else None)
      in case locApi of None \<Rightarrow> LocApiDummy | Some a \<Rightarrow> a)"

record loc_context =
  ctx_id :: nat
  mLBSProxy :: lbs_proxy
  ctx_task :: nat
  ctx_exMask :: event_mask
  ctx_api :: loc_api_impl

definition ContextBase_new :: "loc_libs \<Rightarrow> u32 \<Rightarrow> nat \<Rightarrow> nat \<Rightarrow> event_mask \<Rightarrow> loc_context" where
  "ContextBase_new libs target obj msgTask exMask =
     (let proxy = getLBSProxy libs
      in \<lparr>ctx_id = obj, mLBSProxy = proxy, ctx_task = msgTask, ctx_exMask = exMask, ctx_api = createLocApi libs target proxy\<rparr>)"

text \<open>The static members of \<^verbatim>\<open>LocDualContext\<close>, with the tasks created, the injections and the messages sent.\<close>

record dual_context =
  ctx_mMsgTask :: "nat option"
  mFgContext :: "loc_context option"
  mBgContext :: "loc_context option"
  mInjectContext :: "loc_context option"
  next_ctx :: nat
  tasks_created :: nat
  injected :: "loc_context list"
  ctx_sent :: "(nat \<times> nat) list"

definition dual_context_start :: dual_context where
  "dual_context_start = \<lparr>ctx_mMsgTask = None, mFgContext = None, mBgContext = None, mInjectContext = None, next_ctx = 0,
     tasks_created = 0, injected = [], ctx_sent = []\<rparr>"

definition getMsgTask :: "dual_context \<Rightarrow> nat \<times> dual_context" where
  "getMsgTask s =
     (case ctx_mMsgTask s of
        Some t \<Rightarrow> (t, s)
      | None \<Rightarrow> (next_ctx s, s\<lparr>ctx_mMsgTask := Some (next_ctx s), next_ctx := Suc (next_ctx s), tasks_created := Suc (tasks_created s)\<rparr>))"

definition injectFeatureConfig :: "loc_context \<Rightarrow> dual_context \<Rightarrow> dual_context" where
  "injectFeatureConfig cur s = (if Some cur = mInjectContext s then s\<lparr>injected := injected s @ [cur]\<rparr> else s)"

definition inject_first :: "loc_context \<Rightarrow> dual_context \<Rightarrow> dual_context" where
  "inject_first c s =
     (if mInjectContext s = None then injectFeatureConfig c (s\<lparr>mInjectContext := Some c\<rparr>) else s)"

definition send_first :: "nat option \<Rightarrow> loc_context \<Rightarrow> dual_context \<Rightarrow> dual_context" where
  "send_first firstMsg c s =
     (case firstMsg of None \<Rightarrow> s | Some m \<Rightarrow> s\<lparr>ctx_sent := ctx_sent s @ [(ctx_task c, m)]\<rparr>)"

text \<open>Both getters run with the mutex held, up to the sending of the message.\<close>

definition getLocFgContext :: "loc_libs \<Rightarrow> u32 \<Rightarrow> nat option \<Rightarrow> dual_context \<Rightarrow> loc_context \<times> dual_context" where
  "getLocFgContext libs target firstMsg s =
     (let (c, s1) =
        (case mFgContext s of
           Some c \<Rightarrow> (c, s)
         | None \<Rightarrow>
             (case getMsgTask s of (task, s1) \<Rightarrow>
                (let c = ContextBase_new libs target (next_ctx s1) task mFgExclMask
                 in (c, s1\<lparr>mFgContext := Some c, next_ctx := Suc (next_ctx s1)\<rparr>))))
      in (c, send_first firstMsg c (inject_first c s1)))"

definition getLocBgContext :: "loc_libs \<Rightarrow> u32 \<Rightarrow> nat option \<Rightarrow> dual_context \<Rightarrow> loc_context \<times> dual_context" where
  "getLocBgContext libs target firstMsg s =
     (let (c, s1) =
        (case mBgContext s of
           Some c \<Rightarrow> (c, s)
         | None \<Rightarrow>
             (case getMsgTask s of (task, s1) \<Rightarrow>
                (let c = ContextBase_new libs target (next_ctx s1) task mBgExclMask
                 in (c, s1\<lparr>mBgContext := Some c, next_ctx := Suc (next_ctx s1)\<rparr>))))
      in (c, send_first firstMsg c (inject_first c s1)))"

section \<open>What the clients may rely on\<close>

inductive ctx_run :: "loc_libs \<Rightarrow> u32 \<Rightarrow> dual_context \<Rightarrow> bool" for libs target where
  ctx_init: "ctx_run libs target dual_context_start"
| ctx_fg: "ctx_run libs target s \<Longrightarrow> ctx_run libs target (snd (getLocFgContext libs target m s))"
| ctx_bg: "ctx_run libs target s \<Longrightarrow> ctx_run libs target (snd (getLocBgContext libs target m s))"

text \<open>
  Every context runs on the one task, the contexts have the masks of their grounds, and the feature
  configuration has been injected once as soon as there is a context, into the first one.
\<close>

definition ctx_ok :: "loc_libs \<Rightarrow> u32 \<Rightarrow> dual_context \<Rightarrow> bool" where
  "ctx_ok libs target s \<longleftrightarrow>
     tasks_created s = (if ctx_mMsgTask s = None then 0 else 1) \<and>
     (ctx_mMsgTask s = None \<longleftrightarrow> mFgContext s = None \<and> mBgContext s = None) \<and>
     (\<forall>c. mFgContext s = Some c \<longrightarrow> ctx_mMsgTask s = Some (ctx_task c) \<and> ctx_exMask c = mFgExclMask) \<and>
     (\<forall>c. mBgContext s = Some c \<longrightarrow> ctx_mMsgTask s = Some (ctx_task c) \<and> ctx_exMask c = mBgExclMask) \<and>
     (mInjectContext s = None \<longleftrightarrow> mFgContext s = None \<and> mBgContext s = None) \<and>
     (\<forall>c. mInjectContext s = Some c \<longrightarrow> mFgContext s = Some c \<or> mBgContext s = Some c) \<and>
     injected s = (case mInjectContext s of None \<Rightarrow> [] | Some c \<Rightarrow> [c]) \<and>
     (\<forall>(t, m) \<in> set (ctx_sent s). ctx_mMsgTask s = Some t)"

lemma ctx_ok_send: "ctx_ok libs target s \<Longrightarrow> ctx_mMsgTask s = Some (ctx_task c) \<Longrightarrow> ctx_ok libs target (send_first m c s)"
  by (cases m) (simp_all add: send_first_def ctx_ok_def)

lemma ctx_task_inject [simp]: "ctx_mMsgTask (inject_first c s) = ctx_mMsgTask s"
  by (simp add: inject_first_def injectFeatureConfig_def)

lemma ctx_ok_old:
  assumes ok: "ctx_ok libs target s" and c: "mFgContext s = Some c \<or> mBgContext s = Some c"
  shows "ctx_ok libs target (send_first m c (inject_first c s))"
proof -
  have task: "ctx_mMsgTask s = Some (ctx_task c)" using ok c unfolding ctx_ok_def by blast
  have "mInjectContext s \<noteq> None" using ok c unfolding ctx_ok_def by (metis option.distinct(1))
  then have "inject_first c s = s" by (auto simp: inject_first_def)
  with ok task show ?thesis by (simp add: ctx_ok_send)
qed

lemma ctx_ok_new:
  assumes "ctx_ok libs target s" and "getMsgTask s = (t, s1)" and "ctx_task c = t"
  shows "mFgContext s = None \<Longrightarrow> ctx_exMask c = mFgExclMask \<Longrightarrow>
      ctx_ok libs target (send_first m c (inject_first c (s1\<lparr>mFgContext := Some c, next_ctx := n\<rparr>)))"
    and "mBgContext s = None \<Longrightarrow> ctx_exMask c = mBgExclMask \<Longrightarrow>
      ctx_ok libs target (send_first m c (inject_first c (s1\<lparr>mBgContext := Some c, next_ctx := n\<rparr>)))"
proof -
  have t: "ctx_mMsgTask s1 = Some (ctx_task c)" using assms(2,3) by (auto simp: getMsgTask_def split: option.splits)
  show "mFgContext s = None \<Longrightarrow> ctx_exMask c = mFgExclMask \<Longrightarrow>
      ctx_ok libs target (send_first m c (inject_first c (s1\<lparr>mFgContext := Some c, next_ctx := n\<rparr>)))"
    using assms(1,2) t
    by (intro ctx_ok_send)
      (cases "ctx_mMsgTask s"; cases "mInjectContext s"; force simp: getMsgTask_def ctx_ok_def inject_first_def injectFeatureConfig_def)+
  show "mBgContext s = None \<Longrightarrow> ctx_exMask c = mBgExclMask \<Longrightarrow>
      ctx_ok libs target (send_first m c (inject_first c (s1\<lparr>mBgContext := Some c, next_ctx := n\<rparr>)))"
    using assms(1,2) t
    by (intro ctx_ok_send)
      (cases "ctx_mMsgTask s"; cases "mInjectContext s"; force simp: getMsgTask_def ctx_ok_def inject_first_def injectFeatureConfig_def)+
qed

lemma ctx_ok_get:
  assumes "ctx_ok libs target s"
  shows "ctx_ok libs target (snd (getLocFgContext libs target m s))" "ctx_ok libs target (snd (getLocBgContext libs target m s))"
  using ctx_ok_old [OF assms] ctx_ok_new [OF assms]
  by (auto simp: getLocFgContext_def getLocBgContext_def ContextBase_new_def Let_def split: option.splits prod.splits)

lemma ctx_run_ok: "ctx_run libs target s \<Longrightarrow> ctx_ok libs target s"
  by (induction rule: ctx_run.induct) (auto simp: ctx_ok_get, simp add: ctx_ok_def dual_context_start_def)

text \<open>The getters are stable: once there is a context, later calls return it.\<close>

lemma ctx_frames [simp]:
  "mFgContext (send_first m c s) = mFgContext s" "mBgContext (send_first m c s) = mBgContext s"
  "mFgContext (inject_first c s) = mFgContext s" "mBgContext (inject_first c s) = mBgContext s"
  by (simp_all add: send_first_def inject_first_def injectFeatureConfig_def split: option.split)

lemma get_context_stable:
  "mFgContext (snd (getLocFgContext libs target m s)) = Some (fst (getLocFgContext libs target m s))"
  "mBgContext (snd (getLocBgContext libs target m s)) = Some (fst (getLocBgContext libs target m s))"
  "mFgContext s = Some c \<Longrightarrow> fst (getLocFgContext libs target m s) = c"
  "mBgContext s = Some c \<Longrightarrow> fst (getLocBgContext libs target m s) = c"
  by (simp_all add: getLocFgContext_def getLocBgContext_def Let_def split: option.split prod.split)

text \<open>In every run of the two getters there is one message task at most and all contexts run on it, the
  foreground context excludes nothing and the background context its events, the feature configuration has been
  injected exactly once, into the first context, and every first message went to the shared task.\<close>

theorem contexts_share_task:
  assumes "ctx_run libs target s"
  shows "tasks_created s \<le> 1 \<and>
    (\<forall>c. mFgContext s = Some c \<longrightarrow> ctx_mMsgTask s = Some (ctx_task c) \<and> ctx_exMask c = 0) \<and>
    (\<forall>c. mBgContext s = Some c \<longrightarrow> ctx_mMsgTask s = Some (ctx_task c) \<and> ctx_exMask c = mBgExclMask) \<and>
    length (injected s) = (if mFgContext s = None \<and> mBgContext s = None then 0 else 1) \<and>
    (\<forall>(t, m) \<in> set (ctx_sent s). ctx_mMsgTask s = Some t)"
  using ctx_run_ok [OF assms] by (auto simp: ctx_ok_def mFgExclMask_def split: option.splits)

lemma contexts_share_task_witness:
  "length (injected (snd (getLocBgContext \<lparr>lbs_core = False, lbs_getLocApi = False, loc_api_v02 = None, loc_api_rpc = None\<rparr> TARGET_MDM None
     (snd (getLocFgContext \<lparr>lbs_core = False, lbs_getLocApi = False, loc_api_v02 = None, loc_api_rpc = None\<rparr> TARGET_MDM (Some 1)
        dual_context_start))))) = 1"
proof -
  let ?l = "\<lparr>lbs_core = False, lbs_getLocApi = False, loc_api_v02 = None, loc_api_rpc = None\<rparr>"
  have "ctx_run ?l TARGET_MDM (snd (getLocBgContext ?l TARGET_MDM None (snd (getLocFgContext ?l TARGET_MDM (Some 1) dual_context_start))))"
    by (intro ctx_bg ctx_fg ctx_init)
  from contexts_share_task [OF this] show ?thesis by (simp add: get_context_stable)
qed

text \<open>On the platform without positioning hardware every context gets the interface without a modem.\<close>

lemma mpq_dummy: "createLocApi libs TARGET_MPQ proxy = LocApiDummy"
  by (simp add: createLocApi_def)

text \<open>
  The other interface library is only tried when the first is absent: one that is there but does not
  yield an interface leaves the service without a modem, although the other one might have it.
\<close>

lemma broken_v02_hides_rpc:
  "\<not> lbs_core libs \<Longrightarrow> loc_api_v02 libs = Some False \<Longrightarrow> loc_api_rpc libs = Some True \<Longrightarrow>
   createLocApi libs target (getLBSProxy libs) = LocApiDummy"
  by (simp add: createLocApi_def getLBSProxy_def lbs_has_api_def)

end
