(* ===== verification/Bytes.thy ===== *)
theory Bytes
  imports Prelude
begin

text \<open>How the target lays out 32-bit numbers, for the pipes of the daemon and the image of the device trees.\<close>

text \<open>Numbers in memory, least significant byte first.\<close>

fun le_val :: "u8 list \<Rightarrow> nat" where
  "le_val [] = 0"
| "le_val (b # bs) = unat b + 256 * le_val bs"

fun le_bytes :: "nat \<Rightarrow> nat \<Rightarrow> u8 list" where
  "le_bytes 0 v = []"
| "le_bytes (Suc n) v = of_nat v # le_bytes n (v div 256)"

definition le32 :: "u32 \<Rightarrow> u8 list" where
  "le32 w = le_bytes 4 (unat w)"

definition un_le32 :: "u8 list \<Rightarrow> u32" where
  "un_le32 bs = of_nat (le_val bs)"

lemma length_le_bytes [simp]: "length (le_bytes n v) = n"
  by (induction n arbitrary: v) simp_all

lemma length_le32 [simp]: "length (le32 w) = 4"
  unfolding le32_def by (rule length_le_bytes)

lemma le_val_le_bytes: "le_val (le_bytes n v) = v mod 256 ^ n"
proof (induction n arbitrary: v)
  case (Suc n)
  have "v mod (256 * 256 ^ n) = v mod 256 + 256 * (v div 256 mod 256 ^ n)" by (simp add: mod_mult2_eq)
  with Suc show ?case by (simp add: unsigned_of_nat take_bit_eq_mod)
qed simp

lemma un_le32_le32 [simp]: "un_le32 (le32 w) = w"
proof -
  have "unat w < 256 ^ 4" using unsigned_less [of w] by simp
  then show ?thesis by (simp add: un_le32_def le32_def le_val_le_bytes)
qed

lemma un_le32_byte [simp]: "un_le32 [b] = ucast b"
  by (simp add: un_le32_def)

end
