(* ===== verification/Dmn_Conn.thy ===== *)
theory Dmn_Conn
  imports Loc_Eng Bytes
begin

text \<open>
  The connection to the positioning daemon: \<^verbatim>\<open>loc_eng_dmn_conn*.c/.cpp\<close>.  Messages are framed by their
  length on named pipes; a thread of the service reads requests for data connections, turns them into
  messages of the engine, and the AGPS machines answer on a pipe for each sender.  Pipes are byte
  lists; the layout of \<^verbatim>\<open>struct ctrl_msgbuf\<close> is the one of the 32-bit target.
\<close>

section \<open>Pipes\<close>

text \<open>
  Both ends of every pipe are open, so a read from an empty pipe blocks (\<open>None\<close>) and a write of up to a
  page is atomic if it succeeds.  The kernel refuses a count whose top bit is set.
\<close>

definition glue_pipewrite :: "bool \<Rightarrow> u8 list \<Rightarrow> u8 list \<Rightarrow> int \<times> u8 list" where
  "glue_pipewrite ok buf pipe = (if ok then (int (length buf), pipe @ buf) else (- 1, pipe))"

definition glue_piperead :: "u32 \<Rightarrow> u8 list \<Rightarrow> (int \<times> u8 list \<times> u8 list) option" where
  "glue_piperead sz pipe =
     (if sint sz < 0 then Some (- 1, [], pipe)
      else if sz = 0 then Some (0, [], pipe)
      else if pipe = [] then None
      else (let n = min (unat sz) (length pipe) in Some (int n, take n pipe, drop n pipe)))"

section \<open>Framing\<close>

text \<open>\<open>body\<close> is the message behind its length field, which \<^verbatim>\<open>msgsnd\<close> fills in.\<close>

definition glue_msgsnd :: "bool \<Rightarrow> u8 list \<Rightarrow> u8 list \<Rightarrow> int \<times> u8 list" where
  "glue_msgsnd ok body pipe =
     (let msgsz = 4 + length body
      in case glue_pipewrite ok (le32 (of_nat msgsz) @ body) pipe of
           (result, pipe1) \<Rightarrow> (if result \<noteq> int msgsz then - 1 else result, pipe1))"

text \<open>
  A read that blocks after the length has been read is repeated from the start in the model; there is
  one reader only, so it finds the same length again.
\<close>

definition glue_msgrcv :: "u32 \<Rightarrow> u8 list \<Rightarrow> (int \<times> u8 list \<times> u8 list) option" where
  "glue_msgrcv msgbufsz pipe =
     (case glue_piperead 4 pipe of
        None \<Rightarrow> None
      | Some (result, hdr, pipe1) \<Rightarrow>
          if result \<noteq> 4 then Some (- 1, [], pipe1)
          else
            (let msgsz = un_le32 hdr
             in if msgbufsz < msgsz then Some (- 1, [], pipe1)
                else
                  (case glue_piperead (msgsz - 4) pipe1 of
                     None \<Rightarrow> None
                   | Some (result, body, pipe2) \<Rightarrow>
                       if result \<noteq> sint (msgsz - 4) then Some (- 1, [], pipe2) else Some (sint msgsz, body, pipe2))))"

section \<open>Requests\<close>

text \<open>
  The fields of a message at their offsets behind the length field.  The handlers do not look at the
  length of the message: what it does not fill is what the allocator left in the buffer.
\<close>

definition msg_field :: "nat \<Rightarrow> nat \<Rightarrow> u8 list \<Rightarrow> u8 list" where
  "msg_field off n buf = take n (drop off buf)"

definition ctrl_type :: "u8 list \<Rightarrow> u32" where
  "ctrl_type buf = un_le32 (msg_field 8 1 buf)"

text \<open>A C string of at most \<open>n\<close> characters, as \<^verbatim>\<open>strlcpy\<close> takes it from a byte buffer.\<close>

definition c_string :: "nat \<Rightarrow> u8 list \<Rightarrow> string" where
  "c_string n bs = take n (map (\<lambda>b. char_of (unat b)) (takeWhile (\<lambda>b. b \<noteq> 0) bs))"

definition AGPS_TYPE_ANY :: int where "AGPS_TYPE_ANY = 0"

definition if_request_type :: "u8 list \<Rightarrow> int option" where
  "if_request_type buf =
     (let t = un_le32 (msg_field 12 4 buf)
      in if t = 0 then Some AGPS_TYPE_SUPL else if t = 1 then Some AGPS_TYPE_WIFI
         else if t = 2 then Some AGPS_TYPE_ANY else None)"

definition if_message :: "bool \<Rightarrow> int \<Rightarrow> u8 list \<Rightarrow> agps_msg option" where
  "if_message isReq type buf =
     (let sender = un_le32 (msg_field 16 4 buf)
      in if sender < 3 then
           Some (LocEngReqRelWifi type sender (Some (c_string 32 (drop 40 buf))) (Some (c_string 32 (drop 73 buf))) isReq)
         else if sender = 3 then
           Some (LocEngReqRelBIT type (un_le32 (msg_field 20 4 buf)) (msg_field 24 16 buf) isReq)
         else None)"

text \<open>\<open>handle\<close>: whether the engine's data has been handed over.  \<open>None\<close> is a null dereference.\<close>

definition if_request_handler :: "bool \<Rightarrow> u8 list \<Rightarrow> (int \<times> agps_msg list) option" where
  "if_request_handler handle buf =
     (if \<not> handle then Some (1, [])
      else (case if_request_type buf of
              None \<Rightarrow> Some (- 1, [])
            | Some type \<Rightarrow> (case if_message True type buf of None \<Rightarrow> Some (- 1, []) | Some m \<Rightarrow> Some (0, [m]))))"

definition if_release_handler :: "bool \<Rightarrow> u8 list \<Rightarrow> (int \<times> agps_msg list) option" where
  "if_release_handler handle buf =
     (case if_request_type buf of
        None \<Rightarrow> Some (- 1, [])
      | Some type \<Rightarrow>
          (case if_message False type buf of
             None \<Rightarrow> Some (- 1, [])
           | Some m \<Rightarrow> if handle then Some (0, [m]) else None))"

section \<open>The server thread\<close>

definition GPSONE_LOC_API_IF_REQUEST :: u32 where "GPSONE_LOC_API_IF_REQUEST = 0xF0"
definition GPSONE_LOC_API_IF_RELEASE :: u32 where "GPSONE_LOC_API_IF_RELEASE = 0xF1"
definition GPSONE_LOC_API_RESPONSE :: u8 where "GPSONE_LOC_API_RESPONSE = 0xF2"
definition GPSONE_UNBLOCK :: u8 where "GPSONE_UNBLOCK = 0xF3"

lemmas gpsone_defs = GPSONE_LOC_API_IF_REQUEST_def GPSONE_LOC_API_IF_RELEASE_def GPSONE_LOC_API_RESPONSE_def GPSONE_UNBLOCK_def

text \<open>\<^verbatim>\<open>sizeof (struct ctrl_msgbuf)\<close>, and of the buffer of the server.\<close>

definition ctrl_msgbuf_size :: nat where "ctrl_msgbuf_size = 112"
definition server_buf_size :: u32 where "server_buf_size = 368"

datatype server_turn = Blocks | Faults | Turned int "agps_msg list" "u8 list"

text \<open>\<^verbatim>\<open>loc_api_server_proc\<close>; \<open>garbage\<close> is the content of the allocated buffer.\<close>

definition loc_api_server_proc :: "u8 list \<Rightarrow> bool \<Rightarrow> u8 list \<Rightarrow> server_turn" where
  "loc_api_server_proc garbage handle pipe =
     (case glue_msgrcv server_buf_size pipe of
        None \<Rightarrow> Blocks
      | Some (len, body, pipe1) \<Rightarrow>
          if len \<le> 0 then Turned (- 1) [] pipe1
          else
            (let buf = body @ drop (length body) garbage;
                 result = (if ctrl_type buf = GPSONE_LOC_API_IF_REQUEST then if_request_handler handle buf
                           else if ctrl_type buf = GPSONE_LOC_API_IF_RELEASE then if_release_handler handle buf
                           else Some (0, []))
             in case result of None \<Rightarrow> Faults | Some (_, posts) \<Rightarrow> Turned 0 posts pipe1))"

text \<open>
  The thread helper around it, and the pipes of the four senders.  A turn is one round of the loop of
  \<^verbatim>\<open>thelper_main\<close>; when the exit flag is set after a round, the loop ends and the pipes are removed.
\<close>

record dmn_conn =
  loc_api_handle :: bool
  srv_pipe :: "u8 list"
  resp_pipe :: "u32 \<Rightarrow> u8 list"
  thread_ready :: bool
  thread_exit :: bool
  looping :: bool
  dmn_faulted :: bool
  dmn_posts :: "agps_msg list"

definition server_launch :: "dmn_conn \<Rightarrow> dmn_conn" where
  "server_launch s =
     s\<lparr>loc_api_handle := True, srv_pipe := [], resp_pipe := (\<lambda>_. []), thread_ready := True, thread_exit := False, looping := True\<rparr>"

definition thelper_turn :: "u8 list \<Rightarrow> dmn_conn \<Rightarrow> dmn_conn" where
  "thelper_turn garbage s =
     (if \<not> looping s then s
      else (case loc_api_server_proc garbage (loc_api_handle s) (srv_pipe s) of
              Blocks \<Rightarrow> s
            | Faults \<Rightarrow> s\<lparr>dmn_faulted := True, looping := False\<rparr>
            | Turned result posts pipe1 \<Rightarrow>
                (let e = thread_exit s \<or> result < 0
                 in s\<lparr>thread_exit := e, looping := \<not> e, dmn_posts := dmn_posts s @ posts, srv_pipe := pipe1\<rparr>)))"

text \<open>\<open>junk\<close> is the uninitialised rest of the message that unblocks the reader.\<close>

definition server_unblock :: "bool \<Rightarrow> u8 list \<Rightarrow> dmn_conn \<Rightarrow> dmn_conn" where
  "server_unblock ok junk s =
     s\<lparr>thread_exit := True,
       srv_pipe := snd (glue_msgsnd ok ((take (ctrl_msgbuf_size - 4) junk)[8 := GPSONE_UNBLOCK]) (srv_pipe s))\<rparr>"

fun data_conn_status :: "data_conn_msg \<Rightarrow> u32" where
  "data_conn_status GPSONE_LOC_API_IF_REQUEST_SUCCESS = 0xF0"
| "data_conn_status GPSONE_LOC_API_IF_RELEASE_SUCCESS = 0xF1"
| "data_conn_status GPSONE_LOC_API_IF_FAILURE = 0xF2"

text \<open>The response of a machine's subscriber: the status behind the type, the rest uninitialised.\<close>

definition response_body :: "u8 list \<Rightarrow> data_conn_msg \<Rightarrow> u8 list" where
  "response_body junk status =
     (let b = (take (ctrl_msgbuf_size - 4) junk)[8 := GPSONE_LOC_API_RESPONSE]
      in take 12 b @ le32 (data_conn_status status) @ drop 16 b)"

definition server_data_conn :: "bool \<Rightarrow> u8 list \<Rightarrow> u32 \<Rightarrow> data_conn_msg \<Rightarrow> dmn_conn \<Rightarrow> int \<times> dmn_conn" where
  "server_data_conn ok junk sender status s =
     (if sender < 4 then
        (case glue_msgsnd ok (response_body junk status) (resp_pipe s sender) of
           (r, p) \<Rightarrow> (if r < 0 then - 1 else 0, s\<lparr>resp_pipe := (resp_pipe s)(sender := p)\<rparr>))
      else (0, s))"

section \<open>Bytes and frames\<close>

lemma piperead_some:
  "0 < n \<Longrightarrow> n < 2 ^ 31 \<Longrightarrow> n \<le> length pipe \<Longrightarrow> glue_piperead (of_nat n) pipe = Some (int n, take n pipe, drop n pipe)"
proof -
  assume n: "0 < n" "n < 2 ^ 31" "n \<le> length pipe"
  then have "sint (of_nat n :: u32) = int n"
    using c_int_id [of "int n"] by (simp add: c_int_def)
  moreover have "unat (of_nat n :: u32) = n" using n by (simp add: unsigned_of_nat take_bit_nat_eq_self)
  moreover from this n(1) have "(of_nat n :: u32) \<noteq> 0" by (metis less_irrefl unsigned_0)
  ultimately show ?thesis using n by (auto simp: glue_piperead_def min_absorb1)
qed

text \<open>A frame comes out of the pipe as it went in, whatever follows it.\<close>

definition frame :: "u8 list \<Rightarrow> u8 list" where
  "frame body = le32 (of_nat (4 + length body)) @ body"

lemma msgsnd_frame: "glue_msgsnd True body pipe = (int (4 + length body), pipe @ frame body)"
  by (simp add: glue_msgsnd_def glue_pipewrite_def frame_def)

lemma msgrcv_frame:
  assumes "4 + length body \<le> unat bufsz" and "unat bufsz < 2 ^ 31"
  shows "glue_msgrcv bufsz (frame body @ rest) = Some (int (4 + length body), body, rest)"
proof -
  let ?n = "4 + length body"
  have small: "unat (of_nat k :: u32) = k" "sint (of_nat k :: u32) = int k" if "k \<le> ?n" for k
    using that assms c_int_id [of "int k"] by (simp_all add: c_int_def unsigned_of_nat take_bit_nat_eq_self)
  have n: "unat (of_nat ?n :: u32) = ?n" "sint (of_nat ?n :: u32) = int ?n" "sint (of_nat (length body) :: u32) = int (length body)"
    by (rule small; simp)+
  have hdr: "glue_piperead 4 (frame body @ rest) = Some (4, le32 (of_nat ?n), body @ rest)"
    using piperead_some [of 4 "frame body @ rest"] by (simp add: frame_def)
  have body: "glue_piperead (of_nat (length body)) (body @ rest) = Some (int (length body), body, rest)"
  proof (cases "body = []")
    case False
    then show ?thesis using assms piperead_some [of "length body" "body @ rest"] by simp
  qed (simp add: glue_piperead_def)
  have "of_nat ?n - (4 :: u32) = of_nat (length body)" by simp
  moreover have "\<not> bufsz < of_nat ?n" using assms(1) n(1) by (simp add: word_less_nat_alt not_less)
  ultimately show ?thesis using hdr body n by (simp add: glue_msgrcv_def)
qed

definition send_all :: "u8 list list \<Rightarrow> u8 list \<Rightarrow> u8 list" where
  "send_all bodies pipe = fold (\<lambda>b p. snd (glue_msgsnd True b p)) bodies pipe"

lemma send_all_frames: "send_all bodies pipe = pipe @ concat (map frame bodies)"
  by (induction bodies arbitrary: pipe) (simp_all add: send_all_def msgsnd_frame)

text \<open>
  A length field of three is let through: what is left to read wraps around, the kernel refuses to
  read that much, and the refusal equals the expected count.  The message that is then looked at is
  what the allocator left in the buffer.
\<close>

lemma length_three_accepted: "3 \<le> bufsz \<Longrightarrow> glue_msgrcv bufsz (le32 3 @ rest) = Some (3, [], rest)"
proof -
  assume "3 \<le> bufsz"
  moreover have "glue_piperead 4 (le32 3 @ rest) = Some (4, le32 3, rest)"
    using piperead_some [of 4 "le32 3 @ rest"] by simp
  ultimately show ?thesis by (simp add: glue_msgrcv_def glue_piperead_def [of "- 1"] not_less)
qed

text \<open>A message that cannot be received ends the server, although the message it logs promises a retry.\<close>

lemma bad_message_ends_server:
  assumes "looping s" and "loc_api_server_proc g (loc_api_handle s) (srv_pipe s) = Turned (- 1) posts pipe1"
  shows "\<not> looping (thelper_turn g s)" "thread_exit (thelper_turn g s)"
  using assms by (simp_all add: thelper_turn_def)

text \<open>The release handler does not test the handle that the request handler tests.\<close>

lemma release_without_handle_faults:
  "if_request_type buf = Some t \<Longrightarrow> if_message False t buf = Some m \<Longrightarrow> if_release_handler False buf = None"
  by (simp add: if_release_handler_def)

section \<open>Requests of the daemon\<close>

text \<open>A request as the daemon writes it, in the layout of the structure; unused bytes are zero.\<close>

record dmn_request =
  rq_isReq :: bool
  rq_type :: u32
  rq_sender :: u32
  rq_ipv4 :: u32
  rq_ipv6 :: "u8 list"
  rq_ssid :: string
  rq_password :: string

definition c_buffer :: "string \<Rightarrow> u8 list" where
  "c_buffer str = map (\<lambda>c. of_nat (of_char c)) str @ replicate (33 - length str) 0"

definition rq_body :: "dmn_request \<Rightarrow> u8 list" where
  "rq_body r =
     replicate 8 0 @ [if rq_isReq r then 0xF0 else 0xF1, 0, 0, 0] @ le32 (rq_type r) @ le32 (rq_sender r) @
     le32 (rq_ipv4 r) @ rq_ipv6 r @ c_buffer (rq_ssid r) @ c_buffer (rq_password r) @ [0, 0]"

definition c_str_ok :: "string \<Rightarrow> bool" where
  "c_str_ok str \<longleftrightarrow> length str \<le> 32 \<and> CHR 0x00 \<notin> set str"

definition rq_ok :: "dmn_request \<Rightarrow> bool" where
  "rq_ok r \<longleftrightarrow> rq_type r < 3 \<and> rq_sender r < 4 \<and> length (rq_ipv6 r) = 16 \<and> c_str_ok (rq_ssid r) \<and> c_str_ok (rq_password r)"

definition rq_msg :: "dmn_request \<Rightarrow> agps_msg" where
  "rq_msg r =
     (let type = (if rq_type r = 0 then AGPS_TYPE_SUPL else if rq_type r = 1 then AGPS_TYPE_WIFI else AGPS_TYPE_ANY)
      in if rq_sender r = 3 then LocEngReqRelBIT type (rq_ipv4 r) (rq_ipv6 r) (rq_isReq r)
         else LocEngReqRelWifi type (rq_sender r) (Some (rq_ssid r)) (Some (rq_password r)) (rq_isReq r))"

lemma length_c_buffer: "c_str_ok str \<Longrightarrow> length (c_buffer str) = 33"
  by (simp add: c_str_ok_def c_buffer_def)

lemma byte_of_char: "unat (of_nat (of_char c) :: u8) = of_char c"
proof -
  have "of_char c < (2 :: nat) ^ 8" by simp
  then show ?thesis by (simp add: unsigned_of_nat take_bit_nat_eq_self)
qed

lemma c_string_buffer:
  assumes "c_str_ok str"
  shows "c_string 32 (c_buffer str @ rest) = str"
proof -
  have byte0: "(of_nat (of_char c) :: u8) \<noteq> 0" if "c \<in> set str" for c
  proof
    assume "(of_nat (of_char c) :: u8) = 0"
    then have "of_char c = (of_char (CHR 0x00) :: nat)" using byte_of_char [of c] by simp
    then have "c = CHR 0x00" by (rule of_char_eqI)
    with that assms show False by (simp add: c_str_ok_def)
  qed
  have "takeWhile (\<lambda>b. b \<noteq> 0) (map (\<lambda>c. of_nat (of_char c) :: u8) str @ 0 # more) = map (\<lambda>c. of_nat (of_char c)) str" for more
    by (subst takeWhile_append2) (use byte0 in auto)
  moreover have "33 - length str = Suc (32 - length str)" using assms unfolding c_str_ok_def by linarith
  then have "replicate (33 - length str) (0 :: u8) = 0 # replicate (32 - length str) 0" by simp
  ultimately have "takeWhile (\<lambda>b. b \<noteq> 0) (c_buffer str @ rest) = map (\<lambda>c. of_nat (of_char c)) str"
    by (simp add: c_buffer_def)
  then show ?thesis using assms by (simp add: c_string_def c_str_ok_def byte_of_char comp_def)
qed

lemma rq_fields:
  assumes "rq_ok r"
  shows "length (rq_body r) = 108" "ctrl_type (rq_body r @ g) = (if rq_isReq r then 0xF0 else 0xF1)"
    "un_le32 (msg_field 12 4 (rq_body r @ g)) = rq_type r" "un_le32 (msg_field 16 4 (rq_body r @ g)) = rq_sender r"
    "un_le32 (msg_field 20 4 (rq_body r @ g)) = rq_ipv4 r" "msg_field 24 16 (rq_body r @ g) = rq_ipv6 r"
    "c_string 32 (drop 40 (rq_body r @ g)) = rq_ssid r" "c_string 32 (drop 73 (rq_body r @ g)) = rq_password r"
proof -
  have len: "length (rq_ipv6 r) = 16" "length (c_buffer (rq_ssid r)) = 33" "length (c_buffer (rq_password r)) = 33"
    using assms by (simp_all add: rq_ok_def length_c_buffer)
  show "length (rq_body r) = 108" using len by (simp add: rq_body_def)
  show "ctrl_type (rq_body r @ g) = (if rq_isReq r then 0xF0 else 0xF1)"
    by (simp add: ctrl_type_def msg_field_def rq_body_def)
  show "un_le32 (msg_field 12 4 (rq_body r @ g)) = rq_type r" "un_le32 (msg_field 16 4 (rq_body r @ g)) = rq_sender r"
    "un_le32 (msg_field 20 4 (rq_body r @ g)) = rq_ipv4 r" "msg_field 24 16 (rq_body r @ g) = rq_ipv6 r"
    using len by (simp_all add: msg_field_def rq_body_def)
  have "drop 40 (rq_body r @ g) = c_buffer (rq_ssid r) @ c_buffer (rq_password r) @ [0, 0] @ g"
    "drop 73 (rq_body r @ g) = c_buffer (rq_password r) @ [0, 0] @ g"
    using len by (simp_all add: rq_body_def)
  then show "c_string 32 (drop 40 (rq_body r @ g)) = rq_ssid r" "c_string 32 (drop 73 (rq_body r @ g)) = rq_password r"
    using assms by (simp_all add: rq_ok_def c_string_buffer)
qed

lemma rq_handled:
  assumes "rq_ok r"
  shows "(if rq_isReq r then if_request_handler True (rq_body r @ g) else if_release_handler True (rq_body r @ g)) =
    Some (0, [rq_msg r])"
proof -
  have t: "rq_type r \<noteq> 0 \<Longrightarrow> rq_type r \<noteq> 1 \<Longrightarrow> rq_type r = 2" and snd3: "rq_sender r = 3 \<or> rq_sender r < 3"
    using assms by (auto simp: rq_ok_def) (unat_arith)+
  show ?thesis
    using t snd3
    by (auto simp: if_request_handler_def if_release_handler_def if_request_type_def if_message_def rq_fields [OF assms]
        rq_msg_def Let_def simp del: drop_append)
qed

lemma server_proc_request:
  assumes "rq_ok r"
  shows "loc_api_server_proc g True (frame (rq_body r) @ rest) = Turned 0 [rq_msg r] rest"
proof -
  have "glue_msgrcv server_buf_size (frame (rq_body r) @ rest) = Some (112, rq_body r, rest)"
    using msgrcv_frame [of "rq_body r" server_buf_size rest] by (simp add: rq_fields [OF assms] server_buf_size_def)
  then show ?thesis
    using rq_handled [OF assms]
    by (auto simp: loc_api_server_proc_def rq_fields [OF assms] gpsone_defs Let_def split: if_splits simp del: drop_append)
qed

text \<open>C22: Whatever well-formed requests the daemon writes into the pipe before the server gets to them, the server
  takes them out one per turn, in order and with nothing left over, and posts exactly the engine's message for
  each: of the right kind, for the right connection type and sender, with the addresses, the network name and the
  password that the daemon gave, as a request or a release.\<close>

theorem dmn_requests_served:
  assumes "list_all rq_ok rs" and "looping s" and "loc_api_handle s" and "\<not> thread_exit s" and "srv_pipe s = []"
  shows "(thelper_turn g ^^ length rs) (s\<lparr>srv_pipe := send_all (map rq_body rs) []\<rparr>) = s\<lparr>dmn_posts := dmn_posts s @ map rq_msg rs\<rparr>"
  using assms
proof (induction rs arbitrary: s)
  case (Cons r rs)
  let ?s = "s\<lparr>dmn_posts := dmn_posts s @ [rq_msg r]\<rparr>"
  have "thelper_turn g (s\<lparr>srv_pipe := frame (rq_body r) @ send_all (map rq_body rs) []\<rparr>) = ?s\<lparr>srv_pipe := send_all (map rq_body rs) []\<rparr>"
    using Cons.prems by (simp add: thelper_turn_def server_proc_request)
  moreover have "send_all (map rq_body (r # rs)) [] = frame (rq_body r) @ send_all (map rq_body rs) []"
    by (simp add: send_all_frames)
  moreover have "(thelper_turn g ^^ length rs) (?s\<lparr>srv_pipe := send_all (map rq_body rs) []\<rparr>) =
      ?s\<lparr>dmn_posts := dmn_posts ?s @ map rq_msg rs\<rparr>"
    using Cons.prems by (intro Cons.IH) simp_all
  ultimately show ?case by (simp add: funpow_swap1 del: dmn_conn.update_convs)
qed (simp add: send_all_def)

definition dmn_idle :: dmn_conn where
  "dmn_idle = server_launch \<lparr>loc_api_handle = False, srv_pipe = [], resp_pipe = (\<lambda>_. []), thread_ready = False,
     thread_exit = False, looping = False, dmn_faulted = False, dmn_posts = []\<rparr>"

lemma dmn_requests_served_witness:
  "dmn_posts ((thelper_turn [] ^^ 1) (dmn_idle\<lparr>srv_pipe := send_all [rq_body
     \<lparr>rq_isReq = True, rq_type = 1, rq_sender = 2, rq_ipv4 = 0, rq_ipv6 = replicate 16 0, rq_ssid = ''net'', rq_password = ''x''\<rparr>] []\<rparr>)) =
   [LocEngReqRelWifi AGPS_TYPE_WIFI 2 (Some ''net'') (Some ''x'') True]"
proof -
  let ?r = "\<lparr>rq_isReq = True, rq_type = 1, rq_sender = 2, rq_ipv4 = 0, rq_ipv6 = replicate 16 0, rq_ssid = ''net'', rq_password = ''x''\<rparr>"
  have "list_all rq_ok [?r]" by (simp add: rq_ok_def c_str_ok_def)
  moreover have "looping dmn_idle" "loc_api_handle dmn_idle" "\<not> thread_exit dmn_idle" "srv_pipe dmn_idle = []" "dmn_posts dmn_idle = []"
    by (simp_all add: dmn_idle_def server_launch_def)
  moreover have "rq_msg ?r = LocEngReqRelWifi AGPS_TYPE_WIFI 2 (Some ''net'') (Some ''x'') True" by (simp add: rq_msg_def)
  ultimately show ?thesis using dmn_requests_served [of "[?r]" dmn_idle "[]"] by simp
qed

section \<open>Unblocking the server\<close>

text \<open>Unblocking ends the server: with whole frames that fit its buffer in the pipe (none, if the server is
  blocked), the next turn neither blocks nor leaves the loop running, and it posts what one message asks for at most.\<close>

theorem dmn_unblock_ends:
  assumes "list_all (\<lambda>b. 4 + length b \<le> 368) bodies" and "srv_pipe s = send_all bodies []"
    and "looping s" and "loc_api_handle s" and "108 \<le> length junk"
  shows "let s' = thelper_turn g (server_unblock True junk s)
         in \<not> looping s' \<and> dmn_faulted s' = dmn_faulted s \<and> (\<exists>ms. dmn_posts s' = dmn_posts s @ ms \<and> length ms \<le> 1)"
proof -
  let ?u = "(take (ctrl_msgbuf_size - 4) junk)[8 := GPSONE_UNBLOCK]"
  let ?s = "server_unblock True junk s"
  have "\<exists>b rest. srv_pipe ?s = frame b @ rest \<and> 4 + length b \<le> 368"
  proof (cases bodies)
    case Nil
    then show ?thesis
      using assms(2,5)
      by (intro exI [of _ ?u] exI [of _ "[]"]) (simp add: server_unblock_def msgsnd_frame send_all_def ctrl_msgbuf_size_def)
  next
    case (Cons b bs)
    then show ?thesis using assms(1,2) by (auto simp: server_unblock_def msgsnd_frame send_all_frames)
  qed
  then obtain b rest where b: "srv_pipe ?s = frame b @ rest" "4 + length b \<le> 368" by blast
  have rcv: "glue_msgrcv server_buf_size (frame b @ rest) = Some (int (4 + length b), b, rest)"
    using msgrcv_frame [of b server_buf_size rest] b(2) by (simp add: server_buf_size_def)
  let ?buf = "b @ drop (length b) g"
  let ?result = "if ctrl_type ?buf = GPSONE_LOC_API_IF_REQUEST then if_request_handler True ?buf
     else if ctrl_type ?buf = GPSONE_LOC_API_IF_RELEASE then if_release_handler True ?buf else Some (0, [])"
  have "\<exists>r ms. ?result = Some (r, ms) \<and> length ms \<le> 1"
    by (simp add: if_request_handler_def if_release_handler_def split: option.split)
  then obtain r ms where ms: "?result = Some (r, ms)" "length ms \<le> 1" by blast
  have "loc_api_server_proc g True (frame b @ rest) = Turned 0 ms rest"
    unfolding loc_api_server_proc_def rcv Let_def option.case prod.case ms(1) by simp
  with ms(2) have "\<exists>ms. loc_api_server_proc g True (frame b @ rest) = Turned 0 ms rest \<and> length ms \<le> 1" by blast
  then show ?thesis
    using b(1) assms(3,4) by (auto simp: thelper_turn_def server_unblock_def Let_def)
qed

lemma dmn_unblock_ends_witness:
  "\<not> looping (thelper_turn [] (server_unblock True (replicate 108 0) dmn_idle))"
  using dmn_unblock_ends [of "[]" dmn_idle "replicate 108 0" "[]"]
  by (simp add: dmn_idle_def server_launch_def send_all_def Let_def)

end
