(* ===== verification/Loc_Hal.thy ===== *)
theory Loc_Hal
  imports Eng_Props Loc_Context Dmn_Conn
begin

text \<open>
  \<^verbatim>\<open>loc.cpp\<close>: the functions that the framework calls, on top of the location engine.  They choose the
  platform's capabilities, register the engine with the framework's callbacks, translate its types and
  filter what is handed back.  Loading the geofence library is left out.
\<close>

section \<open>State\<close>

text \<open>\<open>hal_out\<close> is what has reached the framework; \<open>hal_ulp\<close> the capabilities asked of the fusion library.\<close>

record loc_hal =
  loc_afw_data :: loc_eng
  gps_loc_cb :: bool
  gps_sv_cb :: bool
  sGnssType :: u32
  gTarget :: u32
  hal_ulp :: "u32 list"
  hal_out :: "eng_call list"

record hal_env =
  henv :: eng_env
  hplatform :: platform
  gps_conf_file :: "string option"
  sap_conf_file :: "string option"
  lbs_agps_extended :: bool
  lbs_cpi_extended :: bool
  gps_disable :: string

definition no_assisted :: "u32 set" where
  "no_assisted = {gnss_val GNSS_GSS, gnss_val GNSS_AUTO, gnss_val GNSS_QCA1530}"

definition clear_assisted :: "loc_eng \<Rightarrow> loc_eng" where
  "clear_assisted e = e\<lparr>conf := (conf e)\<lparr>gps_conf := (gconf e)(CAPABILITIES :=
     CInt (conf_n (gconf e CAPABILITIES) AND NOT (gpsConfMSA OR gpsConfMSB)))\<rparr>\<rparr>"

section \<open>The interface\<close>

definition read_config :: "hal_env \<Rightarrow> loc_eng \<Rightarrow> loc_eng" where
  "read_config env e = e\<lparr>conf := snd (loc_eng_read_config (gps_conf_file env) (sap_conf_file env) (conf e))\<rparr>"

definition gps_get_hardware_interface :: "hal_env \<Rightarrow> loc_hal \<Rightarrow> bool \<times> loc_hal" where
  "gps_get_hardware_interface env h =
     (take 1 (gps_disable env) \<noteq> ''1'',
      h\<lparr>loc_afw_data := read_config env (read_config env (loc_afw_data h))\<rparr>)"


definition init_events :: event_mask where
  "init_events =
     LOC_API_ADAPTER_BIT_PARSED_POSITION_REPORT OR LOC_API_ADAPTER_BIT_SATELLITE_REPORT OR
     LOC_API_ADAPTER_BIT_LOCATION_SERVER_REQUEST OR LOC_API_ADAPTER_BIT_ASSISTANCE_DATA_REQUEST OR
     LOC_API_ADAPTER_BIT_IOCTL_REPORT OR LOC_API_ADAPTER_BIT_STATUS_REPORT OR
     LOC_API_ADAPTER_BIT_NMEA_1HZ_REPORT OR LOC_API_ADAPTER_BIT_NI_NOTIFY_VERIFY_REQUEST"

text \<open>
  The engine always gets the filters below as its position and satellite callbacks.  The adapter is
  used without a test: with callbacks and a non-empty event mask the initialisation leaves one.
\<close>

definition loc_init :: "hal_env \<Rightarrow> eng_cbs option \<Rightarrow> loc_hal \<Rightarrow> int \<times> loc_hal" where
  "loc_init env callbacks h =
     (case callbacks of
        None \<Rightarrow> (- 1, h)
      | Some c \<Rightarrow>
          (case loc_eng_init (Some (no_cbs\<lparr>location_cb := True, status_cb := status_cb c, sv_status_cb := True, nmea_cb := nmea_cb c,
                   set_capabilities_cb := set_capabilities_cb c, request_utc_time_cb := request_utc_time_cb c\<rparr>))
                  init_events (loc_afw_data h) of
             (retVal, _, e) \<Rightarrow>
               (let e1 = on_adapter (\<lambda>a. a\<lparr>mSupportsAgpsRequests := \<not> lbs_agps_extended env,
                       mSupportsPositionInjection := \<not> lbs_cpi_extended env, mSupportsTimeInjection := \<not> lbs_cpi_extended env\<rparr>) e;
                    e2 = on_adapter (\<lambda>a. snd (setGpsLockMsg 0 a)) e1;
                    e3 = post LocSetXtraUserAgent e2;
                    h1 = h\<lparr>gps_loc_cb := location_cb c, gps_sv_cb := sv_status_cb c,
                       hal_ulp := hal_ulp h @ [getCarrierCapabilities (gconf e)]\<rparr>
                in if retVal \<noteq> 0 then (retVal, h1\<lparr>loc_afw_data := e3\<rparr>)
                   else
                     (let target = loc_get_target (hplatform env) (gTarget h)
                      in (retVal, h1\<lparr>gTarget := target, loc_afw_data :=
                            on_adapter (\<lambda>a. setPowerVote (henv env) True (setPowerVoteRight (target = TARGET_QCA1530) a)) e3\<rparr>)))))"

text \<open>\<^verbatim>\<open>loc_cleanup\<close> uses the adapter without a test: \<open>None\<close> is a null dereference.\<close>

definition loc_cleanup :: "hal_env \<Rightarrow> loc_hal \<Rightarrow> loc_hal option" where
  "loc_cleanup env h =
     (let e = loc_afw_data h
      in if \<not> has_adapter e then None
         else
           (let e1 = on_adapter (setPowerVote (henv env) False) e;
                e2 = on_adapter (\<lambda>a. snd (setGpsLockMsg (conf_n (gconf e1 GPS_LOCK)) a)) e1
            in Some (h\<lparr>loc_afw_data := loc_eng_cleanup (henv env) e2, gps_loc_cb := False, gps_sv_cb := False\<rparr>)))"

text \<open>The position modes of the framework; every other number is the standalone mode.\<close>

definition GPS_POSITION_MODE_MS_BASED :: int where "GPS_POSITION_MODE_MS_BASED = 1"
definition GPS_POSITION_MODE_MS_ASSISTED :: int where "GPS_POSITION_MODE_MS_ASSISTED = 2"

definition loc_set_position_mode :: "hal_env \<Rightarrow> int \<Rightarrow> LocPosMode \<Rightarrow> loc_eng \<Rightarrow> int \<times> loc_eng" where
  "loc_set_position_mode env mode params e =
     (let locMode = (if mode = GPS_POSITION_MODE_MS_BASED then LOC_POSITION_MODE_MS_BASED
                     else if mode = GPS_POSITION_MODE_MS_ASSISTED then LOC_POSITION_MODE_MS_ASSISTED
                     else LOC_POSITION_MODE_STANDALONE)
      in loc_eng_set_position_mode (henv env) (params\<lparr>pm_mode := locMode\<rparr>) e)"

text \<open>Every data connection is reported for the SUPL machine.\<close>

definition loc_agps_open :: "string option \<Rightarrow> loc_eng \<Rightarrow> int \<times> loc_eng" where
  "loc_agps_open apn = loc_eng_agps_open AGPS_TYPE_SUPL apn 0"

definition loc_agps_open_with_apniptype :: "string option \<Rightarrow> int \<Rightarrow> loc_eng \<Rightarrow> int \<times> loc_eng" where
  "loc_agps_open_with_apniptype apn apnIpType =
     loc_eng_agps_open AGPS_TYPE_SUPL apn
       (if apnIpType = 1 then 0 else if apnIpType = 2 then 1 else if apnIpType = 3 then 2 else - 1)"

definition loc_agps_closed :: "loc_eng \<Rightarrow> int \<times> loc_eng" where
  "loc_agps_closed = loc_eng_agps_closed AGPS_TYPE_SUPL"

definition loc_agps_open_failed :: "loc_eng \<Rightarrow> int \<times> loc_eng" where
  "loc_agps_open_failed = loc_eng_agps_open_failed AGPS_TYPE_SUPL"

definition AGPS_TYPE_C2K :: int where "AGPS_TYPE_C2K = 2"

definition loc_agps_set_server :: "hal_env \<Rightarrow> int \<Rightarrow> string \<Rightarrow> int \<Rightarrow> loc_eng \<Rightarrow> int \<times> loc_eng" where
  "loc_agps_set_server env type hostname port =
     loc_eng_set_server_proxy (henv env)
       (if type = AGPS_TYPE_SUPL then LOC_AGPS_SUPL_SERVER else if type = AGPS_TYPE_C2K then LOC_AGPS_CDMA_PDE_SERVER
        else LOC_AGPS_SUPL_SERVER) hostname port"

definition loc_xtra_init :: "bool \<Rightarrow> loc_eng \<Rightarrow> int \<times> loc_eng" where
  "loc_xtra_init download_request = loc_eng_xtra_init (Some (download_request, False))"

definition XTRA_DATA_MAX_SIZE :: nat where
  "XTRA_DATA_MAX_SIZE = 100000"

definition loc_xtra_inject_data :: "string option \<Rightarrow> loc_eng \<Rightarrow> (int \<times> loc_eng) option" where
  "loc_xtra_inject_data data e =
     (case data of
        None \<Rightarrow> Some (- 1, e)
      | Some d \<Rightarrow> if length d \<le> XTRA_DATA_MAX_SIZE then loc_eng_xtra_inject_data d e else Some (- 1, e))"

definition loc_agps_revoke_certificates :: "loc_eng \<Rightarrow> cert_result \<times> loc_eng" where
  "loc_agps_revoke_certificates e = (AGPS_CERTIFICATE_ERROR_GENERIC, e)"

definition loc_configuration_update :: "string option \<Rightarrow> int \<Rightarrow> loc_hal \<Rightarrow> loc_hal" where
  "loc_configuration_update config_data len h =
     (let e = loc_eng_configuration_update config_data len (loc_afw_data h)
      in h\<lparr>loc_afw_data := (if sGnssType h \<in> no_assisted then clear_assisted e else e)\<rparr>)"

text \<open>\<^verbatim>\<open>local_loc_cb\<close> and \<^verbatim>\<open>local_sv_cb\<close>: a call of the engine as the framework sees it.\<close>

fun delivered :: "loc_hal \<Rightarrow> eng_call \<Rightarrow> bool" where
  "delivered h (CbLocation None) \<longleftrightarrow> False"
| "delivered h (CbLocation (Some loc)) \<longleftrightarrow> gps_loc_cb h"
| "delivered h (CbSv sv) \<longleftrightarrow> gps_sv_cb h"
| "delivered h c \<longleftrightarrow> True"

section \<open>Runs\<close>

text \<open>The calls that only concern the engine.\<close>

datatype hal_eng_call =
  HalStart
| HalStop
| HalInjectTime int int int
| HalInjectLocation rat rat rat
| HalDeleteAidingData "16 word"
| HalPositionMode int LocPosMode
| HalAgpsInit bool
| HalAgpsOpen "string option"
| HalAgpsOpenType "string option" int
| HalAgpsClosed
| HalAgpsOpenFailed
| HalSetServer int string int
| HalXtraInit bool
| HalXtraInject "string option"
| HalNiInit "bool option"
| HalNiRespond u32 GpsUserResponse
| HalNetwork int "string option"
| HalCertificates "string list"
| HalMeasurementInit "bool option"
| HalMeasurementClose

definition hal_eng :: "hal_env \<Rightarrow> hal_eng_call \<Rightarrow> loc_eng \<Rightarrow> loc_eng option" where
  "hal_eng env c e =
     (case c of
        HalStart \<Rightarrow> Some (snd (loc_eng_start (henv env) e))
      | HalStop \<Rightarrow> Some (snd (loc_eng_stop (henv env) e))
      | HalInjectTime t tf unc \<Rightarrow> Some (snd (loc_eng_inject_time t tf unc e))
      | HalInjectLocation lat lon accur \<Rightarrow> Some (snd (loc_eng_inject_location lat lon accur e))
      | HalDeleteAidingData f \<Rightarrow> Some (loc_eng_delete_aiding_data f e)
      | HalPositionMode mode params \<Rightarrow> Some (snd (loc_set_position_mode env mode params e))
      | HalAgpsInit cb \<Rightarrow> Some (loc_eng_agps_init (henv env) cb e)
      | HalAgpsOpen apn \<Rightarrow> Some (snd (loc_agps_open apn e))
      | HalAgpsOpenType apn ipType \<Rightarrow> Some (snd (loc_agps_open_with_apniptype apn ipType e))
      | HalAgpsClosed \<Rightarrow> Some (snd (loc_agps_closed e))
      | HalAgpsOpenFailed \<Rightarrow> Some (snd (loc_agps_open_failed e))
      | HalSetServer type host port \<Rightarrow> Some (snd (loc_agps_set_server env type host port e))
      | HalXtraInit download \<Rightarrow> Some (snd (loc_xtra_init download e))
      | HalXtraInject data \<Rightarrow> map_option snd (loc_xtra_inject_data data e)
      | HalNiInit cb \<Rightarrow> Some (e\<lparr>ni_data := loc_eng_ni_init cb (ni_data e)\<rparr>)
      | HalNiRespond i r \<Rightarrow> Some (e\<lparr>ni_data := loc_eng_ni_respond i r (ni_data e)\<rparr>)
      | HalNetwork available apn \<Rightarrow> Some (loc_eng_agps_ril_update_network_availability available apn e)
      | HalCertificates cs \<Rightarrow> Some (snd (loc_eng_agps_install_certificates (henv env) cs e))
      | HalMeasurementInit cb \<Rightarrow> Some (snd (loc_eng_gps_measurement_init cb e))
      | HalMeasurementClose \<Rightarrow> Some (loc_eng_gps_measurement_close e))"

datatype hal_event =
  HalInit "eng_cbs option"
| HalCleanup
| HalConfigurationUpdate "string option" int
| HalCall hal_eng_call
| Engine eng_event

text \<open>Before the initialisation there is no thread, no modem and no daemon.\<close>

definition hal_step :: "hal_env \<Rightarrow> hal_event \<Rightarrow> loc_hal \<Rightarrow> loc_hal option" where
  "hal_step env ev h =
     map_option (\<lambda>h'. h'\<lparr>hal_out := hal_out h' @
         filter (delivered h) (drop (length (eng_out (loc_afw_data h))) (eng_out (loc_afw_data h')))\<rparr>)
       (case ev of
          HalInit c \<Rightarrow> Some (snd (loc_init env c h))
        | HalCleanup \<Rightarrow> loc_cleanup env h
        | HalConfigurationUpdate data len \<Rightarrow> Some (loc_configuration_update data len h)
        | HalCall c \<Rightarrow> map_option (\<lambda>e. h\<lparr>loc_afw_data := e\<rparr>) (hal_eng env c (loc_afw_data h))
        | Engine x \<Rightarrow>
            if has_adapter (loc_afw_data h)
            then map_option (\<lambda>e. h\<lparr>loc_afw_data := e\<rparr>) (eng_step (henv env) x (loc_afw_data h)) else Some h)"

fun hal_run :: "hal_env \<Rightarrow> hal_event list \<Rightarrow> loc_hal \<Rightarrow> loc_hal option" where
  "hal_run env [] h = Some h"
| "hal_run env (ev # evs) h = (case hal_step env ev h of None \<Rightarrow> None | Some h1 \<Rightarrow> hal_run env evs h1)"

section \<open>The interface refines the engine\<close>

text \<open>Each call is one of the engine's, or none when its data is refused.\<close>

definition as_api :: "hal_env \<Rightarrow> hal_eng_call \<Rightarrow> api_call list" where
  "as_api env c =
     (case c of
        HalStart \<Rightarrow> [ApiStart]
      | HalStop \<Rightarrow> [ApiStop]
      | HalInjectTime t tf unc \<Rightarrow> [ApiInjectTime t tf unc]
      | HalInjectLocation lat lon accur \<Rightarrow> [ApiInjectLocation lat lon accur]
      | HalDeleteAidingData f \<Rightarrow> [ApiDeleteAidingData f]
      | HalPositionMode mode params \<Rightarrow> [ApiPositionMode (params\<lparr>pm_mode :=
          if mode = 1 then LOC_POSITION_MODE_MS_BASED else if mode = 2 then LOC_POSITION_MODE_MS_ASSISTED
          else LOC_POSITION_MODE_STANDALONE\<rparr>)]
      | HalAgpsInit cb \<Rightarrow> [ApiAgpsInit cb]
      | HalAgpsOpen apn \<Rightarrow> [ApiAgpsOpen AGPS_TYPE_SUPL apn 0]
      | HalAgpsOpenType apn ipType \<Rightarrow> [ApiAgpsOpen AGPS_TYPE_SUPL apn (if 1 \<le> ipType \<and> ipType \<le> 3 then ipType - 1 else - 1)]
      | HalAgpsClosed \<Rightarrow> [ApiAgpsClosed AGPS_TYPE_SUPL]
      | HalAgpsOpenFailed \<Rightarrow> [ApiAgpsOpenFailed AGPS_TYPE_SUPL]
      | HalSetServer type host port \<Rightarrow>
          [ApiSetServer (if type = 2 then LOC_AGPS_CDMA_PDE_SERVER else LOC_AGPS_SUPL_SERVER) host port]
      | HalXtraInit download \<Rightarrow> [ApiXtraInit (Some (download, False))]
      | HalXtraInject data \<Rightarrow> (case data of None \<Rightarrow> [] | Some d \<Rightarrow> if length d \<le> XTRA_DATA_MAX_SIZE then [ApiXtraInjectData d] else [])
      | HalNiInit cb \<Rightarrow> [ApiNiInit cb]
      | HalNiRespond i r \<Rightarrow> [ApiNiRespond i r]
      | HalNetwork available apn \<Rightarrow> [ApiNetworkAvailability available apn]
      | HalCertificates cs \<Rightarrow> [ApiInstallCertificates cs]
      | HalMeasurementInit cb \<Rightarrow> [ApiMeasurementInit cb]
      | HalMeasurementClose \<Rightarrow> [ApiMeasurementClose])"

lemma eng_run_single: "eng_run env [ev] e = eng_step env ev e"
  by (simp split: option.split)

lemma eng_run_append:
  "eng_run env (xs @ ys) e = (case eng_run env xs e of None \<Rightarrow> None | Some e1 \<Rightarrow> eng_run env ys e1)"
  by (induction xs arbitrary: e) (auto split: option.split)

lemma eng_run_extend: "eng_run env xs e = Some e1 \<Longrightarrow> eng_run env ys e1 = Some e2 \<Longrightarrow> eng_run env (xs @ ys) e = Some e2"
  by (simp add: eng_run_append)

lemma hal_eng_api: "hal_eng env c e = eng_run (henv env) (map Api (as_api env c)) e"
  by (cases c)
    (auto simp: hal_eng_def as_api_def api_def eng_step_def loc_set_position_mode_def loc_agps_open_def loc_agps_open_with_apniptype_def
      loc_agps_closed_def loc_agps_open_failed_def loc_agps_set_server_def loc_xtra_init_def loc_xtra_inject_data_def
      GPS_POSITION_MODE_MS_BASED_def GPS_POSITION_MODE_MS_ASSISTED_def AGPS_TYPE_C2K_def AGPS_TYPE_SUPL_def Let_def
      split: option.split)

lemma has_adapter_simps [simp]:
  "has_adapter (on_adapter f e) = has_adapter e" "has_adapter (post m e) = has_adapter e"
  "has_adapter (clear_assisted e) = has_adapter e" "has_adapter (read_config env e) = has_adapter e"
  by (simp_all add: on_adapter_def post_def clear_assisted_def read_config_def)

text \<open>Without an adapter no call makes one.\<close>

lemma hal_eng_no_adapter: "\<not> has_adapter e \<Longrightarrow> hal_eng env c e = Some e' \<Longrightarrow> \<not> has_adapter e'"
  by (cases c)
    (auto simp: hal_eng_def loc_eng_start_def loc_eng_stop_def loc_eng_inject_time_def loc_eng_inject_location_def
      loc_eng_delete_aiding_data_def loc_set_position_mode_def loc_eng_set_position_mode_def loc_eng_agps_init_def
      loc_agps_open_def loc_agps_open_with_apniptype_def loc_eng_agps_open_def loc_agps_closed_def loc_eng_agps_closed_def
      loc_agps_open_failed_def loc_eng_agps_open_failed_def loc_agps_set_server_def loc_eng_set_server_proxy_def
      loc_xtra_init_def loc_eng_xtra_init_def loc_xtra_inject_data_def loc_eng_xtra_inject_data_def
      loc_eng_agps_ril_update_network_availability_def loc_eng_agps_install_certificates_def
      loc_eng_gps_measurement_init_def loc_eng_gps_measurement_close_def Let_def
      split: if_splits option.splits LocServerType.splits)

lemma loc_init_run:
  assumes "loc_init env (Some c) h = (r, h')"
  obtains e0 evs where "eng_run (henv env) evs e0 = Some (loc_afw_data h')"
    and "if has_adapter (loc_afw_data h) then e0 = loc_afw_data h else eng_started e0"
proof -
  let ?c = "no_cbs\<lparr>location_cb := True, status_cb := status_cb c, sv_status_cb := True, nmea_cb := nmea_cb c,
      set_capabilities_cb := set_capabilities_cb c, request_utc_time_cb := request_utc_time_cb c\<rparr>"
  have ev: "init_events \<noteq> 0" by code_simp
  obtain r0 m e0 where init: "loc_eng_init (Some ?c) init_events (loc_afw_data h) = (r0, m, e0)" by (cases rule: prod_cases3)
  then have r0: "r0 = 0" using ev by (auto simp: loc_eng_init_def Let_def split: if_splits)
  let ?evs = "map Api [ApiSupports (\<not> lbs_agps_extended env) (\<not> lbs_cpi_extended env), ApiGpsLock 0, ApiXtraUserAgent,
      ApiPowerVote (loc_get_target (hplatform env) (gTarget h) = TARGET_QCA1530) True]"
  have "eng_run (henv env) ?evs e0 = Some (loc_afw_data h')"
    using assms init r0 by (auto simp: loc_init_def eng_step_def api_def Let_def)
  moreover have "if has_adapter (loc_afw_data h) then e0 = loc_afw_data h else eng_started e0"
  proof (cases "has_adapter (loc_afw_data h)")
    case True
    then show ?thesis using init ev by (simp add: loc_eng_init_def)
  next
    case False
    then have "eng_started e0" using init ev r0 unfolding eng_started_def by blast
    with False show ?thesis by simp
  qed
  ultimately show ?thesis by (rule that)
qed

lemma keep_power_right: "setPowerVoteRight (getPowerVoteRight a) a = a"
proof -
  have "w = (if w AND POWER_VOTE_RIGHT \<noteq> 0 then w OR POWER_VOTE_RIGHT else w AND NOT POWER_VOTE_RIGHT)" for w :: u32
  proof (rule bit_word_eqI)
    fix n
    assume n: "n < LENGTH(32)"
    have right: "bit POWER_VOTE_RIGHT n \<longleftrightarrow> n = 5"
      using bit_exp_iff [where 'a = u32, of 5 n] by (auto simp: POWER_VOTE_RIGHT_def)
    have "w AND POWER_VOTE_RIGHT \<noteq> 0 \<longleftrightarrow> bit w 5"
      using and_exp_eq_0_iff_not_bit [of w 5] by (simp add: POWER_VOTE_RIGHT_def)
    then show "bit w n \<longleftrightarrow> bit (if w AND POWER_VOTE_RIGHT \<noteq> 0 then w OR POWER_VOTE_RIGHT else w AND NOT POWER_VOTE_RIGHT) n"
      using right n by (auto simp: bit_simps)
  qed
  from this [of "mPowerVote a", symmetric] show ?thesis
    by (simp add: setPowerVoteRight_def getPowerVoteRight_def split: if_splits)
qed

lemma loc_cleanup_run:
  assumes "loc_cleanup env h = Some h'"
  shows "has_adapter (loc_afw_data h) \<and> (\<exists>evs. eng_run (henv env) evs (loc_afw_data h) = Some (loc_afw_data h'))"
proof -
  let ?e = "on_adapter (setPowerVote (henv env) False) (loc_afw_data h)"
  let ?e1 = "on_adapter (\<lambda>a. snd (setGpsLockMsg (conf_n (gconf ?e GPS_LOCK)) a)) ?e"
  let ?right = "getPowerVoteRight (adapter (loc_afw_data h))"
  have h': "has_adapter (loc_afw_data h)" "loc_afw_data h' = loc_eng_cleanup (henv env) ?e1"
    using assms by (auto simp: loc_cleanup_def Let_def split: if_splits)
  have "eng_step (henv env) (Api (ApiPowerVote ?right False)) (loc_afw_data h) = Some ?e"
    by (simp add: eng_step_def api_def on_adapter_def keep_power_right)
  moreover have "eng_step (henv env) (Api (ApiGpsLock (conf_n (gconf ?e GPS_LOCK)))) ?e = Some ?e1"
    by (simp add: eng_step_def api_def)
  moreover have "eng_step (henv env) (Api ApiCleanup) ?e1 = Some (loc_afw_data h')"
    by (simp add: eng_step_def api_def h'(2))
  ultimately have "eng_run (henv env) (map Api [ApiPowerVote ?right False, ApiGpsLock (conf_n (gconf ?e GPS_LOCK)), ApiCleanup])
      (loc_afw_data h) = Some (loc_afw_data h')"
    by (simp only: list.map eng_run.simps option.case)
  with h'(1) show ?thesis by blast
qed

lemma clear_assisted_run:
  "eng_run env [Api ApiClearAssisted] e = Some (clear_assisted e)"
  by (simp add: eng_step_def api_def clear_assisted_def)

lemma loc_configuration_update_run:
  "\<exists>evs. eng_run env evs (loc_afw_data h) = Some (loc_afw_data (loc_configuration_update data len h))"
proof -
  have "eng_run env [Api (ApiConfigurationUpdate data len)] (loc_afw_data h) = Some (loc_eng_configuration_update data len (loc_afw_data h))"
    by (simp add: eng_step_def api_def)
  moreover note eng_run_extend [OF this clear_assisted_run]
  moreover have "loc_afw_data (loc_configuration_update data len h) =
      (let e = loc_eng_configuration_update data len (loc_afw_data h) in if sGnssType h \<in> no_assisted then clear_assisted e else e)"
    by (simp add: loc_configuration_update_def Let_def)
  ultimately show ?thesis by (cases "sGnssType h \<in> no_assisted") (auto simp only: Let_def if_True if_False)
qed

lemma loc_configuration_update_adapter [simp]:
  "has_adapter (loc_afw_data (loc_configuration_update data len h)) = has_adapter (loc_afw_data h)"
proof -
  have "has_adapter (post_all ms e) = has_adapter e" for ms e
    by (induction ms arbitrary: e) (simp_all add: post_all_def)
  then show ?thesis by (simp add: loc_configuration_update_def loc_eng_configuration_update_def Let_def split: prod.split)
qed

text \<open>What the engine has been through: nothing before the initialisation, then a run of its own.\<close>

definition hal_simulates :: "hal_env \<Rightarrow> loc_hal \<Rightarrow> bool" where
  "hal_simulates env h \<longleftrightarrow>
     (has_adapter (loc_afw_data h) \<longrightarrow> (\<exists>e0 evs. eng_started e0 \<and> eng_run (henv env) evs e0 = Some (loc_afw_data h)))"

lemma hal_simulates_cong: "loc_afw_data h' = loc_afw_data h \<Longrightarrow> hal_simulates env h \<Longrightarrow> hal_simulates env h'"
  by (simp add: hal_simulates_def)

lemma hal_simulates_extend:
  "hal_simulates env h \<Longrightarrow> has_adapter (loc_afw_data h) \<Longrightarrow> eng_run (henv env) evs (loc_afw_data h) = Some (loc_afw_data h') \<Longrightarrow>
   hal_simulates env h'"
  unfolding hal_simulates_def by (metis eng_run_extend)

lemma hal_simulates_init: "hal_simulates env h \<Longrightarrow> hal_simulates env (snd (loc_init env c h))"
proof (cases c)
  case (Some cb)
  assume sim: "hal_simulates env h"
  obtain r h' where init: "loc_init env (Some cb) h = (r, h')" by fastforce
  obtain e0 evs where run: "eng_run (henv env) evs e0 = Some (loc_afw_data h')"
    and e0: "if has_adapter (loc_afw_data h) then e0 = loc_afw_data h else eng_started e0"
    using loc_init_run [OF init] by metis
  have "hal_simulates env h'"
  proof (cases "has_adapter (loc_afw_data h)")
    case True
    with run e0 show ?thesis by (intro hal_simulates_extend [OF sim]) simp_all
  next
    case False
    with run e0 show ?thesis by (auto simp: hal_simulates_def)
  qed
  with init Some show ?thesis by simp
qed (simp add: loc_init_def)

lemma hal_simulates_step:
  assumes sim: "hal_simulates env h" and step: "hal_step env ev h = Some h'"
  shows "hal_simulates env h'"
proof (cases ev)
  case (HalInit c)
  then show ?thesis using step hal_simulates_init [OF sim, of c] by (auto simp: hal_step_def intro: hal_simulates_cong [rotated])
next
  case HalCleanup
  then obtain h1 where h1: "loc_cleanup env h = Some h1" "loc_afw_data h' = loc_afw_data h1" using step by (auto simp: hal_step_def)
  then show ?thesis using loc_cleanup_run [OF h1(1)] hal_simulates_extend [OF sim] hal_simulates_cong by metis
next
  case (HalConfigurationUpdate data len)
  then have h': "loc_afw_data h' = loc_afw_data (loc_configuration_update data len h)" using step by (auto simp: hal_step_def)
  show ?thesis
  proof (cases "has_adapter (loc_afw_data h)")
    case True
    with h' loc_configuration_update_run hal_simulates_extend [OF sim] show ?thesis by metis
  qed (use h' in \<open>simp add: hal_simulates_def\<close>)
next
  case (HalCall c)
  then have h': "hal_eng env c (loc_afw_data h) = Some (loc_afw_data h')" using step by (auto simp: hal_step_def)
  show ?thesis
  proof (cases "has_adapter (loc_afw_data h)")
    case True
    with h' hal_simulates_extend [OF sim] show ?thesis by (metis hal_eng_api)
  qed (use h' hal_eng_no_adapter in \<open>simp add: hal_simulates_def\<close>)
next
  case (Engine x)
  show ?thesis
  proof (cases "has_adapter (loc_afw_data h)")
    case True
    then have "eng_run (henv env) [x] (loc_afw_data h) = Some (loc_afw_data h')"
      using Engine step by (auto simp: hal_step_def eng_run_single)
    with True hal_simulates_extend [OF sim] show ?thesis by metis
  next
    case False
    then have "loc_afw_data h' = loc_afw_data h" using Engine step by (auto simp: hal_step_def)
    with sim show ?thesis by (metis hal_simulates_cong)
  qed
qed

text \<open>C8: Everything the framework can do through the interface, from a service that has not been initialised, leaves
  the engine in a state that the engine reaches by its own events after an initialisation; with what holds in all
  runs of the engine, the modem is told to start a fix only outside a session, and every queued message is within
  its bounds.\<close>

theorem hal_refines_engine:
  assumes "hal_run env evs h = Some h'" and "\<not> has_adapter (loc_afw_data h)" and "has_adapter (loc_afw_data h')"
  shows "\<exists>e0 evs'. eng_started e0 \<and> eng_run (henv env) evs' e0 = Some (loc_afw_data h') \<and>
    session_calls False (modem_out (adapter (loc_afw_data h'))) = Some (isInSession (adapter (loc_afw_data h'))) \<and>
    list_all (msg_ok (henv env)) (adapter_msgs (adapter (loc_afw_data h')))"
proof -
  have "hal_run env evs h = Some h' \<Longrightarrow> hal_simulates env h \<Longrightarrow> hal_simulates env h'"
    by (induction env evs h rule: hal_run.induct) (auto intro: hal_simulates_step split: option.splits)
  moreover have "hal_simulates env h" using assms(2) by (simp add: hal_simulates_def)
  ultimately obtain e0 evs' where run: "eng_started e0" "eng_run (henv env) evs' e0 = Some (loc_afw_data h')"
    using assms(1,3) by (auto simp: hal_simulates_def)
  have "session_ok (adapter e0)" "eng_msgs_ok (henv env) (adapter e0)"
    by (simp_all add: eng_startedD(1) [OF run(1)] session_ok_def eng_msgs_ok_def LocEngAdapter_new_def)
  then have "session_ok (adapter (loc_afw_data h'))" "eng_msgs_ok (henv env) (adapter (loc_afw_data h'))"
    using sess.run [OF run(2)] queue.run [OF run(2)] by blast+
  with run show ?thesis unfolding session_ok_def eng_msgs_ok_def isInSession_def by blast
qed

definition hal_blank :: loc_hal where
  "hal_blank = \<lparr>loc_afw_data = eng_blank, gps_loc_cb = False, gps_sv_cb = False, sGnssType = gnss_val GNSS_UNKNOWN, gTarget = - 1,
     hal_ulp = [], hal_out = []\<rparr>"

definition apq_platform :: platform where
  "apq_platform = \<lparr>sys_qca1530 = (\<lambda>_. None), ro_baseband = ''apq'', hw_platform = Absent, hw_platform_dep = Absent,
     soc_id = Content ''109'', soc_id_dep = Absent, dev_mdm = Absent\<rparr>"

definition hal_example :: hal_env where
  "hal_example = \<lparr>henv = example_env, hplatform = apq_platform, gps_conf_file = None, sap_conf_file = None,
     lbs_agps_extended = False, lbs_cpi_extended = False, gps_disable = []\<rparr>"

definition hal_events :: "hal_event list" where
  "hal_events = [HalInit (Some all_cbs), HalCall (HalPositionMode 1 LocPosMode_default), HalCall HalStart] @ replicate 5 (Engine Thread)"

lemma hal_events_run:
  "hal_run hal_example hal_events hal_blank \<noteq> None" "\<not> has_adapter (loc_afw_data hal_blank)"
  "has_adapter (loc_afw_data (the (hal_run hal_example hal_events hal_blank)))"
  "isInSession (adapter (loc_afw_data (the (hal_run hal_example hal_events hal_blank))))"
  by code_simp+

lemma hal_refines_engine_witness:
  "session_calls False (modem_out (adapter (loc_afw_data (the (hal_run hal_example hal_events hal_blank))))) = Some True"
proof -
  obtain h where h: "hal_run hal_example hal_events hal_blank = Some h" using hal_events_run(1) by blast
  from hal_refines_engine [OF h hal_events_run(2)] hal_events_run(3,4) h show ?thesis by auto
qed

section \<open>Platforms without assisted modes\<close>

definition caps :: "loc_eng \<Rightarrow> u32" where
  "caps e = conf_n (gconf e CAPABILITIES)"


lemma conf_simps [simp]:
  "conf (on_adapter f e) = conf e" "conf (post m e) = conf e" "conf (to_modem env c e) = conf e"
  "conf (call_back x e) = conf e" "conf (set_mute b e) = conf e" "conf (emit_nmea g e) = conf e"
  "conf (loc_inform_gps_status st e) = conf e" "conf (loc_eng_report_status st e) = conf e"
  "conf (loc_eng_mute_one_session e) = conf e" "conf (update_aiding_data_for_deletion env e) = conf e"
  "conf (end_single_shot env r lst e) = conf e" "conf (agps_dispatch env c' e) = conf e"
  "conf (drop_subscribers w e) = conf e" "conf (snd (loc_eng_set_server env ty host port e)) = conf e"
  by (auto simp: on_adapter_def post_def to_modem_def call_back_def set_mute_def emit_nmea_def loc_inform_gps_status_def
      loc_eng_report_status_def loc_eng_mute_one_session_def update_aiding_data_for_deletion_def end_single_shot_def
      agps_dispatch_def drop_subscribers_def loc_eng_set_server_def Let_def
      split: agps_call.split LocServerType.split option.split)

lemma conf_post_all [simp]: "conf (post_all ms e) = conf e"
  by (induction ms arbitrary: e) (simp_all add: post_all_def)

lemma conf_dispatch_all [simp]: "conf (fold (agps_dispatch env) cs e) = conf e"
  by (induction cs arbitrary: e) simp_all






lemma caps_conf: "conf e' = conf e \<Longrightarrow> caps e' = caps e"
  by (simp add: caps_def)













section \<open>What the framework is told\<close>

lemma hal_step_out:
  assumes "hal_step env ev h = Some h'"
  shows "\<exists>out. hal_out h' = hal_out h @ filter (delivered h) out"
  using assms
  by (cases ev) (auto simp: hal_step_def loc_init_def loc_cleanup_def loc_configuration_update_def Let_def
      intro: exI [of _ "[]"] split: option.splits prod.splits if_splits)

lemma hal_step_filters:
  "hal_step env ev h = Some h' \<Longrightarrow> \<forall>c. ev \<noteq> HalInit c \<Longrightarrow> \<not> gps_loc_cb h \<Longrightarrow> \<not> gps_sv_cb h \<Longrightarrow>
     \<not> gps_loc_cb h' \<and> \<not> gps_sv_cb h'"
  by (cases ev) (auto simp: hal_step_def loc_cleanup_def loc_configuration_update_def Let_def split: if_splits)

text \<open>After a cleanup and until the next initialisation, whatever the modem reports and whatever the engine's thread
  still has queued, no position and no satellite report reaches the framework.\<close>

theorem hal_cleanup_silent:
  assumes "hal_step env HalCleanup h = Some h1" and "hal_run env evs h1 = Some h'" and "\<forall>c. HalInit c \<notin> set evs"
  shows "\<exists>out. hal_out h' = hal_out h1 @ out \<and> (\<forall>loc. CbLocation loc \<notin> set out) \<and> (\<forall>sv. CbSv sv \<notin> set out)"
proof -
  have "\<not> gps_loc_cb h1 \<and> \<not> gps_sv_cb h1"
    using assms(1) by (auto simp: hal_step_def loc_cleanup_def Let_def split: if_splits)
  with assms(2,3) show ?thesis
  proof (induction evs arbitrary: h1)
    case (Cons ev evs)
    then obtain h2 where step: "hal_step env ev h1 = Some h2" and rest: "hal_run env evs h2 = Some h'"
      by (auto split: option.splits)
    have "\<not> gps_loc_cb h2 \<and> \<not> gps_sv_cb h2" using hal_step_filters [OF step] Cons.prems by auto
    then obtain out where out: "hal_out h' = hal_out h2 @ out" "\<forall>loc. CbLocation loc \<notin> set out" "\<forall>sv. CbSv sv \<notin> set out"
      using Cons.IH [OF rest] Cons.prems by auto
    obtain o1 where o1: "hal_out h2 = hal_out h1 @ filter (delivered h1) o1" using hal_step_out [OF step] by blast
    have "\<not> delivered h1 (CbLocation loc)" for loc using Cons.prems by (cases loc) auto
    moreover have "\<not> delivered h1 (CbSv sv)" for sv using Cons.prems by simp
    ultimately show ?case using out o1 by (intro exI [of _ "filter (delivered h1) o1 @ out"]) auto
  qed auto
qed

text \<open>A whole session, its cleanup, and what the thread still does.\<close>

definition hal_tail :: "hal_event list" where
  "hal_tail = replicate 3 (Engine Thread) @ [HalCall HalStart]"

lemma hal_cleanup_silent_witness:
  "let h = the (hal_run hal_example hal_events hal_blank); h1 = the (hal_step hal_example HalCleanup h);
       h' = the (hal_run hal_example hal_tail h1)
   in \<exists>out. hal_out h' = hal_out h1 @ out \<and> (\<forall>loc. CbLocation loc \<notin> set out) \<and> (\<forall>sv. CbSv sv \<notin> set out)"
proof -
  let ?h = "the (hal_run hal_example hal_events hal_blank)"
  have "hal_step hal_example HalCleanup ?h \<noteq> None"
    "hal_run hal_example hal_tail (the (hal_step hal_example HalCleanup ?h)) \<noteq> None"
    by code_simp+
  then have "hal_step hal_example HalCleanup ?h = Some (the (hal_step hal_example HalCleanup ?h))"
    "hal_run hal_example hal_tail (the (hal_step hal_example HalCleanup ?h)) =
       Some (the (hal_run hal_example hal_tail (the (hal_step hal_example HalCleanup ?h))))"
    by simp_all
  from hal_cleanup_silent [OF this] show ?thesis by (simp add: hal_tail_def Let_def)
qed

text \<open>A cleanup before the initialisation has no adapter to use.\<close>

lemma cleanup_before_init_faults: "\<not> has_adapter (loc_afw_data h) \<Longrightarrow> hal_step env HalCleanup h = None"
  by (simp add: hal_step_def loc_cleanup_def Let_def)

text \<open>A second initialisation keeps the first one's status callbacks, but takes the new position callback.\<close>

lemma second_init_keeps_status:
  assumes "loc_init env (Some c) h = (r, h')" and "has_adapter (loc_afw_data h)"
  shows "cbs (loc_afw_data h') = cbs (loc_afw_data h)" and "gps_loc_cb h' = location_cb c"
proof -
  have "init_events \<noteq> 0" by code_simp
  then have "loc_eng_init (Some c') init_events (loc_afw_data h) = (0, init_events, loc_afw_data h)" for c'
    using assms(2) by (simp add: loc_eng_init_def)
  then have "h' = snd (loc_init env (Some c) h)" "snd (loc_eng_init (Some c') init_events (loc_afw_data h)) = (init_events, loc_afw_data h)" for c'
    using assms(1) by simp_all
  then show "cbs (loc_afw_data h') = cbs (loc_afw_data h)" "gps_loc_cb h' = location_cb c"
    using \<open>\<And>c'. loc_eng_init (Some c') init_events (loc_afw_data h) = (0, init_events, loc_afw_data h)\<close>
    by (simp_all add: loc_init_def Let_def on_adapter_def post_def)
qed

text \<open>
  A grant is reported for the SUPL machine, also when it was the internet machine that asked; on a
  platform without assisted modes there is no such machine.
\<close>

lemma hal_open_goes_to_supl:
  assumes "has_adapter e" and "agps_status_cb (cbs e)"
  shows "snd (loc_agps_open (Some apn) e) =
    post (Agps (LocEngAtlOpenSuccess (getAgpsStateMachine AGPS_TYPE_SUPL e) (take MAX_APN_LEN apn) 0)) e"
  using assms by (simp add: loc_agps_open_def loc_eng_agps_open_def)

end
