(* ===== verification/Dtb_Tool.thy ===== *)
theory Dtb_Tool
  imports Loc_Cfg Bytes "HOL-Library.Product_Lexorder"
begin

text \<open>
  \<^verbatim>\<open>dtbtool.c\<close>: the tool of the build that collects the compiled device trees of a directory in one
  image, with a table that the boot loader searches.  Chips are nodes of a store, linked by pointers;
  the decompiler, the directory and the files are parameters, and so is what each \<^verbatim>\<open>write\<close> returns.
  Allocation always succeeds, and files are below 2 GB, so that the counters of type \<^verbatim>\<open>int\<close> are numbers.
\<close>

section \<open>Data\<close>

record chipInfo_t =
  chipset :: u32
  c_platform :: u32
  subtype :: u32
  revNum :: u32
  dtb_size :: u32
  dtb_file :: "string option"
  c_prev :: "nat option"
  c_next :: "nat option"
  master :: nat
  wroteDtb :: bool
  master_offset :: u32

record dtb_store =
  chips :: "nat \<Rightarrow> chipInfo_t"
  fresh :: nat
  chip_list :: "nat option"

definition upd :: "nat \<Rightarrow> (chipInfo_t \<Rightarrow> chipInfo_t) \<Rightarrow> dtb_store \<Rightarrow> dtb_store" where
  "upd p f s = s\<lparr>chips := (chips s)(p := f (chips s p))\<rparr>"

text \<open>Evaluation makes the node before it updates the store.\<close>

definition strict :: "chipInfo_t \<Rightarrow> (chipInfo_t \<Rightarrow> 'a) \<Rightarrow> 'a" where
  [code del]: "strict n g = g n"

lemma strict_code [code]: "strict (chipInfo_t_ext a b c d e f h i j k l u) g = g (chipInfo_t_ext a b c d e f h i j k l u)"
  by (simp add: strict_def)

lemma upd_code [code]: "upd p f s = strict (f (chips s p)) (\<lambda>n. s\<lparr>chips := (chips s)(p := n)\<rparr>)"
  by (simp add: strict_def upd_def)

text \<open>What the tool finds outside: \<open>popen\<close> gives the lines that a command prints.\<close>

record dtb_env =
  dirents :: "(string \<times> bool) list"
  popen :: "string \<Rightarrow> string list option"
  st_size :: "string \<Rightarrow> nat option"
  file_content :: "string \<Rightarrow> u8 list option"
  write_result :: "nat \<Rightarrow> nat \<Rightarrow> int"
  old_output :: "u8 list"

section \<open>Command line\<close>

datatype getopt = OptArg string | OptOutput string | OptDtcPath string | OptPageSize string | OptVerbose | OptHelp

record dtb_opts =
  input_dir :: "string option"
  output_file :: "string option"
  dtc_path :: "string option"
  page_size :: int

definition PAGE_SIZE_DEF :: int where "PAGE_SIZE_DEF = 2048"
definition PAGE_SIZE_MAX :: int where "PAGE_SIZE_MAX = 1024 * 1024"

definition parse_option :: "getopt \<Rightarrow> dtb_opts \<Rightarrow> dtb_opts option" where
  "parse_option g d =
     (case g of
        OptArg a \<Rightarrow> Some (if input_dir d = None then d\<lparr>input_dir := Some a\<rparr> else d)
      | OptOutput a \<Rightarrow> Some (d\<lparr>output_file := Some a\<rparr>)
      | OptDtcPath a \<Rightarrow> Some (d\<lparr>dtc_path := Some a\<rparr>)
      | OptPageSize a \<Rightarrow> (let n = atoi a in if n \<le> 0 \<or> PAGE_SIZE_MAX < n then None else Some (d\<lparr>page_size := n\<rparr>))
      | OptVerbose \<Rightarrow> Some d
      | OptHelp \<Rightarrow> None)"

fun parse_options :: "getopt list \<Rightarrow> dtb_opts \<Rightarrow> dtb_opts option" where
  "parse_options [] d = Some d"
| "parse_options (g # gs) d = (case parse_option g d of None \<Rightarrow> None | Some d1 \<Rightarrow> parse_options gs d1)"

definition parse_commandline :: "getopt list \<Rightarrow> dtb_opts option" where
  "parse_commandline gs =
     (case parse_options gs \<lparr>input_dir = None, output_file = None, dtc_path = None, page_size = PAGE_SIZE_DEF\<rparr> of
        None \<Rightarrow> None
      | Some d \<Rightarrow>
          if output_file d = None then None
          else Some (d\<lparr>input_dir := Some (case input_dir d of None \<Rightarrow> ''./'' | Some i \<Rightarrow> i),
                       dtc_path := Some (case dtc_path d of None \<Rightarrow> [] | Some p \<Rightarrow> p)\<rparr>))"

section \<open>The sorted list of chips\<close>

definition RC_SUCCESS :: int where "RC_SUCCESS = 0"
definition RC_ERROR :: int where "RC_ERROR = - 1"

definition chip_before :: "chipInfo_t \<Rightarrow> chipInfo_t \<Rightarrow> bool" where
  "chip_before c x \<longleftrightarrow>
     chipset c < chipset x \<or>
     (chipset c = chipset x \<and>
      (c_platform c < c_platform x \<or>
       (c_platform c = c_platform x \<and>
        (subtype c < subtype x \<or> (subtype c = subtype x \<and> revNum c < revNum x)))))"

definition chip_same :: "chipInfo_t \<Rightarrow> chipInfo_t \<Rightarrow> bool" where
  "chip_same c x \<longleftrightarrow> chipset c = chipset x \<and> c_platform c = c_platform x \<and> subtype c = subtype x \<and> revNum c = revNum x"

text \<open>\<open>None\<close>: the loop does not end.\<close>

partial_function (option) chip_add_loop :: "nat \<Rightarrow> nat \<Rightarrow> dtb_store \<Rightarrow> (int \<times> dtb_store) option" where
  "chip_add_loop c x s =
     (if chip_before (chips s c) (chips s x) then
        (case c_prev (chips s x) of
           None \<Rightarrow>
             Some (RC_SUCCESS, (upd x (c_prev_update (\<lambda>_. Some c))
               (upd c (\<lambda>n. n\<lparr>c_next := Some x, c_prev := None\<rparr>) s))\<lparr>chip_list := Some c\<rparr>)
         | Some p \<Rightarrow>
             Some (RC_SUCCESS, upd x (c_prev_update (\<lambda>_. Some c)) (upd p (c_next_update (\<lambda>_. Some c))
               (upd c (\<lambda>n. n\<lparr>c_next := Some x, c_prev := Some p\<rparr>) s))))
      else if chip_same (chips s c) (chips s x) then Some (RC_ERROR, s)
      else
        (case c_next (chips s x) of
           None \<Rightarrow>
             Some (RC_SUCCESS, upd x (c_next_update (\<lambda>_. Some c)) (upd c (\<lambda>n. n\<lparr>c_prev := Some x, c_next := None\<rparr>) s))
         | Some y \<Rightarrow> chip_add_loop c y s))"

declare chip_add_loop.simps [code]

definition chip_add :: "nat \<Rightarrow> dtb_store \<Rightarrow> (int \<times> dtb_store) option" where
  "chip_add c s =
     (case chip_list s of
        None \<Rightarrow> Some (RC_SUCCESS, (upd c (\<lambda>n. n\<lparr>c_next := None, c_prev := None\<rparr>) s)\<lparr>chip_list := Some c\<rparr>)
      | Some x \<Rightarrow> chip_add_loop c x s)"

section \<open>Reading the identifiers\<close>

fun strstr :: "string \<Rightarrow> string \<Rightarrow> string option" where
  "strstr [] pat = (if pat = [] then Some [] else None)"
| "strstr (c # cs) pat = (if take (length pat) (c # cs) = pat then Some (c # cs) else strstr cs pat)"

definition QCDT_DT_TAG :: string where "QCDT_DT_TAG = ''qcom,msm-id = <''"
definition QCDT_BOARD_TAG :: string where "QCDT_BOARD_TAG = ''qcom,board-id = <''"

definition after_tag :: "string \<Rightarrow> string \<Rightarrow> string option" where
  "after_tag tag line = map_option (drop (length tag)) (strstr line tag)"

abbreviation blank :: "char \<Rightarrow> bool" where
  "blank c \<equiv> c = CHR '' '' \<or> c = CHR 0x09"

function tokens :: "string \<Rightarrow> string list" where
  "tokens str =
     (let t = dropWhile blank str
      in if t = [] then [] else takeWhile (\<lambda>c. \<not> blank c) t # tokens (dropWhile (\<lambda>c. \<not> blank c) t))"
  by pat_completeness auto
termination
proof (relation "measure length", goal_cases)
  case (2 str t)
  obtain a t' where t: "t = a # t'" using 2(2) by (meson neq_Nil_conv)
  moreover have "\<not> blank a" using hd_dropWhile [of "\<lambda>c. blank c" str] 2 t by (metis list.sel(1))
  ultimately have "length (dropWhile (\<lambda>c. \<not> blank c) t) < length t"
    by (simp add: length_dropWhile_le le_imp_less_Suc)
  also have "\<dots> \<le> length str" unfolding 2(1) by (rule length_dropWhile_le)
  finally show ?case by simp
qed simp

declare tokens.simps [simp del]

text \<open>\<^verbatim>\<open>strtoul\<close> with base zero, in 64 bits and cut to the 32 of the fields.\<close>

definition strtoul :: "string \<Rightarrow> u32" where
  "strtoul str =
     (case sign (dropWhile isspace str) of
        (sg, t) \<Rightarrow>
          (let v = (if take 2 t = ''0x'' \<or> take 2 t = ''0X'' then digits 16 0 (drop 2 t)
                    else if take 1 t = ''0'' then digits 8 0 t else digits 10 0 t)
           in if 2 ^ 64 \<le> v then - 1 else word_of_int (sg * v)))"

text \<open>An entry of \<open>n\<close> numbers; a missing one or one that begins with the bracket ends the list.\<close>

fun read_entry :: "nat \<Rightarrow> string list \<Rightarrow> u32 list option \<times> string list" where
  "read_entry 0 toks = (Some [], toks)"
| "read_entry (Suc n) [] = (None, [])"
| "read_entry (Suc n) (t # ts) =
     (if take 1 t = ''>'' then (None, ts)
      else (case read_entry n ts of
              (None, r) \<Rightarrow> (None, r)
            | (Some vs, r) \<Rightarrow> (Some (strtoul t # vs), r)))"

lemma read_entry_length: "read_entry n toks = (Some vs, r) \<Longrightarrow> length toks = n + length r"
  by (induction n toks arbitrary: vs r rule: read_entry.induct) (auto split: if_splits prod.splits option.splits)

function read_entries :: "nat \<Rightarrow> string list \<Rightarrow> u32 list list" where
  "read_entries n toks =
     (if n = 0 then [] else
      (case read_entry n toks of
         (None, r) \<Rightarrow> []
       | (Some vs, r) \<Rightarrow> vs # read_entries n r))"
  by pat_completeness auto
termination by (relation "measure (\<lambda>(n, toks). length toks)") (auto dest: read_entry_length [OF sym])

declare read_entries.simps [simp del]

text \<open>Each new node goes behind the first.\<close>

fun link_chip :: "'a \<Rightarrow> 'a list \<Rightarrow> 'a list" where
  "link_chip x [] = [x]"
| "link_chip x (c # cs) = c # x # cs"

text \<open>A chip before it is a node: chipset, platform, subtype and revision.\<close>

type_synonym chip_key = "u32 \<times> u32 \<times> u32 \<times> u32"

fun v1_chip :: "u32 list \<Rightarrow> chip_key" where
  "v1_chip [c, p, r] = (c, p, 0, r)"
| "v1_chip _ = (0, 0, 0, 0)"

fun getChipInfo_v1 :: "string list \<Rightarrow> chip_key list" where
  "getChipInfo_v1 [] = []"
| "getChipInfo_v1 (line # lines) =
     (case after_tag QCDT_DT_TAG line of
        Some pos \<Rightarrow> fold (link_chip \<circ> v1_chip) (read_entries 3 (tokens pos)) []
      | None \<Rightarrow> getChipInfo_v1 lines)"

text \<open>\<^verbatim>\<open>strtok_r\<close> ends the line in place behind its first token, before the second tag is looked for.\<close>

definition cut_line :: "string \<Rightarrow> string \<Rightarrow> string" where
  "cut_line line pos =
     (case tokens pos of
        [] \<Rightarrow> line
      | t # _ \<Rightarrow> take (length line - length pos + length (takeWhile blank pos) + length t) line)"

fun pair_of :: "u32 list \<Rightarrow> u32 \<times> u32" where
  "pair_of [a, b] = (a, b)"
| "pair_of _ = (0, 0)"

definition read_pairs :: "string \<Rightarrow> (u32 \<times> u32) list \<Rightarrow> (u32 \<times> u32) list" where
  "read_pairs pos acc = fold (link_chip \<circ> pair_of) (read_entries 2 (tokens pos)) acc"

fun v2_lines :: "string list \<Rightarrow> (u32 \<times> u32) list \<Rightarrow> (u32 \<times> u32) list \<Rightarrow> (u32 \<times> u32) list \<times> (u32 \<times> u32) list" where
  "v2_lines [] ids sts = (ids, sts)"
| "v2_lines (line # lines) ids sts =
     (let (ids1, line1) = (case after_tag QCDT_DT_TAG line of
            None \<Rightarrow> (ids, line)
          | Some pos \<Rightarrow> (read_pairs pos ids, cut_line line pos));
          sts1 = (case after_tag QCDT_BOARD_TAG line1 of None \<Rightarrow> sts | Some pos \<Rightarrow> read_pairs pos sts)
      in v2_lines lines ids1 sts1)"

definition getChipInfo_v2 :: "string list \<Rightarrow> chip_key list" where
  "getChipInfo_v2 lines =
     (case v2_lines lines [] [] of
        (ids, sts) \<Rightarrow>
          if ids = [] \<or> sts = [] then []
          else fold link_chip (concat (map (\<lambda>(c, r). map (\<lambda>(p, t). (c, p, t, r)) sts) ids)) [])"

definition dtc_command :: "dtb_opts \<Rightarrow> string \<Rightarrow> string" where
  "dtc_command d filename =
     (case dtc_path d of None \<Rightarrow> [] | Some p \<Rightarrow> p) @ ''dtc -I dtb -O dts '' @ [CHR 0x22] @ filename @ [CHR 0x22] @ '' 2>&1''"

definition decompiled :: "dtb_env \<Rightarrow> dtb_opts \<Rightarrow> string \<Rightarrow> string list" where
  "decompiled env d filename = (case popen env (dtc_command d filename) of None \<Rightarrow> [] | Some lines \<Rightarrow> lines)"

definition GetVersionInfo :: "dtb_env \<Rightarrow> dtb_opts \<Rightarrow> string \<Rightarrow> nat" where
  "GetVersionInfo env d filename =
     (if \<exists>line \<in> set (decompiled env d filename). strstr line QCDT_BOARD_TAG \<noteq> None then 2 else 1)"

definition getChipInfo :: "dtb_env \<Rightarrow> dtb_opts \<Rightarrow> string \<Rightarrow> nat \<Rightarrow> chip_key list" where
  "getChipInfo env d filename msmversion =
     (if msmversion = 1 then getChipInfo_v1 (decompiled env d filename) else getChipInfo_v2 (decompiled env d filename))"

text \<open>The nodes of a file: the first is the master of all.\<close>

definition new_chip :: "nat \<Rightarrow> chip_key \<Rightarrow> chipInfo_t" where
  "new_chip m k =
     (case k of (c, p, t, r) \<Rightarrow>
        \<lparr>chipset = c, c_platform = p, subtype = t, revNum = r, dtb_size = 0, dtb_file = None, c_prev = None, c_next = None,
         master = m, wroteDtb = False, master_offset = 0\<rparr>)"

fun alloc_chips :: "nat \<Rightarrow> chip_key list \<Rightarrow> dtb_store \<Rightarrow> dtb_store" where
  "alloc_chips m [] s = s"
| "alloc_chips m (k # ks) s = alloc_chips m ks (s\<lparr>chips := (chips s)(fresh s := new_chip m k), fresh := Suc (fresh s)\<rparr>)"

section \<open>Scanning the directory\<close>

fun add_chips :: "nat list \<Rightarrow> dtb_store \<times> nat \<Rightarrow> (dtb_store \<times> nat) option" where
  "add_chips [] st = Some st"
| "add_chips (t # ts) (s, dtb_count) =
     (case chip_add t s of
        None \<Rightarrow> None
      | Some (rc, s1) \<Rightarrow> add_chips ts (s1, if rc \<noteq> RC_SUCCESS then dtb_count else dtb_count + 1))"

definition padded_size :: "int \<Rightarrow> nat \<Rightarrow> nat" where
  "padded_size psz n = n + (nat psz - n mod nat psz)"

definition scan_file :: "dtb_env \<Rightarrow> dtb_opts \<Rightarrow> string \<times> bool \<Rightarrow> dtb_store \<times> nat \<Rightarrow> (dtb_store \<times> nat) option" where
  "scan_file env d dp st =
     (case (dp, st) of ((name, regular), (s, dtb_count)) \<Rightarrow>
        if \<not> (regular \<and> 4 < length name \<and> drop (length name - 4) name = ''.dtb'') then Some st
        else
          (let filename = the (input_dir d) @ name;
               ks = getChipInfo env d filename (GetVersionInfo env d filename);
               chip = fresh s;
               s1 = alloc_chips chip ks s
           in if ks = [] then Some (s1, dtb_count)
              else
                (case st_size env filename of
                   None \<Rightarrow> Some (s1, dtb_count)
                 | Some n \<Rightarrow>
                     if n = 0 then Some (s1, dtb_count)
                     else
                       (case chip_add chip s1 of
                          None \<Rightarrow> None
                        | Some (rc, s2) \<Rightarrow>
                            if rc \<noteq> RC_SUCCESS then Some (s2, dtb_count)
                            else
                              add_chips [Suc chip ..< fresh s1]
                                (upd chip (\<lambda>x. x\<lparr>dtb_size := of_nat (padded_size (page_size d) n), dtb_file := Some filename\<rparr>) s2,
                                 dtb_count + 1)))))"

fun scan_dir :: "dtb_env \<Rightarrow> dtb_opts \<Rightarrow> (string \<times> bool) list \<Rightarrow> dtb_store \<times> nat \<Rightarrow> (dtb_store \<times> nat) option" where
  "scan_dir env d [] st = Some st"
| "scan_dir env d (dp # dps) st = (case scan_file env d dp st of None \<Rightarrow> None | Some st1 \<Rightarrow> scan_dir env d dps st1)"

section \<open>The image\<close>

text \<open>\<open>written\<close> is what has reached the file, \<open>wrote\<close> the sum of what the calls returned.\<close>

record out_file =
  written :: "u8 list"
  wrote :: "64 word"
  write_calls :: nat

definition do_write :: "dtb_env \<Rightarrow> u8 list \<Rightarrow> out_file \<Rightarrow> out_file" where
  "do_write env data f =
     (let n = write_result env (write_calls f) (length data)
      in f\<lparr>written := written f @ take (nat n) data, wrote := wrote f + word_of_int n, write_calls := Suc (write_calls f)\<rparr>)"

abbreviation do_writes :: "dtb_env \<Rightarrow> u8 list list \<Rightarrow> out_file \<Rightarrow> out_file" where
  "do_writes env datas f \<equiv> fold (do_write env) datas f"

text \<open>The nodes that a loop over the list visits.\<close>

partial_function (option) chip_chain :: "(nat \<Rightarrow> chipInfo_t) \<Rightarrow> nat option \<Rightarrow> nat list option" where
  "chip_chain h p = (case p of None \<Rightarrow> Some [] | Some x \<Rightarrow> Option.bind (chip_chain h (c_next (h x))) (\<lambda>xs. Some (x # xs)))"

declare chip_chain.simps [code]

definition write_entry :: "dtb_env \<Rightarrow> nat \<Rightarrow> dtb_store \<times> out_file \<times> 64 word \<Rightarrow> dtb_store \<times> out_file \<times> 64 word" where
  "write_entry env x st =
     (case st of (s, f, expected) \<Rightarrow>
        (let c = chips s x; m = master c;
             f1 = do_writes env [le32 (chipset c), le32 (c_platform c), le32 (subtype c), le32 (revNum c)] f;
             (s2, f2, expected2) =
               (if master_offset (chips s m) \<noteq> 0 then (s, do_write env (le32 (master_offset (chips s m))) f1, expected)
                else (upd m (master_offset_update (\<lambda>_. ucast expected)) s, do_write env (le32 (ucast expected)) f1,
                      expected + ucast (dtb_size (chips s m))))
         in (s2, do_write env (le32 (dtb_size (chips s m))) f2, expected2)))"

definition COPY_BLK :: nat where "COPY_BLK = 1024"

function blocks :: "'a list \<Rightarrow> 'a list list" where
  "blocks xs = (if xs = [] then [] else take COPY_BLK xs # blocks (drop COPY_BLK xs))"
  by pat_completeness auto
termination by (relation "measure length") (auto simp: COPY_BLK_def)

declare blocks.simps [simp del]

fun write_dtbs :: "dtb_env \<Rightarrow> int \<Rightarrow> nat list \<Rightarrow> dtb_store \<Rightarrow> out_file \<Rightarrow> int \<times> out_file" where
  "write_dtbs env psz [] s f = (RC_SUCCESS, f)"
| "write_dtbs env psz (x # xs) s f =
     (let m = master (chips s x)
      in if wroteDtb (chips s m) then write_dtbs env psz xs s f
         else
           (let s1 = upd m (wroteDtb_update (\<lambda>_. True)) s
            in case Option.bind (dtb_file (chips s m)) (file_content env) of
                 None \<Rightarrow> (RC_ERROR, f)
               | Some content \<Rightarrow>
                   (let f1 = do_writes env (blocks content) f;
                        padding = nat psz - length content mod nat psz
                    in if of_nat (length content + padding) \<noteq> dtb_size (chips s m) then (RC_ERROR, f1)
                       else write_dtbs env psz xs s1 (do_write env (replicate padding 0) f1))))"

definition QCDT_MAGIC :: "u8 list" where "QCDT_MAGIC = [0x51, 0x43, 0x44, 0x54]"
definition QCDT_VERSION :: u32 where "QCDT_VERSION = 2"

definition header_size :: "int \<Rightarrow> nat \<Rightarrow> nat" where
  "header_size psz dtb_count = padded_size psz (12 + 24 * dtb_count + 4)"

text \<open>The output file is opened without truncation, so what an older file has beyond the end stays.\<close>

definition generate :: "dtb_env \<Rightarrow> dtb_opts \<Rightarrow> dtb_store \<Rightarrow> nat \<Rightarrow> (int \<times> u8 list option) option" where
  "generate env d s dtb_count =
     (case chip_chain (chips s) (chip_list s) of
        None \<Rightarrow> None
      | Some xs \<Rightarrow>
          (let f0 = do_writes env [QCDT_MAGIC, le32 QCDT_VERSION, le32 (of_nat dtb_count)]
                 \<lparr>written = [], wrote = 0, write_calls = 0\<rparr>;
               dtb_offset = 12 + 24 * dtb_count + 4;
               padding = nat (page_size d) - dtb_offset mod nat (page_size d);
               (s1, f1, expected) = fold (write_entry env) xs (s, f0, of_nat (dtb_offset + padding));
               f2 = do_writes env [le32 0, replicate padding 0] f1;
               (rc, f3) = write_dtbs env (page_size d) xs s1 f2;
               rc1 = (if expected \<noteq> wrote f3 then RC_ERROR else rc)
           in Some (rc1, if rc1 \<noteq> RC_SUCCESS then None else Some (written f3 @ drop (length (written f3)) (old_output env)))))"

text \<open>\<open>None\<close>: the tool does not end.  Otherwise the exit code, and the image if there is one.\<close>

definition dtb_main :: "dtb_env \<Rightarrow> getopt list \<Rightarrow> (int \<times> u8 list option) option" where
  "dtb_main env argv =
     (case parse_commandline argv of
        None \<Rightarrow> Some (RC_ERROR, None)
      | Some d \<Rightarrow>
          (case scan_dir env d (dirents env) (\<lparr>chips = (\<lambda>_. new_chip 0 (0, 0, 0, 0)), fresh = 0, chip_list = None\<rparr>, 0) of
             None \<Rightarrow> None
           | Some (s, dtb_count) \<Rightarrow> if dtb_count = 0 then Some (RC_SUCCESS, None) else generate env d s dtb_count))"

end
