(* ===== verification/Dtb_Image.thy ===== *)
theory Dtb_Image
  imports Dtb_Tool
begin

text \<open>
  What the tool of \<open>Dtb_Tool\<close> achieves: the pointer-level insertion implements a unique insertion
  into a sorted list, and the image that a successful run leaves can be searched for every chip.
\<close>

section \<open>The list of chips\<close>

definition key :: "chipInfo_t \<Rightarrow> chip_key" where
  "key c = (chipset c, c_platform c, subtype c, revNum c)"

lemma chip_before_key: "chip_before c x \<longleftrightarrow> key c < key x"
  by (auto simp: chip_before_def key_def)

lemma chip_same_key: "chip_same c x \<longleftrightarrow> key c = key x"
  by (simp add: chip_same_def key_def)

fun first_of :: "nat list \<Rightarrow> nat option \<Rightarrow> nat option" where
  "first_of [] nx = nx"
| "first_of (x # xs) nx = Some x"

text \<open>The nodes of a segment, the one before it and the one behind it.\<close>

fun dseg :: "(nat \<Rightarrow> chipInfo_t) \<Rightarrow> nat option \<Rightarrow> nat list \<Rightarrow> nat option \<Rightarrow> bool" where
  "dseg h pv [] nx \<longleftrightarrow> True"
| "dseg h pv (x # xs) nx \<longleftrightarrow>
     c_prev (h x) = pv \<and> c_next (h x) = first_of xs nx \<and> dseg h (Some x) xs nx"

abbreviation last_of :: "nat list \<Rightarrow> nat option \<Rightarrow> nat option" where
  "last_of xs pv \<equiv> (if xs = [] then pv else Some (last xs))"

lemma first_of_append [simp]: "first_of (xs @ ys) nx = first_of xs (first_of ys nx)"
  by (cases xs) simp_all

lemma links_commute: "n\<lparr>c_prev := a, c_next := b\<rparr> = n\<lparr>c_next := b, c_prev := a\<rparr>"
  by (cases n) simp

lemma dseg_append: "dseg h pv (xs @ ys) nx \<longleftrightarrow> dseg h pv xs (first_of ys nx) \<and> dseg h (last_of xs pv) ys nx"
  by (induction xs arbitrary: pv) (auto)

lemma dseg_cong: "(\<And>x. x \<in> set xs \<Longrightarrow> c_prev (h x) = c_prev (g x) \<and> c_next (h x) = c_next (g x)) \<Longrightarrow> dseg h pv xs nx = dseg g pv xs nx"
  by (induction xs arbitrary: pv) auto

lemma dseg_other [simp]: "c \<notin> set xs \<Longrightarrow> dseg (h(c := n)) pv xs nx = dseg h pv xs nx"
  by (rule dseg_cong) auto

definition chips_list :: "dtb_store \<Rightarrow> nat list \<Rightarrow> bool" where
  "chips_list s xs \<longleftrightarrow> chip_list s = first_of xs None \<and> dseg (chips s) None xs None \<and> distinct xs"

definition keys :: "dtb_store \<Rightarrow> nat list \<Rightarrow> chip_key list" where
  "keys s xs = map (\<lambda>x. key (chips s x)) xs"

text \<open>Everything of a node but its links.\<close>

definition info :: "dtb_store \<Rightarrow> nat \<Rightarrow> chipInfo_t" where
  "info s x = (chips s x)\<lparr>c_prev := None, c_next := None\<rparr>"

text \<open>The insertion on lists.\<close>

fun ins_chip :: "(nat \<Rightarrow> chip_key) \<Rightarrow> nat \<Rightarrow> nat list \<Rightarrow> nat list" where
  "ins_chip k c [] = [c]"
| "ins_chip k c (x # xs) = (if k c < k x then c # x # xs else x # ins_chip k c xs)"

lemma set_ins_chip [simp]: "set (ins_chip k c xs) = insert c (set xs)"
  by (induction xs) auto

lemma length_ins_chip [simp]: "length (ins_chip k c xs) = Suc (length xs)"
  by (induction xs) auto

lemma sorted_ins_chip:
  "sorted_wrt (\<lambda>x y. k x < k y) xs \<Longrightarrow> k c \<notin> k ` set xs \<Longrightarrow> sorted_wrt (\<lambda>x y. k x < k y) (ins_chip k c xs)"
proof (induction xs)
  case (Cons x xs)
  then have "k x < k c \<or> k c < k x" by auto
  with Cons show ?case by auto
qed simp

lemma upd_simps [simp]: "chips (upd p f s) = (chips s)(p := f (chips s p))" "chip_list (upd p f s) = chip_list s" "fresh (upd p f s) = fresh s"
  by (simp_all add: upd_def)

lemma ins_chip_after: "(\<forall>y \<in> set ys. \<not> k c < k y) \<Longrightarrow> ins_chip k c (ys @ xs) = ys @ ins_chip k c xs"
  by (induction ys) auto

text \<open>A node put between two parts of the list.\<close>

definition link_in :: "nat list \<Rightarrow> nat \<Rightarrow> nat list \<Rightarrow> dtb_store \<Rightarrow> dtb_store" where
  "link_in ys c zs s =
     (let s1 = upd c (\<lambda>n. n\<lparr>c_next := first_of zs None, c_prev := last_of ys None\<rparr>) s;
          s2 = (if ys = [] then s1 else upd (last ys) (c_next_update (\<lambda>_. Some c)) s1);
          s3 = (case zs of [] \<Rightarrow> s2 | x # _ \<Rightarrow> upd x (c_prev_update (\<lambda>_. Some c)) s2)
      in if ys = [] then s3\<lparr>chip_list := Some c\<rparr> else s3)"

lemma link_in_list:
  assumes "chips_list s (ys @ zs)" and "c \<notin> set (ys @ zs)"
  shows "chips_list (link_in ys c zs s) (ys @ c # zs)"
proof (cases ys rule: rev_cases)
  case Nil
  with assms show ?thesis by (cases zs) (auto simp: chips_list_def link_in_def)
next
  case (snoc as p)
  with assms show ?thesis by (cases zs; cases as) (auto simp: chips_list_def link_in_def dseg_append)
qed

lemma info_upd:
  assumes "\<And>n. (f n)\<lparr>c_prev := None, c_next := None\<rparr> = n\<lparr>c_prev := None, c_next := None\<rparr>"
  shows "info (upd p f s) = info s"
  using assms [of "chips s p"] by (auto simp: info_def fun_eq_iff)

lemma info_head [simp]: "info (s\<lparr>chip_list := l\<rparr>) = info s"
  by (simp add: info_def fun_eq_iff)

lemma link_in_info: "info (link_in ys c zs s) = info s" "fresh (link_in ys c zs s) = fresh s"
  by (cases "ys = []"; cases zs; simp add: link_in_def info_upd)+

lemma key_info: "key (chips s x) = key (info s x)"
  by (simp add: key_def info_def)

lemma link_in_key: "key (chips (link_in ys c zs s) x) = key (chips s x)"
  by (simp add: key_info link_in_info)

text \<open>The loop at a node, with the part of the list that it has passed.\<close>

lemma chip_add_loop_correct:
  assumes "chips_list s (ys @ x # xs)" and "c \<notin> set (ys @ x # xs)"
    and "sorted_wrt (\<lambda>x y. key (chips s x) < key (chips s y)) (ys @ x # xs)"
    and "\<forall>y \<in> set ys. key (chips s y) < key (chips s c)"
  shows "if key (chips s c) \<in> (\<lambda>y. key (chips s y)) ` set (ys @ x # xs) then chip_add_loop c x s = Some (RC_ERROR, s)
    else \<exists>as bs. ys @ x # xs = as @ bs \<and> ins_chip (\<lambda>y. key (chips s y)) c (ys @ x # xs) = as @ c # bs \<and>
      chip_add_loop c x s = Some (RC_SUCCESS, link_in as c bs s)"
  using assms
proof (induction xs arbitrary: ys x)
  case Nil
  let ?k = "\<lambda>y. key (chips s y)"
  have pass: "ins_chip ?k c (ys @ zs) = ys @ ins_chip ?k c zs" for zs using Nil.prems(4) by (intro ins_chip_after) auto
  have seg: "c_prev (chips s x) = last_of ys None" "c_next (chips s x) = None"
    using Nil.prems(1) by (auto simp: chips_list_def dseg_append)
  consider "?k c < ?k x" | "?k c = ?k x" | "?k x < ?k c" by (meson linorder_less_linear)
  then show ?case
  proof cases
    case 1
    then have "?k c \<notin> ?k ` set (ys @ [x])" using Nil.prems(4) by auto
    moreover have "chip_add_loop c x s = Some (RC_SUCCESS, link_in ys c [x] s)"
      using 1 seg by (subst chip_add_loop.simps) (simp add: chip_before_key link_in_def)
    ultimately show ?thesis using 1 pass [of "[x]"] by (simp only: if_False) (intro exI [of _ ys] exI [of _ "[x]"], simp)
  next
    case 2
    then have "chip_add_loop c x s = Some (RC_ERROR, s)"
      by (subst chip_add_loop.simps) (simp add: chip_before_key chip_same_key)
    with 2 show ?thesis by simp
  next
    case 3
    then have "?k c \<notin> ?k ` set (ys @ [x])" using Nil.prems(4) by auto
    moreover have "chip_add_loop c x s = Some (RC_SUCCESS, link_in (ys @ [x]) c [] s)"
      using 3 seg by (subst chip_add_loop.simps) (auto simp: chip_before_key chip_same_key link_in_def links_commute)
    ultimately show ?thesis using 3 less_not_sym [OF 3] pass [of "[x]"] by (simp only: if_False) (intro exI [of _ "ys @ [x]"] exI [of _ "[]"], simp)
  qed
next
  case (Cons z xs)
  let ?k = "\<lambda>y. key (chips s y)"
  have pass: "ins_chip ?k c (ys @ zs) = ys @ ins_chip ?k c zs" for zs using Cons.prems(4) by (intro ins_chip_after) auto
  have seg: "c_prev (chips s x) = last_of ys None" "c_next (chips s x) = Some z"
    using Cons.prems(1) by (auto simp: chips_list_def dseg_append)
  have after: "\<forall>y \<in> set (z # xs). ?k x < ?k y" using Cons.prems(3) by (auto simp: sorted_wrt_append)
  consider "?k c < ?k x" | "?k c = ?k x" | "?k x < ?k c" by (meson linorder_less_linear)
  then show ?case
  proof cases
    case 1
    then have "?k c \<notin> ?k ` set (ys @ x # z # xs)" using Cons.prems(4) after by fastforce
    moreover have "chip_add_loop c x s = Some (RC_SUCCESS, link_in ys c (x # z # xs) s)"
      using 1 seg by (subst chip_add_loop.simps) (simp add: chip_before_key link_in_def)
    moreover have "ins_chip ?k c (ys @ x # z # xs) = ys @ c # x # z # xs" using 1 pass by simp
    ultimately show ?thesis by (simp only: if_False) (intro exI [of _ ys] exI [of _ "x # z # xs"], simp)
  next
    case 2
    then have "chip_add_loop c x s = Some (RC_ERROR, s)"
      by (subst chip_add_loop.simps) (simp add: chip_before_key chip_same_key)
    with 2 show ?thesis by simp
  next
    case 3
    then have step: "chip_add_loop c x s = chip_add_loop c z s"
      using seg by (subst chip_add_loop.simps) (auto simp: chip_before_key chip_same_key)
    have eq: "(ys @ [x]) @ z # xs = ys @ x # z # xs" by simp
    show ?thesis unfolding step by (rule Cons.IH [of "ys @ [x]" z, unfolded eq]) (use Cons.prems 3 in auto)
  qed
qed

lemma chip_add_list:
  assumes "chips_list s xs" and "sorted_wrt (\<lambda>x y. key (chips s x) < key (chips s y)) xs" and "c \<notin> set xs"
  shows "if key (chips s c) \<in> set (keys s xs) then chip_add c s = Some (RC_ERROR, s)
    else \<exists>as bs. xs = as @ bs \<and> ins_chip (\<lambda>y. key (chips s y)) c xs = as @ c # bs \<and> chip_add c s = Some (RC_SUCCESS, link_in as c bs s)"
proof (cases xs)
  case Nil
  with assms(1) have "chip_add c s = Some (RC_SUCCESS, link_in [] c [] s)"
    by (simp add: chip_add_def chips_list_def link_in_def)
  with Nil show ?thesis by (simp add: keys_def)
next
  case (Cons x ys)
  then have add: "chip_add c s = chip_add_loop c x s" using assms(1) by (simp add: chip_add_def chips_list_def)
  show ?thesis unfolding add
    unfolding Cons keys_def set_map by (rule chip_add_loop_correct [of s "[]", unfolded append_Nil]) (use assms Cons in simp_all)
qed

lemma chip_add_cases:
  assumes "chips_list s xs" and "sorted_wrt (\<lambda>x y. key (chips s x) < key (chips s y)) xs" and "c \<notin> set xs"
  obtains s' where
    "chip_add c s = Some (if key (chips s c) \<in> set (keys s xs) then RC_ERROR else RC_SUCCESS, s')"
    "key (chips s c) \<in> set (keys s xs) \<longrightarrow> s' = s"
    "key (chips s c) \<notin> set (keys s xs) \<longrightarrow> chips_list s' (ins_chip (\<lambda>y. key (chips s y)) c xs) \<and> info s' = info s \<and> fresh s' = fresh s"
proof (cases "key (chips s c) \<in> set (keys s xs)")
  case True
  with chip_add_list [OF assms] that [of s] show ?thesis by simp
next
  case False
  with chip_add_list [OF assms] obtain as bs where "xs = as @ bs" "ins_chip (\<lambda>y. key (chips s y)) c xs = as @ c # bs"
    "chip_add c s = Some (RC_SUCCESS, link_in as c bs s)" by auto
  with False that [of "link_in as c bs s"] link_in_list [of s as bs c] assms show ?thesis by (simp add: link_in_info)
qed

text \<open>C30: Adding a chip to the sorted doubly linked list ends; a chip with the same four numbers as one of the list is
  refused and nothing changes; any other is linked in at its place, so that the list stays sorted, without duplicates and
  doubly linked, and nothing but links has changed.\<close>

theorem chip_add_refines:
  assumes "chips_list s xs" and "sorted_wrt (\<lambda>x y. key (chips s x) < key (chips s y)) xs" and "c \<notin> set xs"
  shows "\<exists>s'. chip_add c s = Some (if key (chips s c) \<in> set (keys s xs) then RC_ERROR else RC_SUCCESS, s') \<and>
    (if key (chips s c) \<in> set (keys s xs) then s' = s
     else (let xs' = ins_chip (\<lambda>y. key (chips s y)) c xs
           in chips_list s' xs' \<and> info s' = info s \<and> fresh s' = fresh s \<and>
              sorted_wrt (\<lambda>x y. key (chips s' x) < key (chips s' y)) xs'))"
proof -
  obtain s' where s': "chip_add c s = Some (if key (chips s c) \<in> set (keys s xs) then RC_ERROR else RC_SUCCESS, s')"
    "key (chips s c) \<in> set (keys s xs) \<longrightarrow> s' = s"
    "key (chips s c) \<notin> set (keys s xs) \<longrightarrow> chips_list s' (ins_chip (\<lambda>y. key (chips s y)) c xs) \<and> info s' = info s \<and> fresh s' = fresh s"
    by (rule chip_add_cases [OF assms])
  have "sorted_wrt (\<lambda>x y. key (chips s' x) < key (chips s' y)) (ins_chip (\<lambda>y. key (chips s y)) c xs)"
    if "key (chips s c) \<notin> set (keys s xs)"
  proof -
    have "info s' = info s" using s'(3) that by simp
    then have "key (chips s' x) = key (chips s x)" for x by (simp add: key_info)
    with sorted_ins_chip [of "\<lambda>y. key (chips s y)" xs c] assms(2) that show ?thesis by (simp add: keys_def)
  qed
  with s' show ?thesis by (simp add: Let_def)
qed

text \<open>Two chips in the list; a third goes between them.\<close>

definition example_store :: dtb_store where
  "example_store =
     (let n = (\<lambda>k p q. \<lparr>chipset = 126, c_platform = 8, subtype = k, revNum = 0, dtb_size = 0, dtb_file = None, c_prev = p, c_next = q,
             master = 0, wroteDtb = False, master_offset = 0\<rparr>)
      in \<lparr>chips = (\<lambda>x. if x = 0 then n 1 None (Some 1) else if x = 1 then n 3 (Some 0) None else n 2 None None),
          fresh = 3, chip_list = Some 0\<rparr>)"

lemma chip_add_refines_witness:
  "\<exists>s'. chip_add 2 example_store = Some (RC_SUCCESS, s') \<and> chips_list s' [0, 2, 1]"
proof -
  have "chips_list example_store [0, 1]" "sorted_wrt (\<lambda>x y. key (chips example_store x) < key (chips example_store y)) [0, 1]"
    by (simp_all add: example_store_def chips_list_def key_def Let_def)
  moreover have "ins_chip (\<lambda>y. key (chips example_store y)) 2 [0, 1] = [0, 2, 1]"
    "key (chips example_store 2) \<notin> set (keys example_store [0, 1])"
    by (simp_all add: example_store_def key_def keys_def Let_def)
  ultimately show ?thesis using chip_add_refines [of example_store "[0, 1]" 2] by (auto simp: Let_def)
qed

section \<open>What a scan finds\<close>

text \<open>The specification: the first file that names a chip gets it; a file whose first chip is taken is left out.\<close>

definition put_key :: "string \<Rightarrow> chip_key \<Rightarrow> (chip_key \<rightharpoonup> string) \<Rightarrow> (chip_key \<rightharpoonup> string)" where
  "put_key f k m = (if m k \<noteq> None then m else m(k \<mapsto> f))"

definition spec_file :: "dtb_env \<Rightarrow> dtb_opts \<Rightarrow> string \<times> bool \<Rightarrow> (chip_key \<rightharpoonup> string) \<Rightarrow> (chip_key \<rightharpoonup> string)" where
  "spec_file env d dp m =
     (case dp of (name, regular) \<Rightarrow>
        let filename = the (input_dir d) @ name; ks = getChipInfo env d filename (GetVersionInfo env d filename)
        in if \<not> (regular \<and> 4 < length name \<and> drop (length name - 4) name = ''.dtb'') \<or> ks = [] \<or>
              st_size env filename \<in> {None, Some 0} \<or> m (hd ks) \<noteq> None then m
           else fold (put_key filename) ks m)"

definition spec_dir :: "dtb_env \<Rightarrow> dtb_opts \<Rightarrow> (chip_key \<rightharpoonup> string)" where
  "spec_dir env d = fold (spec_file env d) (dirents env) Map.empty"

text \<open>The nodes of the list, by everything but their links.\<close>

definition file_ok :: "dtb_env \<Rightarrow> dtb_opts \<Rightarrow> chipInfo_t \<Rightarrow> bool" where
  "file_ok env d c \<longleftrightarrow>
     (\<exists>f n. dtb_file c = Some f \<and> st_size env f = Some n \<and> 0 < n \<and> dtb_size c = of_nat (padded_size (page_size d) n))"

definition nodes_ok :: "dtb_env \<Rightarrow> dtb_opts \<Rightarrow> (nat \<Rightarrow> chipInfo_t) \<Rightarrow> nat list \<Rightarrow> (chip_key \<rightharpoonup> string) \<Rightarrow> bool" where
  "nodes_ok env d I xs m \<longleftrightarrow>
     sorted_wrt (\<lambda>x y. key (I x) < key (I y)) xs \<and> dom m = (\<lambda>x. key (I x)) ` set xs \<and>
     (\<forall>x \<in> set xs. master_offset (I x) = 0 \<and> \<not> wroteDtb (I x) \<and> master (I x) \<in> set xs \<and>
        master (I (master (I x))) = master (I x) \<and> dtb_file (I (master (I x))) = m (key (I x)) \<and> file_ok env d (I (master (I x))))"

text \<open>What the blobs take in the image, at most \<open>total\<close>.\<close>

definition blob_total :: "(nat \<Rightarrow> chipInfo_t) \<Rightarrow> nat list \<Rightarrow> nat" where
  "blob_total I xs = (\<Sum>m \<in> (\<lambda>x. master (I x)) ` set xs. unat (dtb_size (I m)))"

definition scan_ok :: "dtb_env \<Rightarrow> dtb_opts \<Rightarrow> dtb_store \<Rightarrow> nat \<Rightarrow> nat list \<Rightarrow> (chip_key \<rightharpoonup> string) \<Rightarrow> nat \<Rightarrow> bool" where
  "scan_ok env d s n xs m bound \<longleftrightarrow>
     chips_list s xs \<and> n = length xs \<and> (\<forall>x \<in> set xs. x < fresh s) \<and> nodes_ok env d (info s) xs m \<and>
     blob_total (info s) xs \<le> bound"

lemma blob_total_cong:
  assumes "\<And>x. x \<in> set xs \<Longrightarrow> I x = J x" and "nodes_ok env d I xs m"
  shows "blob_total J xs = blob_total I xs"
proof -
  have "(\<lambda>x. master (J x)) ` set xs = (\<lambda>x. master (I x)) ` set xs" using assms(1) by (auto simp: image_def)
  moreover have "unat (dtb_size (J m)) = unat (dtb_size (I m))" if "m \<in> (\<lambda>x. master (I x)) ` set xs" for m
    using that assms by (auto simp: nodes_ok_def)
  ultimately show ?thesis unfolding blob_total_def by (intro sum.cong) auto
qed

lemma blob_total_insert:
  "blob_total I (ins_chip k c xs) \<le> blob_total I xs + (if master (I c) \<in> (\<lambda>x. master (I x)) ` set xs then 0 else unat (dtb_size (I (master (I c)))))"
  by (simp add: blob_total_def insert_absorb)

lemma nodes_ok_cong: "(\<And>x. x \<in> set xs \<Longrightarrow> I x = J x) \<Longrightarrow> nodes_ok env d I xs m \<Longrightarrow> nodes_ok env d J xs m"
proof -
  assume eq: "\<And>x. x \<in> set xs \<Longrightarrow> I x = J x" and ok: "nodes_ok env d I xs m"
  have "sorted_wrt (\<lambda>x y. key (J x) < key (J y)) xs"
    using ok eq by (auto simp: nodes_ok_def intro: sorted_wrt_mono_rel [rotated])
  moreover have "(\<lambda>x. key (J x)) ` set xs = (\<lambda>x. key (I x)) ` set xs" using eq by (auto simp: image_def)
  ultimately show ?thesis using ok eq unfolding nodes_ok_def by metis
qed

lemma nodes_ok_insert:
  assumes "nodes_ok env d I xs m" and "c \<notin> set xs" and "m (key (I c)) = None"
    and "master (I c) = c \<or> master (I c) \<in> set xs \<and> master (I (master (I c))) = master (I c)"
    and "dtb_file (I (master (I c))) = Some f" and "file_ok env d (I (master (I c)))"
    and "master_offset (I c) = 0" and "\<not> wroteDtb (I c)"
  shows "nodes_ok env d I (ins_chip (\<lambda>x. key (I x)) c xs) (m(key (I c) \<mapsto> f))"
proof -
  let ?k = "\<lambda>x. key (I x)"
  have new: "?k c \<notin> ?k ` set xs" using assms(1,3) by (auto simp: nodes_ok_def)
  then have "sorted_wrt (\<lambda>x y. ?k x < ?k y) (ins_chip ?k c xs)"
    using assms(1) by (simp add: sorted_ins_chip nodes_ok_def)
  moreover have "dom (m(?k c \<mapsto> f)) = ?k ` set (ins_chip ?k c xs)" using assms(1) by (simp add: nodes_ok_def)
  moreover have "master_offset (I x) = 0 \<and> \<not> wroteDtb (I x) \<and> master (I x) \<in> insert c (set xs) \<and> master (I (master (I x))) = master (I x) \<and>
      dtb_file (I (master (I x))) = (m(?k c \<mapsto> f)) (?k x) \<and> file_ok env d (I (master (I x)))" if "x \<in> insert c (set xs)" for x
  proof (cases "x = c")
    case True
    with assms show ?thesis by auto
  next
    case False
    with that have "x \<in> set xs" by simp
    moreover from this new have "?k x \<noteq> ?k c" by (metis image_eqI)
    ultimately have "x \<in> set xs" "?k x \<noteq> ?k c" by blast+
    with assms(1) show ?thesis by (simp add: nodes_ok_def)
  qed
  ultimately show ?thesis unfolding nodes_ok_def by simp
qed

lemma chips_list_cong:
  assumes "chips_list s xs" and "chip_list s' = chip_list s" and "\<And>x. x \<in> set xs \<Longrightarrow> chips s' x = chips s x"
  shows "chips_list s' xs"
proof -
  have "dseg (chips s') None xs None = dseg (chips s) None xs None" using assms(3) by (intro dseg_cong) simp
  with assms show ?thesis by (simp add: chips_list_def)
qed

text \<open>Adding a chip to a good list.\<close>

lemma scan_add:
  assumes "scan_ok env d s n xs m b" and "c \<notin> set xs" and "c < fresh s"
  obtains s' where
    "chip_add c s = Some (if m (key (info s c)) \<noteq> None then RC_ERROR else RC_SUCCESS, s')"
    "m (key (info s c)) \<noteq> None \<Longrightarrow> s' = s"
    "m (key (info s c)) = None \<Longrightarrow> chips_list s' (ins_chip (\<lambda>x. key (info s x)) c xs) \<and> info s' = info s \<and> fresh s' = fresh s"
proof -
  have list: "chips_list s xs" and sorted: "sorted_wrt (\<lambda>x y. key (chips s x) < key (chips s y)) xs"
    and dom: "dom m = (\<lambda>x. key (info s x)) ` set xs"
    using assms(1) by (simp_all add: scan_ok_def nodes_ok_def key_info)
  then have "key (chips s c) \<in> set (keys s xs) \<longleftrightarrow> m (key (info s c)) \<noteq> None" by (auto simp: keys_def key_info)
  with chip_add_cases [OF list sorted assms(2)] that show ?thesis by (auto simp: key_info)
qed

text \<open>The further chips of a file whose master is in the list.\<close>

lemma add_chips_correct:
  assumes "scan_ok env d s n xs m b" and "distinct ts" and "\<forall>t \<in> set ts. t \<notin> set xs \<and> t < fresh s"
    and "\<forall>t \<in> set ts. master (info s t) = c \<and> master_offset (info s t) = 0 \<and> \<not> wroteDtb (info s t)"
    and "c \<in> set xs" and "master (info s c) = c" and "dtb_file (info s c) = Some f" and "file_ok env d (info s c)"
  shows "\<exists>s' n' xs'. add_chips ts (s, n) = Some (s', n') \<and> scan_ok env d s' n' xs' (fold (put_key f) (map (\<lambda>t. key (info s t)) ts) m) b \<and>
    fresh s' = fresh s"
  using assms
proof (induction ts arbitrary: s n xs m)
  case (Cons t ts)
  have t: "t \<notin> set xs" "t < fresh s" using Cons.prems(3) by simp_all
  obtain s1 where add: "chip_add t s = Some (if m (key (info s t)) \<noteq> None then RC_ERROR else RC_SUCCESS, s1)"
    and dup: "m (key (info s t)) \<noteq> None \<Longrightarrow> s1 = s"
    and new: "m (key (info s t)) = None \<Longrightarrow>
      chips_list s1 (ins_chip (\<lambda>x. key (info s x)) t xs) \<and> info s1 = info s \<and> fresh s1 = fresh s"
    using scan_add [OF Cons.prems(1) t] by blast
  show ?case
  proof (cases "m (key (info s t)) = None")
    case False
    with add dup have "add_chips (t # ts) (s, n) = add_chips ts (s, n)" by (simp add: RC_ERROR_def RC_SUCCESS_def)
    moreover have "put_key f (key (info s t)) m = m" using False by (simp add: put_key_def)
    ultimately show ?thesis using Cons.IH [OF Cons.prems(1)] Cons.prems by simp
  next
    case True
    let ?xs = "ins_chip (\<lambda>x. key (info s x)) t xs"
    have step: "add_chips (t # ts) (s, n) = add_chips ts (s1, n + 1)" using add True by (simp add: RC_SUCCESS_def)
    have "nodes_ok env d (info s) ?xs (m(key (info s t) \<mapsto> f))"
    proof (rule nodes_ok_insert)
      show "nodes_ok env d (info s) xs m" using Cons.prems(1) by (simp add: scan_ok_def)
    qed (use t True Cons.prems(4-8) in auto)
    moreover have "blob_total (info s) ?xs \<le> b"
    proof -
      have "master (info s t) \<in> (\<lambda>x. master (info s x)) ` set xs" 
        using Cons.prems(4-6) by (intro image_eqI [of _ _ c]) simp_all
      then show ?thesis using blob_total_insert [of "info s" "\<lambda>x. key (info s x)" t xs] Cons.prems(1) by (simp add: scan_ok_def)
    qed
    ultimately have ok: "scan_ok env d s1 (n + 1) ?xs (m(key (info s t) \<mapsto> f)) b"
      using new [OF True] Cons.prems(1) t by (simp add: scan_ok_def)
    have "\<exists>s' n' xs'. add_chips ts (s1, n + 1) = Some (s', n') \<and>
        scan_ok env d s' n' xs' (fold (put_key f) (map (\<lambda>t. key (info s1 t)) ts) (m(key (info s t) \<mapsto> f))) b \<and> fresh s' = fresh s1"
      by (rule Cons.IH [OF ok]) (use Cons.prems(2-8) new [OF True] in auto)
    moreover have "put_key f (key (info s t)) m = m(key (info s t) \<mapsto> f)" using True by (simp add: put_key_def)
    ultimately show ?thesis using step new [OF True] by simp
  qed
qed auto

text \<open>The nodes of a file.\<close>

lemma alloc_chips_simps:
  "fresh (alloc_chips c ks s) = fresh s + length ks" "chip_list (alloc_chips c ks s) = chip_list s"
  "x < fresh s \<Longrightarrow> chips (alloc_chips c ks s) x = chips s x"
  by (induction ks arbitrary: s) simp_all

lemma alloc_chips_new: "i < length ks \<Longrightarrow> chips (alloc_chips c ks s) (fresh s + i) = new_chip c (ks ! i)"
proof (induction ks arbitrary: s i)
  case (Cons k ks)
  let ?s = "s\<lparr>chips := (chips s)(fresh s := new_chip c k), fresh := Suc (fresh s)\<rparr>"
  show ?case
  proof (cases i)
    case 0
    then show ?thesis by (simp add: alloc_chips_simps)
  next
    case (Suc j)
    then show ?thesis using Cons.IH [of j ?s] Cons.prems by simp
  qed
qed simp

lemma info_new: "info s x = new_chip c k" if "chips s x = new_chip c k"
  using that by (simp add: info_def new_chip_def split: prod.split)

lemma new_chip_simps [simp]:
  "key (new_chip c k) = k" "master (new_chip c k) = c" "master_offset (new_chip c k) = 0" "\<not> wroteDtb (new_chip c k)"
  by (simp_all add: new_chip_def key_def split: prod.split)

definition file_total :: "dtb_env \<Rightarrow> dtb_opts \<Rightarrow> string \<times> bool \<Rightarrow> nat" where
  "file_total env d dp = (case st_size env (the (input_dir d) @ fst dp) of None \<Rightarrow> 0 | Some n \<Rightarrow> padded_size (page_size d) n)"

lemma scan_file_correct:
  assumes "scan_ok env d s n xs m b"
  shows "\<exists>s' n' xs'. scan_file env d dp (s, n) = Some (s', n') \<and> scan_ok env d s' n' xs' (spec_file env d dp m) (b + file_total env d dp)"
proof -
  obtain name regular where dp: "dp = (name, regular)" by (cases dp)
  define fname where "fname = the (input_dir d) @ name"
  define ks where "ks = getChipInfo env d fname (GetVersionInfo env d fname)"
  define c where "c = fresh s"
  define s1 where "s1 = alloc_chips c ks s"
  have I1: "info s1 x = info s x" if "x < fresh s" for x using that by (simp add: s1_def info_def alloc_chips_simps)
  have list: "chips_list s xs" and old: "\<forall>x \<in> set xs. x < fresh s" and nodes: "nodes_ok env d (info s) xs m" and n: "n = length xs"
    and total: "blob_total (info s) xs \<le> b"
    using assms by (simp_all add: scan_ok_def)
  have "chips_list s1 xs" using list old by (rule_tac chips_list_cong [OF list]) (auto simp: s1_def alloc_chips_simps)
  moreover have "nodes_ok env d (info s1) xs m" using old by (intro nodes_ok_cong [OF _ nodes]) (simp add: I1)
  moreover have "blob_total (info s1) xs \<le> b" using old total blob_total_cong [OF _ nodes, of "info s1"] by (simp add: I1)
  ultimately have ok1: "scan_ok env d s1 n xs m b" using old n by (auto simp: scan_ok_def s1_def alloc_chips_simps)
  show ?thesis
  proof (cases "\<not> (regular \<and> 4 < length name \<and> drop (length name - 4) name = ''.dtb'') \<or> ks = [] \<or> st_size env fname \<in> {None, Some 0}")
    case True
    then have "spec_file env d dp m = m" unfolding spec_file_def dp ks_def fname_def Let_def by auto
    moreover have "scan_file env d dp (s, n) = Some (s, n) \<or> scan_file env d dp (s, n) = Some (s1, n)"
      using True unfolding scan_file_def dp ks_def fname_def s1_def c_def Let_def by (auto split: option.split)
    moreover have "scan_ok env d s n xs m (b + file_total env d dp)" "scan_ok env d s1 n xs m (b + file_total env d dp)"
      using assms ok1 by (simp_all add: scan_ok_def)
    ultimately show ?thesis by metis
  next
    case False
    then obtain sz where sz: "st_size env fname = Some sz" "0 < sz" by auto
    have c: "c \<notin> set xs" "c < fresh s1" using old False by (auto simp: c_def s1_def alloc_chips_simps)
    have new: "info s1 (c + i) = new_chip c (ks ! i)" if "i < length ks" for i
      using alloc_chips_new [OF that, of c s] by (intro info_new) (simp add: s1_def c_def)
    have c0: "info s1 c = new_chip c (hd ks)" using new [of 0] False by (simp add: hd_conv_nth)
    obtain s2 where add: "chip_add c s1 = Some (if m (hd ks) \<noteq> None then RC_ERROR else RC_SUCCESS, s2)"
      and dup: "m (hd ks) \<noteq> None \<Longrightarrow> s2 = s1"
      and good: "m (hd ks) = None \<Longrightarrow>
        chips_list s2 (ins_chip (\<lambda>x. key (info s1 x)) c xs) \<and> info s2 = info s1 \<and> fresh s2 = fresh s1"
      using scan_add [OF ok1 c] unfolding c0 new_chip_simps by blast
    define s3 where "s3 = upd c (\<lambda>x. x\<lparr>dtb_size := of_nat (padded_size (page_size d) sz), dtb_file := Some fname\<rparr>) s2"
    have run: "scan_file env d dp (s, n) =
        (if m (hd ks) \<noteq> None then Some (s2, n) else add_chips [Suc c ..< fresh s1] (s3, n + 1))"
      using False sz add unfolding scan_file_def dp ks_def fname_def s1_def c_def s3_def Let_def
      by (simp add: RC_ERROR_def RC_SUCCESS_def)
    show ?thesis
    proof (cases "m (hd ks) = None")
      case dupl: False
      then have "spec_file env d dp m = m" unfolding spec_file_def dp ks_def fname_def Let_def by auto
      moreover have "scan_file env d dp (s, n) = Some (s1, n)" using run dup [OF dupl] dupl by simp
      moreover have "scan_ok env d s1 n xs m (b + file_total env d dp)" using ok1 by (simp add: scan_ok_def)
      ultimately show ?thesis by metis
    next
      case True
      note g = good [OF True]
      let ?xs = "ins_chip (\<lambda>x. key (info s1 x)) c xs"
      have I3: "info s3 = (info s1)(c := (info s1 c)\<lparr>dtb_size := of_nat (padded_size (page_size d) sz), dtb_file := Some fname\<rparr>)"
        (is "_ = (info s1)(c := ?f (info s1 c))")
      proof -
        have "info s3 = (info s2)(c := ?f (info s2 c))"
          by (cases "chips s2 c") (simp add: s3_def info_def fun_eq_iff)
        with g show ?thesis by simp
      qed
      have list3: "chips_list s3 ?xs"
      proof -
        have "dseg (chips s3) None ?xs None = dseg (chips s2) None ?xs None"
          by (intro dseg_cong) (auto simp: s3_def)
        with g show ?thesis by (simp add: chips_list_def s3_def)
      qed
      have key3: "key (info s3 x) = key (info s1 x)" for x by (simp add: I3 key_def)
      have node3: "key (info s3 c) = hd ks" "master (info s3 c) = c" "dtb_file (info s3 c) = Some fname" "file_ok env d (info s3 c)"
        "master_offset (info s3 c) = 0" "\<not> wroteDtb (info s3 c)"
      proof -
        have node: "info s3 c = (new_chip c (hd ks))\<lparr>dtb_size := of_nat (padded_size (page_size d) sz), dtb_file := Some fname\<rparr>"
          unfolding I3 c0 by simp
        show "key (info s3 c) = hd ks" unfolding key3 c0 by simp
        show "master (info s3 c) = c" "dtb_file (info s3 c) = Some fname" "master_offset (info s3 c) = 0" "\<not> wroteDtb (info s3 c)"
          unfolding node by simp_all
        show "file_ok env d (info s3 c)" unfolding node file_ok_def using sz by auto
      qed
      have same3: "info s3 x = info s1 x" if "x \<noteq> c" for x unfolding I3 using that by (rule fun_upd_other)
      have "nodes_ok env d (info s3) xs m"
      proof (rule nodes_ok_cong)
        show "nodes_ok env d (info s1) xs m" using ok1 by (simp only: scan_ok_def)
        show "info s1 x = info s3 x" if "x \<in> set xs" for x using that c(1) same3 by metis
      qed
      then have "nodes_ok env d (info s3) (ins_chip (\<lambda>x. key (info s3 x)) c xs) (m(key (info s3 c) \<mapsto> fname))"
        by (rule nodes_ok_insert) (use c True in \<open>simp_all add: node3\<close>)
      then have nodes3: "nodes_ok env d (info s3) ?xs (m(hd ks \<mapsto> fname))" unfolding key3 c0 new_chip_simps(1) .
      have fresh1: "fresh s1 = c + length ks" by (simp add: s1_def alloc_chips_simps c_def)
      have fresh3: "fresh s3 = c + length ks" using g fresh1 by (simp add: s3_def)
      have less3: "\<forall>x \<in> set ?xs. x < fresh s3" using old c(2) fresh1 unfolding fresh3 set_ins_chip c_def by auto
      have "blob_total (info s3) ?xs \<le> b + file_total env d dp"
      proof -
        have "blob_total (info s3) xs \<le> b"
          using blob_total_cong [of xs "info s1" "info s3"] ok1 c(1) same3 unfolding scan_ok_def by metis
        moreover have "unat (dtb_size (info s3 c)) \<le> padded_size (page_size d) sz"
          using node3(4) sz(1) node3(3) by (auto simp: file_ok_def unsigned_of_nat take_bit_nat_less_eq_self)
        ultimately show ?thesis using blob_total_insert [of "info s3" "\<lambda>x. key (info s1 x)" c xs] sz(1) node3(2)
          by (auto simp: file_total_def dp fname_def split: if_splits)
      qed
      then have ok3: "scan_ok env d s3 (n + 1) ?xs (m(hd ks \<mapsto> fname)) (b + file_total env d dp)"
        unfolding scan_ok_def using list3 nodes3 less3 n by simp
      have rest: "info s3 t = new_chip c (ks ! (t - c))" if "Suc c \<le> t" "t < c + length ks" for t
        using new [of "t - c"] same3 [of t] that by simp
      have "\<exists>s' n' xs'. add_chips [Suc c ..< fresh s1] (s3, n + 1) = Some (s', n') \<and>
          scan_ok env d s' n' xs' (fold (put_key fname) (map (\<lambda>t. key (info s3 t)) [Suc c ..< fresh s1]) (m(hd ks \<mapsto> fname))) (b + file_total env d dp) \<and>
          fresh s' = fresh s3"
      proof (rule add_chips_correct [OF ok3, where c = c])
        show "\<forall>t \<in> set [Suc c ..< fresh s1]. t \<notin> set ?xs \<and> t < fresh s3"
          using old unfolding fresh1 fresh3 c_def by fastforce
        show "\<forall>t \<in> set [Suc c ..< fresh s1]. master (info s3 t) = c \<and> master_offset (info s3 t) = 0 \<and> \<not> wroteDtb (info s3 t)"
          using rest unfolding fresh1 by simp
      qed (use node3 in simp_all)
      moreover have "map (\<lambda>t. key (info s3 t)) [Suc c ..< fresh s1] = tl ks"
        using rest by (intro nth_equalityI) (auto simp: s1_def alloc_chips_simps c_def nth_tl)
      moreover have "spec_file env d dp m = fold (put_key fname) (tl ks) (m(hd ks \<mapsto> fname))"
      proof -
        obtain k0 ks' where kk: "ks = k0 # ks'" using False by (meson neq_Nil_conv)
        have "spec_file env d dp m = fold (put_key fname) ks m"
          using False True unfolding spec_file_def dp fname_def [symmetric] Let_def prod.case ks_def [symmetric] by auto
        then show ?thesis using True by (simp add: kk put_key_def)
      qed
      ultimately show ?thesis using run True by auto
    qed
  qed
qed

lemma scan_dir_correct:
  "scan_ok env d s n xs m b \<Longrightarrow>
     \<exists>s' n' xs'. scan_dir env d dps (s, n) = Some (s', n') \<and>
       scan_ok env d s' n' xs' (fold (spec_file env d) dps m) (b + (\<Sum>dp\<leftarrow>dps. file_total env d dp))"
proof (induction dps arbitrary: s n xs m b)
  case (Cons dp dps)
  from scan_file_correct [OF Cons.prems] obtain s1 n1 xs1
    where "scan_file env d dp (s, n) = Some (s1, n1)" "scan_ok env d s1 n1 xs1 (spec_file env d dp m) (b + file_total env d dp)" by blast
  with Cons.IH [of s1 n1 xs1 "spec_file env d dp m" "b + file_total env d dp"] show ?case by (simp add: add.assoc)
qed auto

lemma scan_all_correct:
  "\<exists>s n xs. scan_dir env d (dirents env) (\<lparr>chips = (\<lambda>_. new_chip 0 (0, 0, 0, 0)), fresh = 0, chip_list = None\<rparr>, 0) = Some (s, n) \<and>
     scan_ok env d s n xs (spec_dir env d) (\<Sum>dp\<leftarrow>dirents env. file_total env d dp)"
proof -
  let ?s = "\<lparr>chips = (\<lambda>_. new_chip 0 (0, 0, 0, 0)), fresh = 0, chip_list = None\<rparr>"
  have "scan_ok env d ?s 0 [] Map.empty 0" by (simp add: scan_ok_def chips_list_def nodes_ok_def blob_total_def)
  from scan_dir_correct [OF this, of "dirents env"] show ?thesis unfolding spec_dir_def by auto
qed

lemma chip_chain_list: "dseg h pv xs None \<Longrightarrow> chip_chain h (first_of xs None) = Some xs"
proof (induction xs arbitrary: pv)
  case (Cons x xs)
  then have "chip_chain h (c_next (h x)) = Some xs" by auto
  then show ?case by (subst chip_chain.simps) simp
qed (subst chip_chain.simps, simp)

text \<open>C40: The tool ends on every directory, whatever the decompiler prints and whatever the files contain: the loops that
  follow pointers, inserting and writing, run over a list that never becomes cyclic.\<close>

theorem dtb_main_terminates: "dtb_main env argv \<noteq> None"
proof (cases "parse_commandline argv")
  case (Some d)
  obtain s n xs where "scan_dir env d (dirents env) (\<lparr>chips = (\<lambda>_. new_chip 0 (0, 0, 0, 0)), fresh = 0, chip_list = None\<rparr>, 0) = Some (s, n)"
    and "scan_ok env d s n xs (spec_dir env d) (\<Sum>dp\<leftarrow>dirents env. file_total env d dp)" using scan_all_correct by blast
  moreover from this(2) have "chip_chain (chips s) (chip_list s) = Some xs"
    by (auto simp: scan_ok_def chips_list_def intro: chip_chain_list)
  ultimately show ?thesis using Some by (simp add: dtb_main_def generate_def Let_def split: prod.split)
qed (simp add: dtb_main_def)

end
