(* ===== verification/Dtb_Search.thy ===== *)
theory Dtb_Search
  imports Dtb_Image
begin

text \<open>
  The image that a successful run of the tool leaves: whatever the calls of \<^verbatim>\<open>write\<close> return, success
  means that every byte has been written, and every chip that was found leads to its device tree.
\<close>

section \<open>Counting what was written\<close>

text \<open>The documented behaviour of \<^verbatim>\<open>write\<close>: an error, or at most what was asked for.\<close>

definition writes_ok :: "dtb_env \<Rightarrow> bool" where
  "writes_ok env \<longleftrightarrow> (\<forall>i n. - 1 \<le> write_result env i n \<and> write_result env i n \<le> int n)"

definition writes_full :: "dtb_env \<Rightarrow> bool" where
  "writes_full env \<longleftrightarrow> (\<forall>i n. write_result env i n = int n)"

text \<open>Asked for \<open>D\<close>, short of it by \<open>k\<close>: only if nothing is missing is the sum that of the requests.\<close>

definition acc :: "dtb_env \<Rightarrow> out_file \<Rightarrow> u8 list \<Rightarrow> bool" where
  "acc env f D \<longleftrightarrow>
     (\<exists>k. k \<le> 2 * length D \<and> wrote f = of_nat (length D) - of_nat k \<and> (k = 0 \<longrightarrow> written f = D) \<and> (writes_full env \<longrightarrow> k = 0))"

lemma acc_write:
  assumes "writes_ok env" and "acc env f D" and "data \<noteq> []"
  shows "acc env (do_write env data f) (D @ data)"
proof -
  obtain k where k: "k \<le> 2 * length D" "wrote f = of_nat (length D) - of_nat k" "k = 0 \<longrightarrow> written f = D"
    "writes_full env \<longrightarrow> k = 0"
    using assms(2) by (auto simp: acc_def)
  let ?n = "write_result env (write_calls f) (length data)"
  have n: "- 1 \<le> ?n" "?n \<le> int (length data)" using assms(1) by (simp_all add: writes_ok_def)
  define k' where "k' = k + nat (int (length data) - ?n)"
  have "0 < length data" using assms(3) by simp
  then have "nat (int (length data) - ?n) \<le> 2 * length data" using n by linarith
  then have "k' \<le> 2 * length (D @ data)" using k(1) by (simp add: k'_def)
  moreover have "wrote (do_write env data f) = of_nat (length (D @ data)) - of_nat k'"
  proof -
    have "(of_nat k' :: 64 word) = of_nat k + of_nat (length data) - word_of_int ?n"
      using n(2) by (simp add: k'_def of_nat_nat)
    then show ?thesis using k(2) by (simp add: do_write_def Let_def)
  qed
  moreover have "k' = 0 \<longrightarrow> written (do_write env data f) = D @ data"
    using k(3) n by (auto simp: k'_def do_write_def Let_def)
  moreover have "writes_full env \<longrightarrow> k' = 0" using k(4) by (simp add: k'_def writes_full_def)
  ultimately show ?thesis unfolding acc_def by blast
qed

lemma acc_writes: "writes_ok env \<Longrightarrow> acc env f D \<Longrightarrow> [] \<notin> set datas \<Longrightarrow> acc env (do_writes env datas f) (D @ concat datas)"
proof (induction datas arbitrary: f D)
  case (Cons x datas)
  then have "acc env (do_write env x f) (D @ x)" by (intro acc_write) auto
  from Cons.IH [OF Cons.prems(1) this] Cons.prems(3) show ?case by simp
qed simp

lemma acc_full: "acc env f D \<Longrightarrow> writes_full env \<Longrightarrow> wrote f = of_nat (length D)"
  by (auto simp: acc_def)

lemma acc_complete: "acc env f D \<Longrightarrow> length D < 2 ^ 62 \<Longrightarrow> wrote f = of_nat (length D) \<Longrightarrow> written f = D"
proof -
  assume "acc env f D" "length D < 2 ^ 62" "wrote f = of_nat (length D)"
  then obtain k where k: "k \<le> 2 * length D" "(of_nat k :: 64 word) = 0" "k = 0 \<longrightarrow> written f = D"
    by (auto simp: acc_def)
  have "k < 2 ^ 64" using k(1) \<open>length D < 2 ^ 62\<close> by simp
  then have "k = 0" using k(2) by (auto simp: word_of_nat_eq_0_iff dest: nat_dvd_not_less [rotated])
  then show ?thesis using k(3) by simp
qed

lemma concat_blocks: "concat (blocks xs) = xs" "[] \<notin> set (blocks xs)"
proof -
  show "concat (blocks xs) = xs" by (induction xs rule: blocks.induct) (subst blocks.simps, simp)
  show "[] \<notin> set (blocks xs)" by (induction xs rule: blocks.induct) (subst blocks.simps, auto simp: COPY_BLK_def)
qed

section \<open>Masters and their places\<close>

definition add_first :: "'a \<Rightarrow> 'a list \<Rightarrow> 'a list" where
  "add_first m ms = (if m \<in> set ms then ms else ms @ [m])"

abbreviation firsts :: "'a list \<Rightarrow> 'a list" where
  "firsts ys \<equiv> fold add_first ys []"

lemma set_fold_add_first [simp]: "set (fold add_first ys ms) = set ms \<union> set ys"
  by (induction ys arbitrary: ms) (auto simp: add_first_def)

lemma distinct_fold_add_first: "distinct ms \<Longrightarrow> distinct (fold add_first ys ms)"
  by (induction ys arbitrary: ms) (auto simp: add_first_def)

fun off :: "(nat \<Rightarrow> nat) \<Rightarrow> nat list \<Rightarrow> nat \<Rightarrow> nat" where
  "off sz [] m = 0"
| "off sz (a # ms) m = (if a = m then 0 else sz a + off sz ms m)"

lemma off_old: "m \<in> set ms \<Longrightarrow> off sz (ms @ ns) m = off sz ms m"
  by (induction ms) auto

lemma off_new: "m \<notin> set ms \<Longrightarrow> off sz (ms @ [m]) m = sum_list (map sz ms)"
  by (induction ms) auto

lemma off_le: "m \<in> set ms \<Longrightarrow> off sz ms m + sz m \<le> sum_list (map sz ms)"
  by (induction ms) auto

lemma off_slice:
  assumes "m \<in> set ms" and "\<And>x. x \<in> set ms \<Longrightarrow> length (g x) = sz x"
  shows "take (sz m) (drop (off sz ms m) (concat (map g ms))) = g m"
  using assms by (induction ms) auto

section \<open>The table\<close>

definition blob :: "(nat \<Rightarrow> chipInfo_t) \<Rightarrow> nat \<Rightarrow> nat" where
  "blob h m = unat (dtb_size (h m))"

definition entry :: "nat \<Rightarrow> (nat \<Rightarrow> chipInfo_t) \<Rightarrow> nat list \<Rightarrow> nat \<Rightarrow> u8 list" where
  "entry base h ms x =
     concat [le32 (chipset (h x)), le32 (c_platform (h x)), le32 (subtype (h x)), le32 (revNum (h x)),
             le32 (of_nat (base + off (blob h) ms (master (h x)))), le32 (dtb_size (h (master (h x))))]"

lemma length_entry [simp]: "length (entry base h ms x) = 24"
  by (simp add: entry_def)

abbreviation masters :: "(nat \<Rightarrow> chipInfo_t) \<Rightarrow> nat list \<Rightarrow> nat list" where
  "masters h xs \<equiv> firsts (map (\<lambda>x. master (h x)) xs)"

definition placed :: "nat \<Rightarrow> (nat \<Rightarrow> chipInfo_t) \<Rightarrow> nat list \<Rightarrow> nat \<Rightarrow> chipInfo_t" where
  "placed base h ms x = (if x \<in> set ms then (h x)\<lparr>master_offset := of_nat (base + off (blob h) ms x)\<rparr> else h x)"

lemma le32_nonempty [simp]: "le32 w \<noteq> []"
  "[] \<noteq> le32 w"
  using length_le32 [of w] by fastforce+

lemma ucast_small: "n < 2 ^ 32 \<Longrightarrow> ucast (of_nat n :: 64 word) = (of_nat n :: u32)"
  by (simp add: unsigned_of_nat take_bit_nat_eq_self)

lemma of_nat_small_nonzero: "0 < n \<Longrightarrow> n < 2 ^ 32 \<Longrightarrow> (of_nat n :: u32) \<noteq> 0"
  by (auto simp: word_of_nat_eq_0_iff dest: nat_dvd_not_less)

lemma write_entry_step:
  assumes "writes_ok env" and "acc env f D" and "chips s = placed base h ms" and "m = master (h x)"
    and "m \<notin> set ms \<longrightarrow> master_offset (h m) = 0"
    and "0 < base" and "base + sum_list (map (blob h) (add_first m ms)) < 2 ^ 32"
  shows "\<exists>s' f'. write_entry env x (s, f, of_nat (base + sum_list (map (blob h) ms))) =
      (s', f', of_nat (base + sum_list (map (blob h) (add_first m ms)))) \<and>
    chips s' = placed base h (add_first m ms) \<and> acc env f' (D @ entry base h (add_first m ms) x)"
proof -
  have at: "chipset (chips s x) = chipset (h x)" "c_platform (chips s x) = c_platform (h x)" "subtype (chips s x) = subtype (h x)"
    "revNum (chips s x) = revNum (h x)" "master (chips s x) = m" "dtb_size (chips s m) = dtb_size (h m)"
    by (simp_all add: assms(3,4) placed_def)
  have total: "base + sum_list (map (blob h) ms) < 2 ^ 32" using assms(7) by (auto simp: add_first_def split: if_splits)
  let ?w = "\<lambda>v. do_writes env [le32 (chipset (h x)), le32 (c_platform (h x)), le32 (subtype (h x)), le32 (revNum (h x)), le32 v,
      le32 (dtb_size (h m))] f"
  have w: "acc env (?w v) (D @ concat [le32 (chipset (h x)), le32 (c_platform (h x)), le32 (subtype (h x)), le32 (revNum (h x)), le32 v,
      le32 (dtb_size (h m))])" for v
    by (rule acc_writes [OF assms(1,2)]) simp
  show ?thesis
  proof (cases "m \<in> set ms")
    case True
    then have ms: "add_first m ms = ms" by (simp add: add_first_def)
    have mo: "master_offset (chips s m) = of_nat (base + off (blob h) ms m)" using True by (simp add: assms(3) placed_def)
    have "base + off (blob h) ms m < 2 ^ 32" using off_le [OF True, of "blob h"] total by linarith
    then have "master_offset (chips s m) \<noteq> 0" unfolding mo using assms(6) by (intro of_nat_small_nonzero) simp_all
    then have "write_entry env x (s, f, of_nat (base + sum_list (map (blob h) ms))) =
        (s, ?w (of_nat (base + off (blob h) ms m)), of_nat (base + sum_list (map (blob h) ms)))"
      unfolding write_entry_def Let_def prod.case at by (simp add: mo)
    then show ?thesis using w assms(3) unfolding ms entry_def assms(4) [symmetric] by blast
  next
    case False
    then have ms: "add_first m ms = ms @ [m]" by (simp add: add_first_def)
    have mo: "master_offset (chips s m) = 0" using False assms(3,5) by (simp add: placed_def)
    let ?e = "base + sum_list (map (blob h) ms)"
    have e: "base + off (blob h) (ms @ [m]) m = ?e" using False by (simp add: off_new)
    have "write_entry env x (s, f, of_nat ?e) =
        (upd m (master_offset_update (\<lambda>_. of_nat ?e)) s, ?w (of_nat ?e), of_nat ?e + ucast (dtb_size (h m)))"
      unfolding write_entry_def Let_def prod.case at using mo ucast_small [OF total] by simp
    moreover have "ucast (dtb_size (h m)) = (of_nat (blob h m) :: 64 word)" by (simp add: blob_def)
    moreover have "chips (upd m (master_offset_update (\<lambda>_. of_nat ?e)) s) = placed base h (ms @ [m])"
      using False e by (auto simp: fun_eq_iff assms(3) placed_def off_old)
    ultimately show ?thesis using w [of "of_nat ?e"] unfolding ms entry_def assms(4) [symmetric] e
      by (auto simp: add.assoc)
  qed
qed

lemma entries_grow:
  "set (map (\<lambda>x. master (h x)) xs) \<subseteq> set ms \<Longrightarrow> map (entry base h (add_first m ms)) xs = map (entry base h ms) xs"
  by (auto simp: entry_def add_first_def off_old)

lemma table_correct:
  assumes "writes_ok env" and "acc env f D" and "chips s = h" and "0 < base"
    and "\<forall>x \<in> set xs. master_offset (h (master (h x))) = 0"
    and "base + sum_list (map (blob h) (masters h xs)) < 2 ^ 32"
  shows "\<exists>s' f'. fold (write_entry env) xs (s, f, of_nat base) = (s', f', of_nat (base + sum_list (map (blob h) (masters h xs)))) \<and>
    chips s' = placed base h (masters h xs) \<and> acc env f' (D @ concat (map (entry base h (masters h xs)) xs))"
  using assms(5,6)
proof (induction xs rule: rev_induct)
  case Nil
  then show ?case using assms(2,3) by (simp add: placed_def fun_eq_iff)
next
  case (snoc x xs)
  let ?ms = "masters h xs" and ?m = "master (h x)"
  have ms: "masters h (xs @ [x]) = add_first ?m ?ms" by simp
  have "base + sum_list (map (blob h) ?ms) < 2 ^ 32" using snoc.prems(2) unfolding ms by (auto simp: add_first_def split: if_splits)
  with snoc.IH snoc.prems(1) obtain s1 f1
    where run: "fold (write_entry env) xs (s, f, of_nat base) = (s1, f1, of_nat (base + sum_list (map (blob h) ?ms)))"
    and s1: "chips s1 = placed base h ?ms" and f1: "acc env f1 (D @ concat (map (entry base h ?ms) xs))" by auto
  have z: "?m \<notin> set ?ms \<longrightarrow> master_offset (h ?m) = 0" using snoc.prems(1) by simp
  have b: "base + sum_list (map (blob h) (add_first ?m ?ms)) < 2 ^ 32" using snoc.prems(2) unfolding ms .
  obtain s2 f2 where step: "write_entry env x (s1, f1, of_nat (base + sum_list (map (blob h) ?ms))) =
      (s2, f2, of_nat (base + sum_list (map (blob h) (add_first ?m ?ms))))"
    and s2: "chips s2 = placed base h (add_first ?m ?ms)"
    and f2: "acc env f2 ((D @ concat (map (entry base h ?ms) xs)) @ entry base h (add_first ?m ?ms) x)"
    using write_entry_step [OF assms(1) f1 s1 refl z assms(4) b] by blast
  have eq: "map (entry base h (add_first ?m ?ms)) xs = map (entry base h ?ms) xs" by (rule entries_grow) simp
  have "acc env f2 (D @ concat (map (entry base h (add_first ?m ?ms)) (xs @ [x])))"
    unfolding map_append concat_append eq using f2 by (simp only: append_assoc list.map concat.simps append_Nil2)
  moreover have "fold (write_entry env) (xs @ [x]) (s, f, of_nat base) =
      (s2, f2, of_nat (base + sum_list (map (blob h) (add_first ?m ?ms))))"
    unfolding fold_append comp_apply run using step by (simp only: fold.simps comp_apply id_apply)
  ultimately show ?case unfolding ms using s2 by blast
qed

section \<open>The device trees\<close>

definition content :: "dtb_env \<Rightarrow> chipInfo_t \<Rightarrow> u8 list option" where
  "content env c = Option.bind (dtb_file c) (file_content env)"

definition padded :: "int \<Rightarrow> u8 list \<Rightarrow> u8 list" where
  "padded psz bs = bs @ replicate (nat psz - length bs mod nat psz) 0"

lemma length_padded: "length (padded psz bs) = padded_size psz (length bs)"
  by (simp add: padded_def padded_size_def)

lemma padded_size_dvd: "0 < psz \<Longrightarrow> nat psz dvd padded_size psz n"
proof -
  assume "0 < psz"
  then have "n mod nat psz \<le> nat psz" by (simp add: less_imp_le)
  moreover have "n = nat psz * (n div nat psz) + n mod nat psz" by simp
  ultimately have "padded_size psz n = nat psz * (n div nat psz) + nat psz" unfolding padded_size_def by linarith
  then show ?thesis by simp
qed

definition marked :: "(nat \<Rightarrow> chipInfo_t) \<Rightarrow> nat list \<Rightarrow> nat \<Rightarrow> chipInfo_t" where
  "marked h ms x = (if x \<in> set ms then (h x)\<lparr>wroteDtb := True\<rparr> else h x)"

lemma write_dtbs_correct:
  assumes "writes_ok env" and "0 < psz"
  shows "write_dtbs env psz xs s f = (RC_SUCCESS, f') \<Longrightarrow> acc env f D \<Longrightarrow> chips s = marked h ms \<Longrightarrow>
    \<forall>x \<in> set xs. \<not> wroteDtb (h (master (h x))) \<Longrightarrow>
    \<exists>ns. fold add_first (map (\<lambda>x. master (h x)) xs) ms = ms @ ns \<and>
      acc env f' (D @ concat (map (\<lambda>m. padded psz (the (content env (h m)))) ns)) \<and>
      (\<forall>m \<in> set ns. content env (h m) \<noteq> None \<and> of_nat (length (padded psz (the (content env (h m))))) = dtb_size (h m))"
proof (induction xs arbitrary: s f D ms)
  case Nil
  then show ?case by simp
next
  case (Cons x xs)
  let ?m = "master (h x)"
  have at: "master (chips s x) = ?m" "dtb_file (chips s ?m) = dtb_file (h ?m)" "dtb_size (chips s ?m) = dtb_size (h ?m)"
    "wroteDtb (chips s ?m) \<longleftrightarrow> ?m \<in> set ms"
    using Cons.prems(4) by (simp_all add: Cons.prems(3) marked_def)
  show ?case
  proof (cases "?m \<in> set ms")
    case True
    then have "write_dtbs env psz xs s f = (RC_SUCCESS, f')" using Cons.prems(1) by (simp add: at Let_def)
    from Cons.IH [OF this Cons.prems(2,3)] Cons.prems(4) True show ?thesis by (simp add: add_first_def)
  next
    case False
    let ?s = "upd ?m (wroteDtb_update (\<lambda>_. True)) s"
    obtain bs where bs: "content env (h ?m) = Some bs"
      using Cons.prems(1) False by (cases "content env (h ?m)") (auto simp: at Let_def content_def RC_ERROR_def RC_SUCCESS_def)
    let ?pad = "nat psz - length bs mod nat psz"
    let ?f = "do_write env (replicate ?pad 0) (do_writes env (blocks bs) f)"
    have size: "of_nat (length (padded psz bs)) = dtb_size (h ?m)"
      using Cons.prems(1) False bs unfolding content_def
      by (auto simp: at Let_def RC_ERROR_def RC_SUCCESS_def padded_def split: if_splits)
    then have run: "write_dtbs env psz xs ?s ?f = (RC_SUCCESS, f')"
      using Cons.prems(1) False bs unfolding content_def
      by (auto simp: at Let_def RC_ERROR_def RC_SUCCESS_def padded_def split: if_splits)
    have "?pad \<noteq> 0" using assms(2) mod_less_divisor [of "nat psz" "length bs"] by linarith
    then have "acc env ?f ((D @ concat (blocks bs)) @ replicate ?pad 0)"
      by (intro acc_write acc_writes assms(1) Cons.prems(2) concat_blocks) simp
    then have acc: "acc env ?f (D @ padded psz bs)" by (simp add: concat_blocks padded_def)
    have "chips ?s = marked h (ms @ [?m])" by (auto simp: fun_eq_iff Cons.prems(3) marked_def)
    from Cons.IH [OF run acc this] Cons.prems(4) obtain ns where
      ns: "fold add_first (map (\<lambda>x. master (h x)) xs) (ms @ [?m]) = (ms @ [?m]) @ ns"
        "acc env f' ((D @ padded psz bs) @ concat (map (\<lambda>m. padded psz (the (content env (h m)))) ns))"
        "\<forall>m \<in> set ns. content env (h m) \<noteq> None \<and> of_nat (length (padded psz (the (content env (h m))))) = dtb_size (h m)"
      by auto
    have "fold add_first (map (\<lambda>x. master (h x)) (x # xs)) ms = ms @ (?m # ns)" using ns(1) False by (simp add: add_first_def)
    moreover have "acc env f' (D @ concat (map (\<lambda>m. padded psz (the (content env (h m)))) (?m # ns)))" using ns(2) bs by simp
    ultimately show ?thesis using ns(3) bs size by (intro exI [of _ "?m # ns"]) auto
  qed
qed

lemma write_dtbs_succeeds:
  "chips s = marked h ms \<Longrightarrow> \<forall>x \<in> set xs. \<not> wroteDtb (h (master (h x))) \<Longrightarrow>
    \<forall>x \<in> set xs. \<exists>bs. content env (h (master (h x))) = Some bs \<and> of_nat (length (padded psz bs)) = dtb_size (h (master (h x))) \<Longrightarrow>
    fst (write_dtbs env psz xs s f) = RC_SUCCESS"
proof (induction xs arbitrary: s f ms)
  case (Cons x xs)
  let ?m = "master (h x)"
  have at: "master (chips s x) = ?m" "dtb_file (chips s ?m) = dtb_file (h ?m)" "dtb_size (chips s ?m) = dtb_size (h ?m)"
    "wroteDtb (chips s ?m) \<longleftrightarrow> ?m \<in> set ms"
    using Cons.prems(2) by (simp_all add: Cons.prems(1) marked_def)
  obtain bs where bs: "content env (h ?m) = Some bs" "of_nat (length (padded psz bs)) = dtb_size (h ?m)" using Cons.prems(3) by auto
  have "chips (upd ?m (wroteDtb_update (\<lambda>_. True)) s) = marked h (ms @ [?m])" by (auto simp: fun_eq_iff Cons.prems(1) marked_def)
  then have next_one: "fst (write_dtbs env psz xs (upd ?m (wroteDtb_update (\<lambda>_. True)) s) f) = RC_SUCCESS" for f
    using Cons.IH Cons.prems(2,3) by simp
  have skip: "fst (write_dtbs env psz xs s f) = RC_SUCCESS" using Cons.IH [OF Cons.prems(1)] Cons.prems(2,3) by simp
  show ?case unfolding write_dtbs.simps Let_def at using next_one skip bs by (simp add: content_def padded_def)
qed simp

section \<open>The image\<close>

definition image_head :: "nat \<Rightarrow> u8 list" where
  "image_head n = QCDT_MAGIC @ le32 QCDT_VERSION @ le32 (of_nat n)"

definition image_gap :: "int \<Rightarrow> nat \<Rightarrow> u8 list" where
  "image_gap psz n = le32 0 @ replicate (header_size psz n - (12 + 24 * n + 4)) 0"

definition image_table :: "int \<Rightarrow> (nat \<Rightarrow> chipInfo_t) \<Rightarrow> nat list \<Rightarrow> u8 list" where
  "image_table psz h xs = concat (map (entry (header_size psz (length xs)) h (masters h xs)) xs)"

definition image_blobs :: "dtb_env \<Rightarrow> int \<Rightarrow> (nat \<Rightarrow> chipInfo_t) \<Rightarrow> nat list \<Rightarrow> u8 list" where
  "image_blobs env psz h xs = concat (map (\<lambda>m. padded psz (the (content env (h m)))) (masters h xs))"

definition whole_image :: "dtb_env \<Rightarrow> int \<Rightarrow> (nat \<Rightarrow> chipInfo_t) \<Rightarrow> nat list \<Rightarrow> u8 list" where
  "whole_image env psz h xs =
     image_head (length xs) @ image_table psz h xs @ image_gap psz (length xs) @ image_blobs env psz h xs"

lemma length_image_head [simp]: "length (image_head n) = 12"
  by (simp add: image_head_def QCDT_MAGIC_def)

lemma length_concat_24: "\<forall>x \<in> set xs. length (g x) = 24 \<Longrightarrow> length (concat (map g xs)) = 24 * length xs"
  by (induction xs) simp_all

lemma length_image_table [simp]: "length (image_table psz h xs) = 24 * length xs"
  unfolding image_table_def by (rule length_concat_24) simp

lemma header_size_le: "0 < psz \<Longrightarrow> 12 + 24 * n + 4 < header_size psz n"
  using mod_less_divisor [of "nat psz" "12 + 24 * n + 4"] unfolding header_size_def padded_size_def by linarith

lemma image_front:
  assumes "0 < psz"
  shows "length (image_head (length xs) @ image_table psz h xs @ image_gap psz (length xs)) = header_size psz (length xs)"
  using header_size_le [OF assms, of "length xs"] by (simp add: image_gap_def)

lemma placed_same [simp]:
  "master (placed base h ms x) = master (h x)" "content env (placed base h ms x) = content env (h x)"
  "dtb_size (placed base h ms x) = dtb_size (h x)" "wroteDtb (placed base h ms x) = wroteDtb (h x)"
  by (simp_all add: placed_def content_def)

lemma generate_run:
  assumes "writes_ok env" and "0 < page_size d" and "chip_chain (chips s) (chip_list s) = Some xs"
    and "\<forall>x \<in> set xs. master_offset (chips s (master (chips s x))) = 0 \<and> \<not> wroteDtb (chips s (master (chips s x)))"
    and "header_size (page_size d) (length xs) + sum_list (map (blob (chips s)) (masters (chips s) xs)) < 2 ^ 32"
    and "\<forall>f bs. file_content env f = Some bs \<longrightarrow> padded_size (page_size d) (length bs) < 2 ^ 32"
  obtains rc f3 where
    "generate env d s (length xs) =
       (let rc1 = (if of_nat (header_size (page_size d) (length xs) + sum_list (map (blob (chips s)) (masters (chips s) xs))) \<noteq> wrote f3
                   then RC_ERROR else rc)
        in Some (rc1, if rc1 \<noteq> RC_SUCCESS then None else Some (written f3 @ drop (length (written f3)) (old_output env))))"
    and "rc = RC_SUCCESS \<longrightarrow> acc env f3 (whole_image env (page_size d) (chips s) xs)"
    and "rc = RC_SUCCESS \<longrightarrow> (\<forall>m \<in> set (masters (chips s) xs).
       \<exists>bs. content env (chips s m) = Some bs \<and> padded_size (page_size d) (length bs) = blob (chips s) m)"
    and "(\<forall>x \<in> set xs. \<exists>bs. content env (chips s (master (chips s x))) = Some bs \<and>
       of_nat (length (padded (page_size d) bs)) = dtb_size (chips s (master (chips s x)))) \<longrightarrow> rc = RC_SUCCESS"
proof -
  let ?h = "chips s" and ?psz = "page_size d" and ?n = "length xs"
  let ?ms = "masters ?h xs" and ?base = "header_size ?psz ?n"
  let ?pad = "nat ?psz - (12 + 24 * ?n + 4) mod nat ?psz"
  let ?f0 = "do_writes env [QCDT_MAGIC, le32 QCDT_VERSION, le32 (of_nat ?n)] \<lparr>written = [], wrote = 0, write_calls = 0\<rparr>"
  have base: "12 + 24 * ?n + 4 + ?pad = ?base" by (simp add: header_size_def padded_size_def)
  have "acc env \<lparr>written = [], wrote = 0, write_calls = 0\<rparr> []" by (simp add: acc_def)
  then have f0: "acc env ?f0 (image_head ?n)"
    using acc_writes [OF assms(1), of _ "[]" "[QCDT_MAGIC, le32 QCDT_VERSION, le32 (of_nat ?n)]"]
    by (simp add: image_head_def QCDT_MAGIC_def)
  have pos: "0 < ?base" using header_size_le [OF assms(2), of ?n] by linarith
  have zero: "\<forall>x \<in> set xs. master_offset (?h (master (?h x))) = 0" using assms(4) by simp
  obtain s1 f1 where table: "fold (write_entry env) xs (s, ?f0, of_nat ?base) = (s1, f1, of_nat (?base + sum_list (map (blob ?h) ?ms)))"
    and s1: "chips s1 = placed ?base ?h ?ms" and f1: "acc env f1 (image_head ?n @ image_table ?psz ?h xs)"
    using table_correct [OF assms(1) f0 refl pos zero assms(5)] unfolding image_table_def by blast
  let ?f2 = "do_writes env [le32 0, replicate ?pad 0] f1"
  obtain rc f3 where dtbs: "write_dtbs env ?psz xs s1 ?f2 = (rc, f3)" by fastforce
  have gen: "generate env d s ?n =
      (let rc1 = (if of_nat (?base + sum_list (map (blob ?h) ?ms)) \<noteq> wrote f3 then RC_ERROR else rc)
       in Some (rc1, if rc1 \<noteq> RC_SUCCESS then None else Some (written f3 @ drop (length (written f3)) (old_output env))))"
    unfolding generate_def Let_def assms(3) option.case base table prod.case dtbs ..
  have "?pad \<noteq> 0" using assms(2) mod_less_divisor [of "nat ?psz" "12 + 24 * ?n + 4"] by linarith
  then have "acc env ?f2 ((image_head ?n @ image_table ?psz ?h xs) @ concat [le32 0, replicate ?pad 0])"
    by (intro acc_writes assms(1) f1) simp
  moreover have "concat [le32 0, replicate ?pad 0] = image_gap ?psz ?n" using base by (simp add: image_gap_def)
  ultimately have f2: "acc env ?f2 (image_head ?n @ image_table ?psz ?h xs @ image_gap ?psz ?n)" by simp
  have marks: "chips s1 = marked (placed ?base ?h ?ms) []" using s1 by (simp add: marked_def fun_eq_iff)
  have todo: "\<forall>x \<in> set xs. \<not> wroteDtb (placed ?base ?h ?ms (master (placed ?base ?h ?ms x)))" using assms(4) by simp
  have done_all: "acc env f3 (whole_image env ?psz ?h xs) \<and>
      (\<forall>m \<in> set ?ms. \<exists>bs. content env (?h m) = Some bs \<and> padded_size ?psz (length bs) = blob ?h m)" if rc: "rc = RC_SUCCESS"
  proof -
    obtain ns where ns: "masters (placed ?base ?h ?ms) xs = [] @ ns"
      "acc env f3 ((image_head ?n @ image_table ?psz ?h xs @ image_gap ?psz ?n) @
         concat (map (\<lambda>m. padded ?psz (the (content env (placed ?base ?h ?ms m)))) ns))"
      "\<forall>m \<in> set ns. content env (placed ?base ?h ?ms m) \<noteq> None \<and>
         of_nat (length (padded ?psz (the (content env (placed ?base ?h ?ms m))))) = dtb_size (placed ?base ?h ?ms m)"
      using write_dtbs_correct [OF assms(1,2) dtbs [unfolded rc] f2 marks todo] by blast
    then have ms: "ns = ?ms" by simp
    have "acc env f3 (whole_image env ?psz ?h xs)" using ns(2) unfolding ms by (simp add: whole_image_def image_blobs_def)
    moreover have "\<exists>bs. content env (?h m) = Some bs \<and> padded_size ?psz (length bs) = blob ?h m" if "m \<in> set ?ms" for m
    proof -
      from ns(3) that ms obtain bs where bs: "content env (?h m) = Some bs" "of_nat (length (padded ?psz bs)) = dtb_size (?h m)" by auto
      then have "padded_size ?psz (length bs) < 2 ^ 32" using assms(6) by (auto simp: content_def bind_eq_Some_conv)
      then have "padded_size ?psz (length bs) = unat (of_nat (length (padded ?psz bs)) :: u32)"
        by (simp add: length_padded unsigned_of_nat take_bit_nat_eq_self)
      with bs show ?thesis by (simp add: blob_def)
    qed
    ultimately show ?thesis by blast
  qed
  have "rc = RC_SUCCESS" if "\<forall>x \<in> set xs. \<exists>bs. content env (?h (master (?h x))) = Some bs \<and>
      of_nat (length (padded ?psz bs)) = dtb_size (?h (master (?h x)))"
    using write_dtbs_succeeds [OF marks todo, of env ?psz ?f2] that unfolding placed_same dtbs by simp
  then show ?thesis using done_all by (intro that [OF gen]) blast+
qed

lemma length_image_blobs:
  assumes "\<forall>m \<in> set (masters h xs). \<exists>bs. content env (h m) = Some bs \<and> padded_size psz (length bs) = blob h m"
  shows "length (image_blobs env psz h xs) = sum_list (map (blob h) (masters h xs))"
proof -
  have "map (\<lambda>m. length (padded psz (the (content env (h m))))) (masters h xs) = map (blob h) (masters h xs)"
    using assms by (force simp: length_padded)
  then show ?thesis unfolding image_blobs_def length_concat map_map comp_def by (rule arg_cong)
qed

lemma length_whole_image:
  assumes "0 < psz" and "\<forall>m \<in> set (masters h xs). \<exists>bs. content env (h m) = Some bs \<and> padded_size psz (length bs) = blob h m"
  shows "length (whole_image env psz h xs) = header_size psz (length xs) + sum_list (map (blob h) (masters h xs))"
  using image_front [OF assms(1), of xs h] length_image_blobs [OF assms(2)] unfolding whole_image_def by simp

lemma generate_image:
  assumes "writes_ok env" and "0 < page_size d" and "chip_chain (chips s) (chip_list s) = Some xs"
    and "\<forall>x \<in> set xs. master_offset (chips s (master (chips s x))) = 0 \<and> \<not> wroteDtb (chips s (master (chips s x)))"
    and "header_size (page_size d) (length xs) + sum_list (map (blob (chips s)) (masters (chips s) xs)) < 2 ^ 32"
    and "\<forall>f bs. file_content env f = Some bs \<longrightarrow> padded_size (page_size d) (length bs) < 2 ^ 32"
  shows "generate env d s (length xs) = Some (RC_SUCCESS, result) \<Longrightarrow>
      result = Some (whole_image env (page_size d) (chips s) xs @ drop (length (whole_image env (page_size d) (chips s) xs)) (old_output env)) \<and>
      (\<forall>m \<in> set (masters (chips s) xs). \<exists>bs. content env (chips s m) = Some bs \<and> padded_size (page_size d) (length bs) = blob (chips s) m)"
    and "writes_full env \<Longrightarrow> \<forall>x \<in> set xs. \<exists>bs. content env (chips s (master (chips s x))) = Some bs \<and>
      of_nat (length (padded (page_size d) bs)) = dtb_size (chips s (master (chips s x))) \<Longrightarrow>
      \<exists>img. generate env d s (length xs) = Some (RC_SUCCESS, Some img)"
proof -
  let ?total = "header_size (page_size d) (length xs) + sum_list (map (blob (chips s)) (masters (chips s) xs))"
  obtain rc f3 where gen: "generate env d s (length xs) =
      (let rc1 = (if of_nat ?total \<noteq> wrote f3 then RC_ERROR else rc)
       in Some (rc1, if rc1 \<noteq> RC_SUCCESS then None else Some (written f3 @ drop (length (written f3)) (old_output env))))"
    and acc: "rc = RC_SUCCESS \<longrightarrow> acc env f3 (whole_image env (page_size d) (chips s) xs)"
    and files: "rc = RC_SUCCESS \<longrightarrow> (\<forall>m \<in> set (masters (chips s) xs).
      \<exists>bs. content env (chips s m) = Some bs \<and> padded_size (page_size d) (length bs) = blob (chips s) m)"
    and good: "(\<forall>x \<in> set xs. \<exists>bs. content env (chips s (master (chips s x))) = Some bs \<and>
      of_nat (length (padded (page_size d) bs)) = dtb_size (chips s (master (chips s x)))) \<longrightarrow> rc = RC_SUCCESS"
    by (rule generate_run [OF assms]) (rule that, assumption+)
  {
    assume "generate env d s (length xs) = Some (RC_SUCCESS, result)"
    with gen have rc: "rc = RC_SUCCESS" and expected: "wrote f3 = of_nat ?total"
      and result: "result = Some (written f3 @ drop (length (written f3)) (old_output env))"
      by (auto simp: Let_def RC_ERROR_def RC_SUCCESS_def split: if_splits)
    have "length (whole_image env (page_size d) (chips s) xs) = ?total" by (rule length_whole_image [OF assms(2) files [THEN mp, OF rc]])
    then have "written f3 = whole_image env (page_size d) (chips s) xs"
      using acc_complete [OF acc [rule_format, OF rc]] expected assms(5) by simp
    with result files [THEN mp, OF rc] show "result = Some (whole_image env (page_size d) (chips s) xs @
        drop (length (whole_image env (page_size d) (chips s) xs)) (old_output env)) \<and>
      (\<forall>m \<in> set (masters (chips s) xs). \<exists>bs. content env (chips s m) = Some bs \<and> padded_size (page_size d) (length bs) = blob (chips s) m)"
      by simp
  }
  {
    assume full: "writes_full env" and ok_files: "\<forall>x \<in> set xs. \<exists>bs. content env (chips s (master (chips s x))) = Some bs \<and>
      of_nat (length (padded (page_size d) bs)) = dtb_size (chips s (master (chips s x)))"
    have rc: "rc = RC_SUCCESS" by (rule good [THEN mp, OF ok_files])
    have "wrote f3 = of_nat ?total" using acc_full [OF acc [rule_format, OF rc] full] length_whole_image [OF assms(2) files [THEN mp, OF rc]] by simp
    with gen rc show "\<exists>img. generate env d s (length xs) = Some (RC_SUCCESS, Some img)" by (simp add: Let_def)
  }
qed

section \<open>What the boot loader reads\<close>

definition word_at :: "u8 list \<Rightarrow> nat \<Rightarrow> u32" where
  "word_at img p = un_le32 (take 4 (drop p img))"

definition entry_key :: "u8 list \<Rightarrow> nat \<Rightarrow> chip_key" where
  "entry_key img i =
     (let p = 12 + 24 * i in (word_at img p, word_at img (p + 4), word_at img (p + 8), word_at img (p + 12)))"

definition entry_offset :: "u8 list \<Rightarrow> nat \<Rightarrow> nat" where
  "entry_offset img i = unat (word_at img (12 + 24 * i + 16))"

definition entry_size :: "u8 list \<Rightarrow> nat \<Rightarrow> nat" where
  "entry_size img i = unat (word_at img (12 + 24 * i + 20))"

lemma parse_options_page:
  "parse_options gs d0 = Some d \<Longrightarrow> 0 < page_size d0 \<and> page_size d0 \<le> PAGE_SIZE_MAX \<Longrightarrow> 0 < page_size d \<and> page_size d \<le> PAGE_SIZE_MAX"
proof (induction gs arbitrary: d0)
  case (Cons g gs)
  then obtain d1 where d1: "parse_option g d0 = Some d1" "parse_options gs d1 = Some d" by (auto split: option.splits)
  have "0 < page_size d1 \<and> page_size d1 \<le> PAGE_SIZE_MAX"
    using d1(1) Cons.prems(2) by (cases g) (auto simp: parse_option_def Let_def split: if_splits)
  with Cons.IH d1(2) show ?case by blast
qed simp

lemma parse_commandline_page: "parse_commandline argv = Some d \<Longrightarrow> 0 < page_size d"
  using parse_options_page by (fastforce simp: parse_commandline_def PAGE_SIZE_DEF_def PAGE_SIZE_MAX_def split: option.splits if_splits)

lemma slice_24:
  "i < length xs \<Longrightarrow> \<forall>x. length (g x) = 24 \<Longrightarrow> take 24 (drop (24 * i) (concat (map g xs) @ r)) = g (xs ! i)"
proof (induction xs arbitrary: i)
  case (Cons x xs)
  then show ?case by (cases i) simp_all
qed simp

lemma word_in_slice:
  assumes "take 24 (drop p img) = concat [le32 a, le32 b, le32 c, le32 d, le32 e, le32 g]"
  shows "word_at img p = a" "word_at img (p + 4) = b" "word_at img (p + 8) = c" "word_at img (p + 12) = d"
    "word_at img (p + 16) = e" "word_at img (p + 20) = g"
proof -
  have *: "take 4 (drop (p + j) img) = take 4 (drop j (take 24 (drop p img)))" if "j + 4 \<le> 24" for j
    using that by (simp add: drop_take add.commute)
  show "word_at img p = a" "word_at img (p + 4) = b" "word_at img (p + 8) = c" "word_at img (p + 12) = d"
    "word_at img (p + 16) = e" "word_at img (p + 20) = g"
    using * [of 0] * [of 4] * [of 8] * [of 12] * [of 16] * [of 20] unfolding assms word_at_def by simp_all
qed

lemma sorted_less_distinct: "sorted_wrt (\<lambda>x y. k x < k y) xs \<Longrightarrow> distinct (map k xs)"
  for k :: "'a \<Rightarrow> 'b :: linorder"
  by (induction xs) (auto dest: less_imp_neq)

lemma drop_front: "length xs = a \<Longrightarrow> drop (a + b) (xs @ ys) = drop b ys"
  by simp

lemma table_slice:
  assumes "i < length xs"
  shows "take 24 (drop (12 + 24 * i) (whole_image env psz h xs @ r)) = entry (header_size psz (length xs)) h (masters h xs) (xs ! i)"
proof -
  have eq: "drop (12 + 24 * i) (whole_image env psz h xs @ r) =
      drop (24 * i) (image_table psz h xs @ image_gap psz (length xs) @ image_blobs env psz h xs @ r)"
    unfolding whole_image_def append_assoc by (rule drop_front) simp
  show ?thesis unfolding eq image_table_def by (rule slice_24 [OF assms]) simp
qed

lemma gap_word: "word_at (whole_image env psz h xs @ r) (12 + 24 * length xs) = 0"
  unfolding word_at_def whole_image_def image_gap_def by simp

lemma blob_slice:
  assumes "0 < psz" and "m \<in> set (masters h xs)"
    and "\<forall>m \<in> set (masters h xs). \<exists>bs. content env (h m) = Some bs \<and> padded_size psz (length bs) = blob h m"
  shows "take (blob h m) (drop (header_size psz (length xs) + off (blob h) (masters h xs) m) (whole_image env psz h xs @ r)) =
      padded psz (the (content env (h m)))"
    and "header_size psz (length xs) + off (blob h) (masters h xs) m + blob h m \<le> length (whole_image env psz h xs)"
proof -
  let ?g = "\<lambda>m. padded psz (the (content env (h m)))" and ?o = "off (blob h) (masters h xs) m"
  have len: "length (?g m) = blob h m" if "m \<in> set (masters h xs)" for m using assms(3) that by (force simp: length_padded)
  note blobs = length_image_blobs [OF assms(3)]
  have le: "?o + blob h m \<le> length (image_blobs env psz h xs)" using off_le [OF assms(2)] blobs by simp
  have split: "whole_image env psz h xs =
      (image_head (length xs) @ image_table psz h xs @ image_gap psz (length xs)) @ image_blobs env psz h xs"
    by (simp add: whole_image_def)
  have "drop (header_size psz (length xs) + ?o) (whole_image env psz h xs @ r) = drop ?o (image_blobs env psz h xs @ r)"
    unfolding split append_assoc [of _ "image_blobs env psz h xs"] by (rule drop_front [OF image_front [OF assms(1)]])
  then have "take (blob h m) (drop (header_size psz (length xs) + ?o) (whole_image env psz h xs @ r)) =
      take (blob h m) (drop ?o (image_blobs env psz h xs))"
    using le by simp
  also have "\<dots> = ?g m" unfolding image_blobs_def using assms(2) len by (rule off_slice)
  finally show "take (blob h m) (drop (header_size psz (length xs) + ?o) (whole_image env psz h xs @ r)) = ?g m" .
  show "header_size psz (length xs) + ?o + blob h m \<le> length (whole_image env psz h xs)"
    using le image_front [OF assms(1), of xs h] unfolding split by simp
qed

lemma info_sel:
  "key (info s x) = key (chips s x)" "master (info s x) = master (chips s x)" "master_offset (info s x) = master_offset (chips s x)"
  "wroteDtb (info s x) = wroteDtb (chips s x)" "dtb_file (info s x) = dtb_file (chips s x)" "file_ok env d (info s x) = file_ok env d (chips s x)"
  by (simp_all add: info_def key_def file_ok_def)

text \<open>What both of the following properties need of the scan.\<close>

lemma dtb_main_generate:
  assumes "parse_commandline argv = Some d"
    and "header_size (page_size d) (card (dom (spec_dir env d))) + (\<Sum>dp\<leftarrow>dirents env. file_total env d dp) < 2 ^ 32"
  obtains s xs where
    "dtb_main env argv = (if xs = [] then Some (RC_SUCCESS, None) else generate env d s (length xs))"
    and "chip_chain (chips s) (chip_list s) = Some xs" and "sorted_wrt (\<lambda>x y. key (chips s x) < key (chips s y)) xs"
    and "dom (spec_dir env d) = (\<lambda>x. key (chips s x)) ` set xs" and "card (dom (spec_dir env d)) = length xs"
    and "\<forall>x \<in> set xs. master_offset (chips s (master (chips s x))) = 0 \<and> \<not> wroteDtb (chips s (master (chips s x))) \<and>
       dtb_file (chips s (master (chips s x))) = spec_dir env d (key (chips s x)) \<and> file_ok env d (chips s (master (chips s x)))"
    and "header_size (page_size d) (length xs) + sum_list (map (blob (chips s)) (masters (chips s) xs)) < 2 ^ 32"
proof -
  obtain s n xs where scan: "scan_dir env d (dirents env) (\<lparr>chips = (\<lambda>_. new_chip 0 (0, 0, 0, 0)), fresh = 0, chip_list = None\<rparr>, 0) = Some (s, n)"
    and ok: "scan_ok env d s n xs (spec_dir env d) (\<Sum>dp\<leftarrow>dirents env. file_total env d dp)" using scan_all_correct by blast
  let ?h = "chips s" and ?m = "spec_dir env d"
  let ?ms = "masters ?h xs"
  have n: "n = length xs" and list: "chips_list s xs" and nodes: "nodes_ok env d (info s) xs ?m" using ok by (simp_all add: scan_ok_def)
  have main: "dtb_main env argv = (if xs = [] then Some (RC_SUCCESS, None) else generate env d s (length xs))"
    unfolding dtb_main_def assms(1) option.case scan prod.case n by simp
  have sorted: "sorted_wrt (\<lambda>x y. key (?h x) < key (?h y)) xs" and dom: "dom ?m = (\<lambda>x. key (?h x)) ` set xs"
    using nodes by (simp_all add: nodes_ok_def key_info)
  have node: "\<forall>x \<in> set xs. master_offset (?h (master (?h x))) = 0 \<and> \<not> wroteDtb (?h (master (?h x))) \<and>
      dtb_file (?h (master (?h x))) = ?m (key (?h x)) \<and> file_ok env d (?h (master (?h x)))"
    using nodes unfolding nodes_ok_def info_sel by blast
  have card: "card (dom ?m) = length xs"
    using distinct_card [OF sorted_less_distinct [OF sorted]] unfolding dom by (simp only: set_map length_map)
  have chain: "chip_chain ?h (chip_list s) = Some xs" using list by (auto simp: chips_list_def intro: chip_chain_list)
  have "sum_list (map (blob ?h) ?ms) = sum (blob ?h) (set ?ms)" by (rule sum_list_distinct_conv_sum_set) (simp add: distinct_fold_add_first)
  then have blobs: "sum_list (map (blob ?h) ?ms) = blob_total (info s) xs"
    by (simp add: blob_total_def blob_def info_def image_image)
  have "header_size (page_size d) (length xs) + sum_list (map (blob ?h) ?ms) < 2 ^ 32"
    using assms(2) ok unfolding card blobs scan_ok_def by linarith
  then show ?thesis by (intro that [OF main chain sorted dom card node])
qed

text \<open>C17: When the tool reports success, and the sizes fit in 32 bits, every byte of the image has been written, whatever
  the single calls of write returned: it begins with the magic, the version and the number of chips, its table is sorted
  without duplicates, ends with a zero word, and has an entry for each chip that the specification assigns to a file, whose
  offset is aligned to the page and leads to the content of that file, padded with zeros to the announced size.\<close>

theorem dtb_image_searchable:
  assumes "parse_commandline argv = Some d" and "writes_ok env" and "dtb_main env argv = Some (RC_SUCCESS, Some img)"
    and "header_size (page_size d) (card (dom (spec_dir env d))) + (\<Sum>dp\<leftarrow>dirents env. file_total env d dp) < 2 ^ 32"
    and "\<forall>f bs. file_content env f = Some bs \<longrightarrow> padded_size (page_size d) (length bs) < 2 ^ 32"
  shows "let n = card (dom (spec_dir env d)) in
    take 12 img = image_head n \<and> sorted_wrt (\<lambda>i j. entry_key img i < entry_key img j) [0 ..< n] \<and>
    word_at img (12 + 24 * n) = 0 \<and>
    (\<forall>k f. spec_dir env d k = Some f \<longrightarrow>
       (\<exists>i < n. entry_key img i = k \<and> nat (page_size d) dvd entry_offset img i \<and>
          entry_offset img i + entry_size img i \<le> length img \<and>
          (\<exists>bs. file_content env f = Some bs \<and> take (entry_size img i) (drop (entry_offset img i) img) = padded (page_size d) bs)))"
proof -
  obtain s xs where main: "dtb_main env argv = (if xs = [] then Some (RC_SUCCESS, None) else generate env d s (length xs))"
    and chain: "chip_chain (chips s) (chip_list s) = Some xs" and sorted: "sorted_wrt (\<lambda>x y. key (chips s x) < key (chips s y)) xs"
    and dom: "dom (spec_dir env d) = (\<lambda>x. key (chips s x)) ` set xs" and card: "card (dom (spec_dir env d)) = length xs"
    and node: "\<forall>x \<in> set xs. master_offset (chips s (master (chips s x))) = 0 \<and> \<not> wroteDtb (chips s (master (chips s x))) \<and>
       dtb_file (chips s (master (chips s x))) = spec_dir env d (key (chips s x)) \<and> file_ok env d (chips s (master (chips s x)))"
    and small: "header_size (page_size d) (length xs) + sum_list (map (blob (chips s)) (masters (chips s) xs)) < 2 ^ 32"
    by (rule dtb_main_generate [OF assms(1,4)])
  let ?h = "chips s" and ?psz = "page_size d" and ?m = "spec_dir env d"
  let ?ms = "masters ?h xs"
  have psz: "0 < ?psz" by (rule parse_commandline_page [OF assms(1)])
  have gen: "generate env d s (length xs) = Some (RC_SUCCESS, Some img)" using assms(3) main by (simp split: if_splits)
  have fresh_nodes: "\<forall>x \<in> set xs. master_offset (?h (master (?h x))) = 0 \<and> \<not> wroteDtb (?h (master (?h x)))" using node by blast
  let ?w = "whole_image env ?psz ?h xs" and ?r = "drop (length (whole_image env ?psz ?h xs)) (old_output env)"
  have img: "img = ?w @ ?r" and files: "\<forall>m \<in> set ?ms. \<exists>bs. content env (?h m) = Some bs \<and> padded_size ?psz (length bs) = blob ?h m"
    using generate_image(1) [OF assms(2) psz chain fresh_nodes small assms(5) gen] by blast+
  let ?base = "header_size ?psz (length xs)"
  have fields: "entry_key img i = key (?h (xs ! i))" "entry_offset img i = ?base + off (blob ?h) ?ms (master (?h (xs ! i)))"
    "entry_size img i = blob ?h (master (?h (xs ! i)))" if "i < length xs" for i
  proof -
    note slice = table_slice [OF that, of env ?psz ?h ?r, unfolded entry_def, folded img]
    show "entry_key img i = key (?h (xs ! i))" unfolding entry_key_def Let_def key_def word_in_slice [OF slice] ..
    show "entry_size img i = blob ?h (master (?h (xs ! i)))" unfolding entry_size_def blob_def word_in_slice [OF slice] ..
    have "master (?h (xs ! i)) \<in> set ?ms" using that by simp
    from off_le [OF this, of "blob ?h"] small
    show "entry_offset img i = ?base + off (blob ?h) ?ms (master (?h (xs ! i)))"
      unfolding entry_offset_def word_in_slice [OF slice] by (simp only: unsigned_of_nat) (simp add: take_bit_nat_eq_self)
  qed
  have aligned: "nat ?psz dvd ?base + off (blob ?h) ?ms m" for m
  proof -
    have "nat ?psz dvd blob ?h x" if "x \<in> set ?ms" for x using files that padded_size_dvd [OF psz] by metis
    then have "nat ?psz dvd off (blob ?h) ns m" if "set ns \<subseteq> set ?ms" for ns using that by (induction ns) auto
    then show ?thesis using padded_size_dvd [OF psz] unfolding header_size_def by simp
  qed
  have "take 12 img = image_head (length xs)" unfolding img whole_image_def by simp
  moreover have "sorted_wrt (\<lambda>i j. entry_key img i < entry_key img j) [0 ..< length xs]"
    using sorted fields(1) unfolding sorted_wrt_iff_nth_less by simp
  moreover have "word_at img (12 + 24 * length xs) = 0" unfolding img by (rule gap_word)
  moreover have "\<exists>i < length xs. entry_key img i = k \<and> nat ?psz dvd entry_offset img i \<and> entry_offset img i + entry_size img i \<le> length img \<and>
      (\<exists>bs. file_content env f = Some bs \<and> take (entry_size img i) (drop (entry_offset img i) img) = padded ?psz bs)"
    if "?m k = Some f" for k f
  proof -
    have "k \<in> dom ?m" using that by (rule domI)
    then obtain x where "x \<in> set xs" "key (?h x) = k" unfolding dom by blast
    then obtain i where i: "i < length xs" "key (?h (xs ! i)) = k" by (metis in_set_conv_nth)
    let ?c = "master (?h (xs ! i))"
    have c: "?c \<in> set ?ms" "dtb_file (?h ?c) = Some f" using i node that nth_mem [OF i(1)] by (simp, metis)
    then obtain bs where bs: "content env (?h ?c) = Some bs" "file_content env f = Some bs" using files by (force simp: content_def)
    have "take (entry_size img i) (drop (entry_offset img i) img) = padded ?psz bs"
      unfolding fields [OF i(1)] using blob_slice(1) [OF psz c(1) files, of ?r, folded img] bs(1) by simp
    moreover have "entry_offset img i + entry_size img i \<le> length img"
      using blob_slice(2) [OF psz c(1) files] unfolding fields [OF i(1)] by (simp add: img)
    ultimately show ?thesis using i fields(1,2) aligned bs(2) by metis
  qed
  ultimately show ?thesis unfolding Let_def card by blast
qed

text \<open>In a directory whose files can be read and have the sizes that the system reports, when every write is complete and
  at least one chip is found, the tool reports success and leaves an image.\<close>

lemma dtb_main_succeeds:
  assumes "parse_commandline argv = Some d" and "writes_full env" and "spec_dir env d \<noteq> Map.empty"
    and "header_size (page_size d) (card (dom (spec_dir env d))) + (\<Sum>dp\<leftarrow>dirents env. file_total env d dp) < 2 ^ 32"
    and "\<forall>f n. st_size env f = Some n \<longrightarrow> (\<exists>bs. file_content env f = Some bs \<and> length bs = n)"
    and "\<forall>f bs. file_content env f = Some bs \<longrightarrow> padded_size (page_size d) (length bs) < 2 ^ 32"
  shows "\<exists>img. dtb_main env argv = Some (RC_SUCCESS, Some img)"
proof -
  obtain s xs where main: "dtb_main env argv = (if xs = [] then Some (RC_SUCCESS, None) else generate env d s (length xs))"
    and chain: "chip_chain (chips s) (chip_list s) = Some xs" and dom: "dom (spec_dir env d) = (\<lambda>x. key (chips s x)) ` set xs"
    and node: "\<forall>x \<in> set xs. master_offset (chips s (master (chips s x))) = 0 \<and> \<not> wroteDtb (chips s (master (chips s x))) \<and>
       dtb_file (chips s (master (chips s x))) = spec_dir env d (key (chips s x)) \<and> file_ok env d (chips s (master (chips s x)))"
    and small: "header_size (page_size d) (length xs) + sum_list (map (blob (chips s)) (masters (chips s) xs)) < 2 ^ 32"
    by (rule dtb_main_generate [OF assms(1,4)])
  have fresh_nodes: "\<forall>x \<in> set xs. master_offset (chips s (master (chips s x))) = 0 \<and> \<not> wroteDtb (chips s (master (chips s x)))"
    using node by blast
  have "writes_ok env" using assms(2) by (simp add: writes_ok_def writes_full_def)
  moreover have "\<exists>bs. content env (chips s (master (chips s x))) = Some bs \<and>
      of_nat (length (padded (page_size d) bs)) = dtb_size (chips s (master (chips s x)))" if "x \<in> set xs" for x
  proof -
    from node that obtain f n where "dtb_file (chips s (master (chips s x))) = Some f" "st_size env f = Some n"
      "dtb_size (chips s (master (chips s x))) = of_nat (padded_size (page_size d) n)" unfolding file_ok_def by blast
    with assms(5) show ?thesis by (force simp: content_def length_padded)
  qed
  ultimately have "\<exists>img. generate env d s (length xs) = Some (RC_SUCCESS, Some img)"
    using generate_image(2) [OF _ parse_commandline_page [OF assms(1)] chain fresh_nodes small assms(6) assms(2)] by blast
  moreover have "xs \<noteq> []" using assms(3) dom by auto
  ultimately show ?thesis using main by simp
qed

section \<open>A small directory\<close>

definition example_dir :: dtb_env where
  "example_dir = \<lparr>dirents = [(''b.dtb'', True), (''notes'', True), (''a.dtb'', True), (''c.dtb'', True)],
     popen = (\<lambda>c. if c = ''dtc -I dtb -O dts '' @ [CHR 0x22] @ ''./a.dtb'' @ [CHR 0x22] @ '' 2>&1'' then
                 Some [''/dts-v1/;'', [CHR 0x09] @ ''qcom,msm-id = <0x7e 0x10000>;'', ''qcom,board-id = <0x8 0x0 0x8 0x1>;'']
               else Some [''qcom,msm-id = <109 1 0>;'']),
     st_size = (\<lambda>f. if f = ''./a.dtb'' then Some 3 else if f = ''./b.dtb'' then Some 17 else if f = ''./c.dtb'' then Some 1 else None),
     file_content = (\<lambda>f. if f = ''./a.dtb'' then Some [1, 2, 3] else if f = ''./b.dtb'' then Some (replicate 17 7) else if f = ''./c.dtb'' then Some [9] else None),
     write_result = (\<lambda>_ n. int n), old_output = []\<rparr>"

definition example_argv :: "getopt list" where
  "example_argv = [OptOutput ''dt.img'', OptPageSize ''16'']"

definition example_opts :: dtb_opts where
  "example_opts = \<lparr>input_dir = Some ''./'', output_file = Some ''dt.img'', dtc_path = Some [], page_size = 16\<rparr>"

lemma example_parse: "parse_commandline example_argv = Some example_opts"
  by code_simp

lemma example_chips:
  "getChipInfo example_dir example_opts ''./a.dtb'' (GetVersionInfo example_dir example_opts ''./a.dtb'') =
     [(0x7e, 8, 0, 0x10000), (0x7e, 8, 1, 0x10000)]"
  "getChipInfo example_dir example_opts ''./b.dtb'' (GetVersionInfo example_dir example_opts ''./b.dtb'') = [(109, 1, 0, 0)]"
  "getChipInfo example_dir example_opts ''./c.dtb'' (GetVersionInfo example_dir example_opts ''./c.dtb'') = [(109, 1, 0, 0)]"
  by code_simp+

lemma example_spec:
  "spec_dir example_dir example_opts =
     [(109, 1, 0, 0) \<mapsto> ''./b.dtb'', (0x7e, 8, 0, 0x10000) \<mapsto> ''./a.dtb'', (0x7e, 8, 1, 0x10000) \<mapsto> ''./a.dtb'']"
proof -
  have dirents: "dirents example_dir = [(''b.dtb'', True), (''notes'', True), (''a.dtb'', True), (''c.dtb'', True)]"
    "input_dir example_opts = Some ''./''" by (simp_all add: example_dir_def example_opts_def)
  have sizes: "st_size example_dir ''./a.dtb'' = Some 3" "st_size example_dir ''./b.dtb'' = Some 17" by (simp_all add: example_dir_def)
  show ?thesis
    by (simp add: spec_dir_def dirents spec_file_def example_chips sizes put_key_def Let_def)
qed

lemma example_sizes:
  "page_size example_opts = 16"
  "header_size 16 3 + (\<Sum>dp\<leftarrow>dirents example_dir. file_total example_dir example_opts dp) < 2 ^ 32"
  "card (dom (spec_dir example_dir example_opts)) = 3"
proof -
  show "page_size example_opts = 16" by (simp add: example_opts_def)
  show "header_size 16 3 + (\<Sum>dp\<leftarrow>dirents example_dir. file_total example_dir example_opts dp) < 2 ^ 32"
    by (simp add: header_size_def padded_size_def file_total_def example_dir_def example_opts_def)
  show "card (dom (spec_dir example_dir example_opts)) = 3" by (simp add: example_spec)
qed

lemma example_files:
  "\<forall>f n. st_size example_dir f = Some n \<longrightarrow> (\<exists>bs. file_content example_dir f = Some bs \<and> length bs = n)"
  "\<forall>f bs. file_content example_dir f = Some bs \<longrightarrow> padded_size (page_size example_opts) (length bs) < 2 ^ 32"
  "writes_full example_dir" "writes_ok example_dir"
  by (auto simp: example_dir_def example_opts_def padded_size_def writes_full_def writes_ok_def)

lemma example_succeeds: "\<exists>img. dtb_main example_dir example_argv = Some (RC_SUCCESS, Some img)"
proof (rule dtb_main_succeeds [OF example_parse example_files(3) _ _ example_files(1,2)])
  show "spec_dir example_dir example_opts \<noteq> Map.empty" by (simp add: example_spec)
qed (use example_sizes in simp)

text \<open>The image of the example leads from the second chip of the first file to its three bytes.\<close>

lemma dtb_image_searchable_witness:
  "\<exists>img i. dtb_main example_dir example_argv = Some (RC_SUCCESS, Some img) \<and> i < 3 \<and> entry_key img i = (0x7e, 8, 1, 0x10000) \<and>
     take (entry_size img i) (drop (entry_offset img i) img) = padded 16 [1, 2, 3]"
proof -
  have small: "header_size (page_size example_opts) (card (dom (spec_dir example_dir example_opts))) +
      (\<Sum>dp\<leftarrow>dirents example_dir. file_total example_dir example_opts dp) < 2 ^ 32"
    using example_sizes by simp
  obtain img where img: "dtb_main example_dir example_argv = Some (RC_SUCCESS, Some img)" using example_succeeds by blast
  have spec: "spec_dir example_dir example_opts (0x7e, 8, 1, 0x10000) = Some ''./a.dtb''" by (simp add: example_spec)
  obtain i bs where "i < 3" "entry_key img i = (0x7e, 8, 1, 0x10000)" "file_content example_dir ''./a.dtb'' = Some bs"
    "take (entry_size img i) (drop (entry_offset img i) img) = padded 16 bs"
    using dtb_image_searchable [OF example_parse example_files(4) img small example_files(2)] spec
    unfolding example_sizes(1,3) Let_def by blast
  moreover have "file_content example_dir ''./a.dtb'' = Some [1, 2, 3]" by (simp add: example_dir_def)
  ultimately show ?thesis using img by auto
qed

section \<open>Inputs that go wrong\<close>

text \<open>The documentation allows a list of bracketed entries; only the first bracket is understood, the next chipset becomes zero.\<close>

lemma second_bracket_lost:
  "getChipInfo_v1 [''qcom,msm-id = <1 2 3 4 5 6>;''] = [(1, 2, 0, 3), (4, 5, 0, 6)]"
  "getChipInfo_v1 [''qcom,msm-id = <1 2 3>, <4 5 6>;''] = [(1, 2, 0, 3), (0, 5, 0, 6)]"
  by code_simp+

text \<open>A file whose first chip is taken is left out with all its other chips.\<close>

lemma first_duplicate_drops_file:
  "m (hd (getChipInfo env d (the (input_dir d) @ name) (GetVersionInfo env d (the (input_dir d) @ name)))) \<noteq> None \<Longrightarrow>
     spec_file env d (name, regular) m = m"
  by (auto simp: spec_file_def Let_def)

text \<open>What an older and longer output file has beyond the end of the new image stays there.\<close>

lemma old_tail_stays:
  assumes "writes_ok env" and "0 < page_size d" and "chip_chain (chips s) (chip_list s) = Some xs"
    and "\<forall>x \<in> set xs. master_offset (chips s (master (chips s x))) = 0 \<and> \<not> wroteDtb (chips s (master (chips s x)))"
    and "header_size (page_size d) (length xs) + sum_list (map (blob (chips s)) (masters (chips s) xs)) < 2 ^ 32"
    and "\<forall>f bs. file_content env f = Some bs \<longrightarrow> padded_size (page_size d) (length bs) < 2 ^ 32"
    and "generate env d s (length xs) = Some (RC_SUCCESS, Some img)"
  shows "drop (length (whole_image env (page_size d) (chips s) xs)) img =
    drop (length (whole_image env (page_size d) (chips s) xs)) (old_output env)"
  using generate_image(1) [OF assms] by simp

end
