(* ===== verification/Control_Files.thy ===== *)
theory Control_Files
  imports Nmea "HOL-Library.Signed_Division"
begin

text \<open>
  The control files of the kernel, as \<^verbatim>\<open>liblight/lights.c\<close> and \<^verbatim>\<open>power/util.c\<close> use them: the store of
  what each file holds, the accesses that can fail, and what a client may rely on when a file takes
  what is written to it.
\<close>

section \<open>The store\<close>

type_synonym file_path = string

text \<open>What a file holds is what the last successful write put there.\<close>

type_synonym file_store = "file_path \<Rightarrow> string option"

text \<open>
  The error number with which \<^verbatim>\<open>open\<close> and \<^verbatim>\<open>write\<close> fail on each file, if they do, and whether the file
  is there at all.  A control file takes the text of one write as a whole.
\<close>

record io_env =
  open_error :: "file_path \<Rightarrow> int option"
  write_error :: "file_path \<Rightarrow> int option"
  file_exists :: "file_path \<Rightarrow> bool"

definition works :: "io_env \<Rightarrow> file_path \<Rightarrow> bool" where
  "works env p \<longleftrightarrow> open_error env p = None \<and> write_error env p = None"

text \<open>\<^verbatim>\<open>%d\<close> and the end of the line.\<close>

definition newline_char :: char where
  "newline_char = CHR 0x0A"

definition int_line :: "int \<Rightarrow> string" where
  "int_line v = fmt_d 0 v @ [newline_char]"

lemma length_int_line: "0 \<le> v \<Longrightarrow> v < 10 ^ k \<Longrightarrow> 0 < k \<Longrightarrow> length (int_line v) \<le> k + 1"
  using length_fmt_d_nonneg [of v k 0] by (simp add: int_line_def)

section \<open>What writers promise\<close>

text \<open>
  A writer stores the text in the file it names, if that file works, and leaves the other files as they
  are.  A sequence of writes then leaves in every working file the last text that it names for it.
\<close>

locale control_writer =
  fixes put :: "io_env \<Rightarrow> file_path \<Rightarrow> string \<Rightarrow> file_store \<Rightarrow> file_store"
  assumes put_same: "works env p \<Longrightarrow> put env p s fs p = Some s"
    and put_other: "q \<noteq> p \<Longrightarrow> put env p s fs q = fs q"
begin

definition put_all :: "io_env \<Rightarrow> (file_path \<times> string) list \<Rightarrow> file_store \<Rightarrow> file_store" where
  "put_all env ws fs = fold (\<lambda>(p, s). put env p s) ws fs"

lemma put_all_Nil [simp]: "put_all env [] fs = fs"
  by (simp add: put_all_def)

lemma put_all_Cons [simp]: "put_all env ((p, s) # ws) fs = put_all env ws (put env p s fs)"
  by (simp add: put_all_def)

lemma put_all_append: "put_all env (ws @ vs) fs = put_all env vs (put_all env ws fs)"
  by (simp add: put_all_def)

lemma put_all_untouched: "q \<notin> fst ` set ws \<Longrightarrow> put_all env ws fs q = fs q"
  by (induction ws arbitrary: fs) (auto simp: put_other)

lemma put_all_last:
  assumes "works env p" and "p \<notin> fst ` set vs"
  shows "put_all env (ws @ (p, s) # vs) fs p = Some s"
  using assms by (simp add: put_all_append put_all_untouched put_same)

end

end
