(* ===== verification/Lights.thy ===== *)
theory Lights
  imports Control_Files "HOL-Library.Option_ord"
begin

text \<open>
  \<^verbatim>\<open>liblight/lights.c\<close>: the lights of the device.  The notification, battery and attention lights share one
  LED, which always shows the most important of them that is lit; on some devices the LED blinks through
  a table of duty cycles that is built as text.  Calls run under one lock, so each is one step.
\<close>

section \<open>Lights\<close>

text \<open>
  \<^verbatim>\<open>light_state_t\<close> and the identifiers come from the interface of the framework; the code compares
  them only with these constants.
\<close>

datatype flash_mode = LIGHT_FLASH_NONE | LIGHT_FLASH_TIMED | LIGHT_FLASH_HARDWARE | FlashOther u32

record light_state_t =
  color :: u32
  flashMode :: flash_mode
  flashOnMS :: u32
  flashOffMS :: u32

datatype light_id =
  LIGHT_ID_BACKLIGHT | LIGHT_ID_NOTIFICATIONS | LIGHT_ID_BATTERY | LIGHT_ID_ATTENTION | LIGHT_ID_BUTTONS | LightOther string

definition dark :: light_state_t where
  "dark = \<lparr>color = 0, flashMode = LIGHT_FLASH_NONE, flashOnMS = 0, flashOffMS = 0\<rparr>"

text \<open>The globals of the module, which start as zeros, and the control files.\<close>

record lights =
  g_notification :: light_state_t
  g_battery :: light_state_t
  g_attention :: light_state_t
  g_is_qpnp_device :: bool
  ctl :: file_store

definition RED_LED_FILE :: file_path where "RED_LED_FILE = ''/sys/class/leds/red/brightness''"
definition GREEN_LED_FILE :: file_path where "GREEN_LED_FILE = ''/sys/class/leds/green/brightness''"
definition BLUE_LED_FILE :: file_path where "BLUE_LED_FILE = ''/sys/class/leds/blue/brightness''"
definition QPNP_RAMP_STEP_FILE :: file_path where "QPNP_RAMP_STEP_FILE = ''/sys/class/leds/red/ramp_step_ms''"
definition QPNP_DUTY_FILE :: file_path where "QPNP_DUTY_FILE = ''/sys/class/leds/red/duty_pcts''"
definition QPNP_BLINK_FILE :: file_path where "QPNP_BLINK_FILE = ''/sys/class/leds/red/blink''"
definition LCD_FILE :: file_path where "LCD_FILE = ''/sys/class/leds/lcd-backlight/brightness''"
definition BUTTONS_FILE :: file_path where "BUTTONS_FILE = ''/sys/class/leds/button-backlight/brightness''"
definition RED_FREQ_FILE :: file_path where "RED_FREQ_FILE = ''/sys/class/leds/red/device/grpfreq''"
definition RED_PWM_FILE :: file_path where "RED_PWM_FILE = ''/sys/class/leds/red/device/grppwm''"
definition RED_BLINK_FILE :: file_path where "RED_BLINK_FILE = ''/sys/class/leds/red/device/blink''"

definition QPNP_DUTY_STEPS :: int where "QPNP_DUTY_STEPS = 50"


section \<open>Writing\<close>

definition write_str :: "io_env \<Rightarrow> file_path \<Rightarrow> string \<Rightarrow> file_store \<Rightarrow> int \<times> file_store" where
  "write_str env path buf fs =
     (case open_error env path of
        Some errno \<Rightarrow> (- errno, fs)
      | None \<Rightarrow> (case write_error env path of
            Some errno \<Rightarrow> (- errno, fs)
          | None \<Rightarrow> (0, fs(path \<mapsto> buf))))"

definition write_int :: "io_env \<Rightarrow> file_path \<Rightarrow> int \<Rightarrow> file_store \<Rightarrow> int \<times> file_store" where
  "write_int env path v fs = write_str env path (int_line v) fs"

text \<open>A write whose result the caller ignores.\<close>

definition put_str :: "io_env \<Rightarrow> file_path \<Rightarrow> string \<Rightarrow> file_store \<Rightarrow> file_store" where
  "put_str env path buf fs = snd (write_str env path buf fs)"

definition put_int :: "io_env \<Rightarrow> file_path \<Rightarrow> int \<Rightarrow> file_store \<Rightarrow> file_store" where
  "put_int env path v fs = snd (write_int env path v fs)"



section \<open>Colours and brightness\<close>


text \<open>The 24 bits of the colour are non-negative, so the shift of the \<^verbatim>\<open>int\<close> is a division.\<close>

definition rgb_to_brightness :: "light_state_t \<Rightarrow> int" where
  "rgb_to_brightness state =
     (let c = color state AND 0x00ffffff
      in (77 * uint (drop_bit 16 c AND 0x00ff) + 150 * uint (drop_bit 8 c AND 0x00ff)
          + 29 * uint (c AND 0x00ff)) div 2 ^ 8)"



section \<open>The LED\<close>

definition flash_times :: "light_state_t \<Rightarrow> int \<times> int" where
  "flash_times state =
     (case flashMode state of
        LIGHT_FLASH_TIMED \<Rightarrow> (sint (flashOnMS state), sint (flashOffMS state))
      | _ \<Rightarrow> (0, 0))"

text \<open>Blink, frequency and pulse width; the arithmetic of \<^verbatim>\<open>int\<close> wraps.\<close>

definition blink_settings :: "int \<Rightarrow> int \<Rightarrow> int \<times> int \<times> int" where
  "blink_settings onMS offMS =
     (if 0 < onMS \<and> 0 < offMS then
        let totalMS = c_int (onMS + offMS);
            freq = totalMS sdiv 50;
            pwm = c_int (onMS * 255) sdiv totalMS
        in (1, freq, if 0 < pwm \<and> pwm < 16 then 16 else pwm)
      else (0, 0, 0))"

definition set_speaker_light_locked_shineled :: "io_env \<Rightarrow> light_state_t option \<Rightarrow> file_store \<Rightarrow> file_store" where
  "set_speaker_light_locked_shineled env st fs =
     (case st of
        None \<Rightarrow> fs
      | Some state \<Rightarrow>
          (let (onMS, offMS) = flash_times state;
               colorRGB = color state;
               red = uint (drop_bit 16 colorRGB AND 0xFF);
               green = uint (drop_bit 8 colorRGB AND 0xFF);
               blue = uint (colorRGB AND 0xFF);
               (blink, freq, pwm) = blink_settings onMS offMS;
               fs = put_int env RED_LED_FILE red fs;
               fs = put_int env GREEN_LED_FILE green fs;
               fs = put_int env BLUE_LED_FILE blue fs;
               fs = (if blink \<noteq> 0 then put_int env RED_PWM_FILE pwm (put_int env RED_FREQ_FILE freq fs) else fs)
           in put_int env RED_BLINK_FILE blink fs))"

text \<open>
  The duty cycles: up to the middle, down again, and zeros to the end of the table.  \<open>None\<close> is a division
  by zero, which the second loop makes when there is one step.
\<close>

definition duty_entries :: "int \<Rightarrow> int list option" where
  "duty_entries onSteps =
     (let half = onSteps sdiv 2;
          up = map (\<lambda>i. min ((100 * i) sdiv half) 100) [1..half];
          i1 = max 1 (half + 1);
          down = map (\<lambda>i. min ((100 * (onSteps - i)) sdiv half) 100) [i1..onSteps];
          i2 = max i1 (onSteps + 1);
          zeros = map (\<lambda>_. 0) [i2..QPNP_DUTY_STEPS - 2]
      in if half = 0 \<and> i1 \<le> onSteps then None else Some (up @ down @ zeros))"

definition duty_string :: "int list \<Rightarrow> string" where
  "duty_string entries = ''0'' @ concat (map (\<lambda>v. '','' @ fmt_d 0 v) entries) @ [newline_char]"

text \<open>The bytes of \<open>dutystr\<close>, the terminating zero included.\<close>

definition DUTYSTR_SIZE :: nat where
  "DUTYSTR_SIZE = 204"

text \<open>The step and the text; \<open>None\<close> is a division by zero or a write beyond the buffer.\<close>

definition qpnp_duty :: "int \<Rightarrow> int \<Rightarrow> (int \<times> string) option" where
  "qpnp_duty onMS offMS =
     (let totalMS = c_int (onMS + offMS);
          stepMS = totalMS sdiv QPNP_DUTY_STEPS
      in if stepMS = 0 then None
         else Option.bind (duty_entries (onMS sdiv stepMS)) (\<lambda>entries.
                let dutystr = duty_string entries
                in if length dutystr + 1 \<le> DUTYSTR_SIZE then Some (stepMS, dutystr) else None))"

definition set_speaker_light_locked_qpnp :: "io_env \<Rightarrow> light_state_t option \<Rightarrow> lights \<Rightarrow> lights option" where
  "set_speaker_light_locked_qpnp env st s =
     (case st of
        None \<Rightarrow> Some s
      | Some state \<Rightarrow>
          (let (onMS, offMS) = flash_times state;
               colorRGB = 0xFFFFFF AND color state;
               b = drop_bit 24 (color (g_notification s) AND 0xFF000000);
               brightness = uint (if b = 0 then 0xFF else b);
               fs = ctl s
           in if 0 < onMS \<and> 0 < offMS then
                Option.bind (qpnp_duty onMS offMS) (\<lambda>(stepMS, dutystr).
                  let fs = put_int env RED_LED_FILE 0 fs;
                      fs = put_str env QPNP_DUTY_FILE dutystr fs;
                      fs = put_int env QPNP_RAMP_STEP_FILE stepMS fs
                  in Some (s\<lparr>ctl := put_int env QPNP_BLINK_FILE 1 fs\<rparr>))
              else
                (let fs = put_int env QPNP_BLINK_FILE 0 fs
                 in Some (s\<lparr>ctl := put_int env RED_LED_FILE (if colorRGB \<noteq> 0 then brightness else 0) fs\<rparr>))))"

definition set_speaker_light_locked :: "io_env \<Rightarrow> light_state_t option \<Rightarrow> lights \<Rightarrow> lights option" where
  "set_speaker_light_locked env st s =
     (if g_is_qpnp_device s then set_speaker_light_locked_qpnp env st s
      else Some (s\<lparr>ctl := set_speaker_light_locked_shineled env st (ctl s)\<rparr>))"


section \<open>The calls of the framework\<close>







definition close_lights :: "light_id option \<Rightarrow> int" where
  "close_lights dev = 0"


section \<open>Paths and writes\<close>

lemmas led_paths =
  RED_LED_FILE_def GREEN_LED_FILE_def BLUE_LED_FILE_def QPNP_RAMP_STEP_FILE_def QPNP_DUTY_FILE_def
  QPNP_BLINK_FILE_def RED_FREQ_FILE_def RED_PWM_FILE_def RED_BLINK_FILE_def

definition led_files :: "file_path list" where
  "led_files = [RED_LED_FILE, GREEN_LED_FILE, BLUE_LED_FILE, QPNP_RAMP_STEP_FILE, QPNP_DUTY_FILE, QPNP_BLINK_FILE,
     RED_FREQ_FILE, RED_PWM_FILE, RED_BLINK_FILE]"

lemma lcd_not_led [simp]: "LCD_FILE \<notin> set led_files" "BUTTONS_FILE \<notin> set led_files"
  by (simp_all add: led_files_def led_paths LCD_FILE_def BUTTONS_FILE_def)



section \<open>What the LED should show\<close>

text \<open>The three lights that share the LED, in the order of their importance.\<close>

datatype led = BatteryLed | NotificationLed | AttentionLed

fun led_rank :: "led \<Rightarrow> nat" where
  "led_rank BatteryLed = 0"
| "led_rank NotificationLed = 1"
| "led_rank AttentionLed = 2"

lemma led_rank_inject: "led_rank a = led_rank b \<longleftrightarrow> a = b"
  by (cases a; cases b) simp_all

instantiation led :: linorder
begin

definition less_eq_led :: "led \<Rightarrow> led \<Rightarrow> bool" where
  "less_eq_led a b = (led_rank a \<le> led_rank b)"

definition less_led :: "led \<Rightarrow> led \<Rightarrow> bool" where
  "less_led a b = (led_rank a < led_rank b)"

instance
  by standard (auto simp: less_eq_led_def less_led_def led_rank_inject)

end






section \<open>The functions of the LED show a light\<close>









lemma speaker_nothing [simp]: "set_speaker_light_locked env None s = Some s"
  by (simp add: set_speaker_light_locked_def set_speaker_light_locked_qpnp_def set_speaker_light_locked_shineled_def)


section \<open>Runs\<close>




















section \<open>Runs show the most important light\<close>






section \<open>Brightness\<close>

definition channel :: "nat \<Rightarrow> light_state_t \<Rightarrow> int" where
  "channel k st = uint (drop_bit k (color st AND 0x00ffffff) AND 0x00ff)"

lemma byte_bounds: "0 \<le> uint (x AND 0xFF :: u32)" "uint (x AND 0xFF :: u32) \<le> 255"
proof -
  have "x AND 0xFF \<le> 0xFF" by (rule word_and_le1)
  then show "uint (x AND 0xFF) \<le> 255" by (simp add: word_le_def)
qed simp

lemma brightness_channels:
  "rgb_to_brightness st = (77 * channel 16 st + 150 * channel 8 st + 29 * channel 0 st) div 256"
  by (simp add: rgb_to_brightness_def channel_def Let_def)

lemma brightness_range: "0 \<le> rgb_to_brightness st" "rgb_to_brightness st \<le> 255"
proof -
  have "0 \<le> channel k st" "channel k st \<le> 255" for k using byte_bounds by (simp_all add: channel_def)
  from this [of 16] this [of 8] this [of 0]
  show "0 \<le> rgb_to_brightness st" "rgb_to_brightness st \<le> 255" by (simp_all add: brightness_channels)
qed

text \<open>
  The brightness of the screen and of the keys is between 0 and 255, no brighter channel makes it darker,
  it is the common value of the three channels when they are equal, and its text fits the buffer of 20 bytes.
\<close>

theorem brightness_bounds:
  assumes "\<forall>k \<in> {0, 8, 16}. channel k lower \<le> channel k state"
  shows "0 \<le> rgb_to_brightness lower \<and> rgb_to_brightness lower \<le> rgb_to_brightness state \<and>
    rgb_to_brightness state \<le> 255 \<and> length (int_line (rgb_to_brightness state)) + 1 \<le> 20 \<and>
    (\<forall>v. channel 16 state = v \<and> channel 8 state = v \<and> channel 0 state = v \<longrightarrow> rgb_to_brightness state = v)"
proof (intro conjI)
  show "rgb_to_brightness lower \<le> rgb_to_brightness state"
    unfolding brightness_channels using assms by (intro zdiv_mono1 add_mono mult_left_mono) simp_all
  show "length (int_line (rgb_to_brightness state)) + 1 \<le> 20"
    using length_int_line [of "rgb_to_brightness state" 3] brightness_range [of state] by simp
  show "\<forall>v. channel 16 state = v \<and> channel 8 state = v \<and> channel 0 state = v \<longrightarrow> rgb_to_brightness state = v"
    by (auto simp: brightness_channels)
qed (rule brightness_range)+

theorem brightness_bounds_witness:
  "rgb_to_brightness dark \<le> rgb_to_brightness (dark\<lparr>color := 0xFF808080\<rparr>) \<and>
   rgb_to_brightness (dark\<lparr>color := 0xFF808080\<rparr>) = 128"
proof -
  have "\<forall>k \<in> {0, 8, 16}. channel k dark \<le> channel k (dark\<lparr>color := 0xFF808080\<rparr>)"
    by (simp add: channel_def dark_def)
  then show ?thesis
    using brightness_bounds [of dark "dark\<lparr>color := 0xFF808080\<rparr>"] by (simp add: channel_def)
qed

section \<open>The table of duty cycles\<close>

lemma sum_list_bound:
  fixes f :: "'a \<Rightarrow> nat"
  shows "(\<And>x. x \<in> set xs \<Longrightarrow> f x \<le> c) \<Longrightarrow> sum_list (map f xs) \<le> c * length xs"
  using sum_list_mono [of xs f "\<lambda>_. c"] by (simp add: sum_list_triv mult.commute)

text \<open>An entry takes at most three bytes, and one more when it is 100.\<close>

lemma duty_entry_length:
  assumes "0 \<le> v"
  shows "v \<le> 99 \<Longrightarrow> length ('','' @ fmt_d 0 v) \<le> 3" and "v \<le> 100 \<Longrightarrow> length ('','' @ fmt_d 0 v) \<le> 4"
  using length_fmt_d_nonneg [of v 2 0] length_fmt_d_nonneg [of v 3 0] assms by simp_all

definition duty_up :: "int \<Rightarrow> int list" where
  "duty_up n = map (\<lambda>i. 100 * i div (n div 2)) [1..n div 2]"

definition duty_down :: "int \<Rightarrow> int list" where
  "duty_down n = map (\<lambda>i. 100 * (n - i) div (n div 2)) [n div 2 + 1..n]"

lemma div_100:
  fixes h :: int
  assumes "0 \<le> a" and "a \<le> h" and "0 < h"
  shows "0 \<le> 100 * a div h" and "100 * a div h \<le> 100" and "a < h \<Longrightarrow> 100 * a div h \<le> 99"
proof -
  show "0 \<le> 100 * a div h" using assms by (simp add: pos_imp_zdiv_nonneg_iff)
  have "100 * a div h \<le> 100 * h div h" using assms by (intro zdiv_mono1) simp_all
  then show "100 * a div h \<le> 100" using assms by simp
  assume "a < h"
  moreover have "h * (100 * a div h) \<le> 100 * a"
    using assms(3) minus_mod_eq_mult_div [of "100 * a" h] pos_mod_sign [of h "100 * a"] by linarith
  ultimately have "h * (100 * a div h) < h * 100" by linarith
  then have "100 * a div h < 100" using assms(3) mult_less_cancel_left_pos by blast
  then show "100 * a div h \<le> 99" by simp
qed

lemma duty_up_ok:
  assumes "0 \<le> n"
  shows "list_all (\<lambda>v. 0 \<le> v \<and> v \<le> 100) (duty_up n)"
    and "sum_list (map (\<lambda>v. length ('','' @ fmt_d 0 v)) (duty_up n)) \<le> 3 * nat (n div 2) + 1"
proof -
  define h where "h = n div 2"
  show "list_all (\<lambda>v. 0 \<le> v \<and> v \<le> 100) (duty_up n)"
    using div_100 [of _ "n div 2"] by (auto simp: list_all_iff duty_up_def)
  show "sum_list (map (\<lambda>v. length ('','' @ fmt_d 0 v)) (duty_up n)) \<le> 3 * nat (n div 2) + 1"
  proof (cases "0 < h")
    case True
    have "sum_list (map (\<lambda>i. length ('','' @ fmt_d 0 (100 * i div h))) [1..h - 1]) \<le> 3 * length [1..h - 1]"
      using div_100 [of _ h] True by (intro sum_list_bound duty_entry_length(1)) auto
    moreover have "length ('','' @ fmt_d 0 (100 * h div h)) \<le> 4"
      using True by (intro duty_entry_length(2)) simp_all
    moreover have "[1..h] = [1..h - 1] @ [h]" using True by (intro upto_rec2) simp
    ultimately show ?thesis
      using True unfolding duty_up_def h_def [symmetric] by (simp add: comp_def nat_diff_distrib)
  next
    case False
    then show ?thesis by (simp add: duty_up_def h_def)
  qed
qed

lemma duty_down_ok:
  assumes "0 \<le> n" and "n \<noteq> 1"
  shows "list_all (\<lambda>v. 0 \<le> v \<and> v \<le> 100) (duty_down n)"
    and "sum_list (map (\<lambda>v. length ('','' @ fmt_d 0 v)) (duty_down n)) \<le> 3 * nat (n - n div 2) + 1"
proof -
  define h where "h = n div 2"
  have pos: "0 < h" if "n \<noteq> 0" using assms that by (simp add: h_def)
  have bounds: "0 \<le> 100 * (n - i) div h \<and> 100 * (n - i) div h \<le> 100 \<and> (h + 2 \<le> i \<longrightarrow> 100 * (n - i) div h \<le> 99)"
    if "h + 1 \<le> i" "i \<le> n" for i
  proof -
    have "n \<noteq> 0" using that assms(1) by (auto simp: h_def)
    moreover have "n - i \<le> h" "h + 2 \<le> i \<longrightarrow> n - i < h" using that by (auto simp: h_def)
    ultimately show ?thesis using div_100 [of "n - i" h] pos that by auto
  qed
  show "list_all (\<lambda>v. 0 \<le> v \<and> v \<le> 100) (duty_down n)"
    using bounds by (auto simp: list_all_iff duty_down_def h_def)
  show "sum_list (map (\<lambda>v. length ('','' @ fmt_d 0 v)) (duty_down n)) \<le> 3 * nat (n - n div 2) + 1"
  proof (cases "h + 1 \<le> n")
    case True
    have "sum_list (map (\<lambda>i. length ('','' @ fmt_d 0 (100 * (n - i) div h))) [h + 2..n]) \<le> 3 * length [h + 2..n]"
      using bounds by (intro sum_list_bound duty_entry_length(1)) auto
    moreover have "length ('','' @ fmt_d 0 (100 * (n - (h + 1)) div h)) \<le> 4"
      using bounds [of "h + 1"] True by (intro duty_entry_length(2)) auto
    moreover have "[h + 1..n] = (h + 1) # [h + 2..n]" using True upto_rec1 [of "h + 1" n] by (simp add: add.assoc)
    ultimately show ?thesis
      using True unfolding duty_down_def h_def [symmetric] by (simp add: comp_def nat_diff_distrib)
  next
    case False
    then show ?thesis by (simp add: duty_down_def h_def)
  qed
qed

lemma sdiv_nonneg: "0 \<le> a \<Longrightarrow> 0 \<le> b \<Longrightarrow> a sdiv b = a div (b :: int)"
  by (auto simp: signed_divide_int_def sgn_if)

lemma duty_string_length:
  "length (duty_string es) = 2 + sum_list (map (\<lambda>v. length ('','' @ fmt_d 0 v)) es)"
  by (simp add: duty_string_def length_concat comp_def)

lemma duty_entries_eq:
  assumes "0 \<le> n" and "n \<noteq> 1"
  shows "duty_entries n = Some (duty_up n @ duty_down n @ replicate (nat (48 - n)) 0)"
proof -
  define h where "h = n div 2"
  have h: "0 \<le> h" "n sdiv 2 = h" "n \<noteq> 0 \<longrightarrow> 0 < h" "h \<le> n" "n = 0 \<longrightarrow> h = 0"
    using assms by (simp_all add: h_def sdiv_nonneg) presburger
  have up: "map (\<lambda>i. min ((100 * i) sdiv h) 100) [1..h] = duty_up n"
    unfolding duty_up_def h_def [symmetric]
    using div_100 [of _ h] h by (intro map_cong refl) (simp add: sdiv_nonneg)
  have down: "map (\<lambda>i. min ((100 * (n - i)) sdiv h) 100) [h + 1..n] = duty_down n"
    unfolding duty_down_def h_def [symmetric]
  proof (intro map_cong refl)
    fix i assume i: "i \<in> set [h + 1..n]"
    then have "n - i \<le> h" "0 \<le> n - i" "0 < h" using h by (auto simp: h_def)
    then show "min ((100 * (n - i)) sdiv h) 100 = 100 * (n - i) div h"
      using div_100 [of "n - i" h] by (simp add: sdiv_nonneg)
  qed
  have zeros: "map (\<lambda>_. 0) [max (h + 1) (n + 1)..48] = replicate (nat (48 - n)) (0 :: int)"
    using h by (simp add: map_replicate_const)
  have "max 1 (h + 1) = h + 1" using h by simp
  then show ?thesis
    using up down zeros h by (auto simp: duty_entries_def Let_def QPNP_DUTY_STEPS_def)
qed

text \<open>C27: 
  When the light blinks with a period of 150 ms or more, and does not shine for exactly one step of the
  period, the table of duty cycles is built without a division by zero and fits its buffer, its terminating zero
  included; its entries are percentages, and there are as many as steps of shining, 48 at least.
\<close>

theorem qpnp_duty_fits:
  assumes "0 < onMS" and "0 < offMS" and "150 \<le> onMS + offMS" and "onMS + offMS < 2 ^ 31"
    and "onMS div ((onMS + offMS) div 50) \<noteq> 1"
  shows "\<exists>entries. qpnp_duty onMS offMS = Some ((onMS + offMS) div 50, duty_string entries) \<and>
    length (duty_string entries) + 1 \<le> DUTYSTR_SIZE \<and> list_all (\<lambda>v. 0 \<le> v \<and> v \<le> 100) entries \<and>
    int (length entries) = max 48 (onMS div ((onMS + offMS) div 50))"
proof -
  define t where "t = onMS + offMS"
  define k where "k = t div 50"
  define n where "n = onMS div k"
  have t: "c_int t = t" using assms by (simp add: t_def c_int_id)
  have k: "3 \<le> k" "t sdiv QPNP_DUTY_STEPS = k" "onMS sdiv k = n"
    using assms by (simp_all add: k_def t_def n_def sdiv_nonneg QPNP_DUTY_STEPS_def)
  have n: "0 \<le> n" "n \<noteq> 1"
    using assms k by (simp_all add: n_def k_def t_def pos_imp_zdiv_nonneg_iff)
  have "0 \<le> onMS mod k" using k by simp
  then have "n * k \<le> onMS" unfolding n_def using div_mult_mod_eq [of onMS k] by linarith
  moreover have "onMS \<le> 50 * k + 48" using assms(2) by (simp add: k_def t_def)
  ultimately have "(n - 50) * k \<le> 48" by (simp add: algebra_simps)
  then have "n \<le> 66"
  proof (rule contrapos_pp)
    assume "\<not> n \<le> 66"
    then have "17 * 3 \<le> (n - 50) * k" using k by (intro mult_mono) simp_all
    then show "\<not> (n - 50) * k \<le> 48" by simp
  qed
  define es where "es = duty_up n @ duty_down n @ replicate (nat (48 - n)) 0"
  have len: "int (length es) = max 48 n"
    using n by (auto simp: es_def duty_up_def duty_down_def max_def)
  have zero: "sum_list (map (\<lambda>v. length ('','' @ fmt_d 0 v)) (replicate m 0)) = 2 * m" for m
    by (induction m) (simp_all add: fmt_d_def pad0_def nat_str.simps)
  have "length (duty_string es) =
      2 + (sum_list (map (\<lambda>v. length ('','' @ fmt_d 0 v)) (duty_up n)) +
      (sum_list (map (\<lambda>v. length ('','' @ fmt_d 0 v)) (duty_down n)) +
       sum_list (map (\<lambda>v. length ('','' @ fmt_d 0 v)) (replicate (nat (48 - n)) 0))))"
    unfolding duty_string_length es_def by (simp only: map_append sum_list_append)
  also have "\<dots> \<le> 2 + ((3 * nat (n div 2) + 1) + ((3 * nat (n - n div 2) + 1) + 2 * nat (48 - n)))"
    unfolding zero by (intro add_mono order_refl duty_up_ok(2) duty_down_ok(2) n)
  also have "\<dots> \<le> 203" using n \<open>n \<le> 66\<close> by (simp add: nat_diff_distrib)
  finally have fits: "length (duty_string es) + 1 \<le> DUTYSTR_SIZE" by (simp add: DUTYSTR_SIZE_def)
  have "qpnp_duty onMS offMS = Some (k, duty_string es)"
    using k t fits duty_entries_eq [OF n] by (simp add: qpnp_duty_def Let_def t_def [symmetric] es_def)
  moreover have "list_all (\<lambda>v. 0 \<le> v \<and> v \<le> 100) es"
    using duty_up_ok(1) [OF n(1)] duty_down_ok(1) [OF n] by (auto simp: es_def list_all_iff)
  ultimately show ?thesis
    using fits len by (intro exI [of _ es]) (simp add: k_def t_def n_def)
qed

theorem qpnp_duty_fits_witness:
  "\<exists>entries. qpnp_duty 500 500 = Some (20, duty_string entries) \<and> length entries = 48"
  using qpnp_duty_fits [of 500 500] by auto

text \<open>
  Outside these bounds the code divides by zero (a period below 50 ms, or one step of shining, as in a flash of
  100 ms every 3 s) or writes beyond the buffer.
\<close>

lemma duty_faults: "qpnp_duty 20 20 = None" "qpnp_duty 100 2900 = None" "qpnp_duty 98 1 = None"
proof -
  show "qpnp_duty 20 20 = None" "qpnp_duty 100 2900 = None"
    by (simp_all add: qpnp_duty_def c_int_def QPNP_DUTY_STEPS_def duty_entries_def Let_def sdiv_nonneg)
  show "qpnp_duty 98 1 = None" by code_simp
qed

end
