(* ===== verification/Power_Module.thy ===== *)
theory Power_Module
  imports Control_Files
begin

text \<open>
  \<^verbatim>\<open>power/power.c\<close> and \<^verbatim>\<open>power/util.c\<close>: the power module, which switches waking by double tap and ignores
  every hint, and its helpers on the control files.
\<close>

section \<open>Helpers\<close>

definition sysfs_write :: "io_env \<Rightarrow> file_path \<Rightarrow> string \<Rightarrow> file_store \<Rightarrow> file_store" where
  "sysfs_write env path s fs =
     (if open_error env path \<noteq> None then fs
      else if write_error env path \<noteq> None then fs
      else fs(path \<mapsto> s))"

definition sysfs_write_silent :: "io_env \<Rightarrow> file_path \<Rightarrow> string \<Rightarrow> file_store \<Rightarrow> int \<times> file_store" where
  "sysfs_write_silent env path s fs =
     (if open_error env path \<noteq> None then (- 1, fs)
      else if write_error env path \<noteq> None then (- 1, fs)
      else (0, fs(path \<mapsto> s)))"

interpretation power_writer: control_writer sysfs_write
  by unfold_locales (auto simp: sysfs_write_def works_def)

interpretation silent_writer: control_writer "\<lambda>env p s fs. snd (sysfs_write_silent env p s fs)"
  by unfold_locales (auto simp: sysfs_write_silent_def works_def)

definition NUL :: char where
  "NUL = CHR 0x00"

text \<open>The string in a buffer: the bytes before the first zero.\<close>

definition buf_string :: "string \<Rightarrow> string" where
  "buf_string buf = takeWhile (\<lambda>c. c \<noteq> NUL) buf"

text \<open>
  A read fills the buffer with at most one byte less than its size and ends the string; \<open>read_data\<close> is
  what the file gives (\<open>None\<close> when opening or reading fails).  The rest of the buffer keeps its bytes.
\<close>

definition sysfs_read :: "string option \<Rightarrow> string \<Rightarrow> int \<times> string" where
  "sysfs_read read_data buf =
     (case read_data of
        None \<Rightarrow> (- 1, buf)
      | Some content \<Rightarrow>
          (let bytes = take (length buf - 1) content; count = length bytes
           in (0, bytes @ NUL # drop (count + 1) buf)))"

function strip_loop :: "string \<Rightarrow> int \<Rightarrow> string" where
  "strip_loop buf len =
     (if 0 \<le> len \<and> (buf ! nat len = newline_char \<or> buf ! nat len = CHR 0x0D)
      then strip_loop (buf[nat len := NUL]) (len - 1) else buf)"
  by auto

termination by (relation "measure (\<lambda>(_, len). nat (len + 1))") auto

declare strip_loop.simps [simp del]

definition sysfs_read_buf :: "string option \<Rightarrow> string \<Rightarrow> int \<times> string" where
  "sysfs_read_buf read_data buf =
     (let (ret, buf) = sysfs_read read_data buf
      in if ret = - 1 then (- 1, buf) else (0, strip_loop buf (int (length (buf_string buf)) - 1)))"

definition CPUFREQ_ROOT_PATH :: string where "CPUFREQ_ROOT_PATH = ''/sys/devices/system/cpu/cpu''"
definition CPUFREQ_TAIL_PATH :: string where "CPUFREQ_TAIL_PATH = ''/cpufreq/''"
definition MAX_FREQ_PATH :: string where "MAX_FREQ_PATH = ''/sys/devices/system/cpu/cpu0/cpufreq/cpuinfo_max_freq''"
definition CPUS_MAX_PATH :: string where "CPUS_MAX_PATH = ''/sys/devices/system/cpu/present''"

definition get_max_freq :: "(file_path \<Rightarrow> string option) \<Rightarrow> string \<Rightarrow> int \<times> string" where
  "get_max_freq read_file freq = sysfs_read_buf (read_file MAX_FREQ_PATH) freq"

definition get_max_cpus :: "(file_path \<Rightarrow> string option) \<Rightarrow> string \<Rightarrow> int \<times> string" where
  "get_max_cpus read_file cpus = sysfs_read_buf (read_file CPUS_MAX_PATH) cpus"

text \<open>The path is printed into 256 bytes without a check; \<open>None\<close> is a path that does not fit.\<close>

definition write_cpufreq_value :: "io_env \<Rightarrow> int \<Rightarrow> string \<Rightarrow> string \<Rightarrow> file_store \<Rightarrow> file_store option" where
  "write_cpufreq_value env cpu key v fs =
     (let cpufreq_path = CPUFREQ_ROOT_PATH @ fmt_d 0 cpu @ CPUFREQ_TAIL_PATH @ key
      in if length cpufreq_path + 1 \<le> 256 then Some (snd (sysfs_write_silent env cpufreq_path v fs)) else None)"

section \<open>The module\<close>

datatype feature_t = POWER_FEATURE_DOUBLE_TAP_TO_WAKE | OtherFeature int

definition DOUBLE_TAP_FILE :: file_path where
  "DOUBLE_TAP_FILE = ''/proc/touchpanel/double_tap_enable''"

definition set_feature :: "io_env \<Rightarrow> feature_t \<Rightarrow> int \<Rightarrow> file_store \<Rightarrow> file_store" where
  "set_feature env feature state fs =
     (if feature = POWER_FEATURE_DOUBLE_TAP_TO_WAKE then
        (if file_exists env DOUBLE_TAP_FILE then
           sysfs_write env DOUBLE_TAP_FILE (if state \<noteq> 0 then ''1'' else ''0'') fs
         else fs)
      else fs)"

text \<open>Initialisation, interactivity and hints change nothing.\<close>

definition power_init :: "file_store \<Rightarrow> file_store" where
  "power_init fs = fs"

definition power_set_interactive :: "int \<Rightarrow> file_store \<Rightarrow> file_store" where
  "power_set_interactive on fs = fs"

datatype power_hint_t = POWER_HINT_INTERACTION | POWER_HINT_VIDEO_ENCODE | POWER_HINT_LOW_POWER | OtherHint int

fun power_hint :: "power_hint_t \<Rightarrow> file_store \<Rightarrow> file_store" where
  "power_hint POWER_HINT_INTERACTION fs = fs"
| "power_hint POWER_HINT_VIDEO_ENCODE fs = fs"
| "power_hint POWER_HINT_LOW_POWER fs = fs"
| "power_hint (OtherHint _) fs = fs"

section \<open>Stripping line ends\<close>

definition line_end :: "char \<Rightarrow> bool" where
  "line_end c = (c = newline_char \<or> c = CHR 0x0D)"

definition strip_ends :: "string \<Rightarrow> string" where
  "strip_ends s = rev (dropWhile line_end (rev s))"

lemma strip_ends_snoc [simp]: "strip_ends (s @ [c]) = (if line_end c then strip_ends s else s @ [c])"
  by (simp add: strip_ends_def)

lemma strip_loop_eq:
  assumes "NUL \<notin> set s"
  shows "buf_string (strip_loop (s @ NUL # rest) (int (length s) - 1)) = strip_ends s \<and>
    length (strip_loop (s @ NUL # rest) (int (length s) - 1)) = length s + 1 + length rest"
  using assms
proof (induction s arbitrary: rest rule: rev_induct)
  case Nil
  then show ?case by (simp add: strip_loop.simps buf_string_def strip_ends_def)
next
  case (snoc c s)
  have whole: "buf_string ((s @ [c]) @ NUL # rest) = s @ [c]"
    using snoc.prems by (auto simp: buf_string_def takeWhile_append)
  have step: "strip_loop ((s @ [c]) @ NUL # rest) (int (length (s @ [c])) - 1) =
      (if line_end c then strip_loop (s @ NUL # NUL # rest) (int (length s) - 1) else (s @ [c]) @ NUL # rest)"
    by (subst strip_loop.simps) (simp add: line_end_def nth_append)
  show ?case
    unfolding step using snoc.IH [of "NUL # rest"] snoc.prems whole by auto
qed

lemma strip_ends_length: "length (strip_ends s) \<le> length s"
  using length_dropWhile_le [of line_end "rev s"] by (simp add: strip_ends_def)

text \<open>
  The helper that reads a control file gives the text of the file without the line ends at its end, cut to
  one byte less than the buffer, and it stays within the buffer.
\<close>

theorem sysfs_read_buf_strips:
  assumes "buf \<noteq> []" and "NUL \<notin> set content"
  shows "\<exists>buf'. sysfs_read_buf (Some content) buf = (0, buf') \<and> length buf' = length buf \<and>
    buf_string buf' = strip_ends (take (length buf - 1) content)"
proof -
  define s where "s = take (length buf - 1) content"
  have s: "NUL \<notin> set s" using assms(2) in_set_takeD unfolding s_def by metis
  have str: "buf_string (s @ NUL # rest) = s" for rest
    using s by (induction s) (auto simp: buf_string_def)
  have "sysfs_read (Some content) buf = (0, s @ NUL # drop (length s + 1) buf)"
    by (simp add: sysfs_read_def Let_def s_def)
  then have "sysfs_read_buf (Some content) buf =
      (0, strip_loop (s @ NUL # drop (length s + 1) buf) (int (length s) - 1))"
    by (simp add: sysfs_read_buf_def str)
  moreover have "length s + 1 + length (drop (length s + 1) buf) = length buf"
    using assms(1) by (cases buf) (simp_all add: s_def)
  ultimately show ?thesis using strip_loop_eq [OF s] by (auto simp: s_def)
qed

theorem sysfs_read_buf_strips_witness:
  "\<exists>buf'. sysfs_read_buf (Some (''2265600'' @ [newline_char])) (replicate 16 NUL) = (0, buf') \<and> buf_string buf' = ''2265600''"
proof -
  have "strip_ends (''2265600'' @ [newline_char]) = ''2265600''"
    by (simp add: strip_ends_def line_end_def newline_char_def)
  then show ?thesis
    using sysfs_read_buf_strips [of "replicate 16 NUL" "''2265600'' @ [newline_char]"]
    by (auto simp: NUL_def newline_char_def)
qed

text \<open>Waking by double tap is what was asked last, where the panel has the file.\<close>

lemma double_tap_set:
  "works env DOUBLE_TAP_FILE \<Longrightarrow> file_exists env DOUBLE_TAP_FILE \<Longrightarrow>
     set_feature env POWER_FEATURE_DOUBLE_TAP_TO_WAKE state fs DOUBLE_TAP_FILE = Some (if state \<noteq> 0 then ''1'' else ''0'')"
  by (simp add: set_feature_def power_writer.put_same)

end
