(* ===== verification/Camera.thy ===== *)
theory Camera
  imports Loc_Cfg
begin

text \<open>
  \<^verbatim>\<open>camerawrapper/CameraWrapper.cpp\<close>: the module that wraps the camera of the vendor.  It corrects the
  parameters that pass through it, forwards every other call, and keeps the parameter texts it made for the vendor
  in an array that belongs to the module.  The vendor's module and the class \<^verbatim>\<open>CameraParameters\<close> are parameters.
\<close>

section \<open>Libraries\<close>

text \<open>
  The operations and the keys of \<^verbatim>\<open>CameraParameters\<close>, whose objects have the type \<open>'p\<close>.
\<close>

record 'p param_lib =
  p_unflatten :: "string \<Rightarrow> 'p"
  p_flatten :: "'p \<Rightarrow> string"
  p_get :: "'p \<Rightarrow> string \<Rightarrow> string option"
  p_set :: "'p \<Rightarrow> string \<Rightarrow> string \<Rightarrow> 'p"
  p_remove :: "'p \<Rightarrow> string \<Rightarrow> 'p"
  KEY_RECORDING_HINT :: string
  KEY_SUPPORTED_SCENE_MODES :: string
  KEY_FLASH_MODE :: string
  FLASH_MODE_OFF :: string
  KEY_VIDEO_SIZE :: string

text \<open>The calls that the wrapper hands to the vendor; pointers of the framework are numbers.\<close>

datatype preview_call =
  SetPreviewWindow nat | SetCallbacks nat | EnableMsgType int | DisableMsgType int | MsgTypeEnabled int
| StartPreview | StopPreview | PreviewEnabled | StoreMetaData int

datatype picture_call =
  StartRecording | StopRecording | RecordingEnabled | ReleaseRecordingFrame nat
| AutoFocus | CancelAutoFocus | TakePicture | CancelPicture

datatype device_call = SendCommand int int int | Release | Dump int

datatype vendor_call =
  VPreview preview_call | VPicture picture_call | VDevice device_call
| VSetParameters string | VGetParameters | VPutParameters string | VOpen string | VClose

text \<open>What was called on which vendor device, oldest first.\<close>

type_synonym vendor_log = "(nat \<times> vendor_call) list"

text \<open>The vendor: its module, its cameras, and its answers, which may depend on everything it was asked.\<close>

record vendor =
  get_module_result :: int
  num_cameras :: nat
  open_result :: "vendor_log \<Rightarrow> string \<Rightarrow> int \<times> nat"
  call_result :: "vendor_log \<Rightarrow> vendor_call \<Rightarrow> int"
  info_result :: "int \<Rightarrow> int"
  get_result :: "vendor_log \<Rightarrow> string"

section \<open>State\<close>

text \<open>
  The texts on the heap by their addresses; the array \<open>fixed_set_params\<close> (\<open>None\<close> is the null pointer) of
  pointers to them; the open devices of the wrapper.
\<close>

record cam_device =
  cam_id :: int
  cam_vendor :: nat

record cam_state =
  gVendorModule :: bool
  fixed_set_params :: "nat option list option"
  texts :: "nat \<Rightarrow> string option"
  fresh :: nat
  devices :: "nat \<Rightarrow> cam_device option"
  vlog :: vendor_log


definition strdup :: "string \<Rightarrow> cam_state \<Rightarrow> nat \<times> cam_state" where
  "strdup t s = (fresh s, s\<lparr>texts := (texts s)(fresh s \<mapsto> t), fresh := fresh s + 1\<rparr>)"

text \<open>Freeing a text that is not allocated is undefined: \<open>None\<close>.\<close>

definition free_text :: "nat \<Rightarrow> cam_state \<Rightarrow> cam_state option" where
  "free_text a s = (if texts s a = None then None else Some (s\<lparr>texts := (texts s)(a := None)\<rparr>))"

definition log_call :: "nat \<Rightarrow> vendor_call \<Rightarrow> cam_state \<Rightarrow> cam_state" where
  "log_call v c s = s\<lparr>vlog := vlog s @ [(v, c)]\<rparr>"

definition check_vendor_module :: "vendor \<Rightarrow> cam_state \<Rightarrow> int \<times> cam_state" where
  "check_vendor_module vd s =
     (if gVendorModule s then (0, s)
      else (let rv = get_module_result vd in (rv, if rv = 0 then s\<lparr>gVendorModule := True\<rparr> else s)))"

section \<open>Correcting parameters\<close>

definition KEY_EXPOSURE_TIME :: string where "KEY_EXPOSURE_TIME = ''exposure-time''"
definition KEY_EXPOSURE_TIME_VALUES :: string where "KEY_EXPOSURE_TIME_VALUES = ''exposure-time-values''"
definition KEY_SHUTTER_SPEED_VALUES :: string where "KEY_SHUTTER_SPEED_VALUES = ''shutter-speed-values''"
definition KEY_SHUTTER_SPEED :: string where "KEY_SHUTTER_SPEED = ''shutter-speed''"

definition exposureTimeValues :: string where
  "exposureTimeValues = ''0,200,400,667,1000,2000,4000,8000,15625,31250,62500,125000,250000,500000,1000000,2000000,4000000,8000000,16000000,32000000,64000000''"

definition supportedSceneModes :: string where
  "supportedSceneModes = ''auto,asd,landscape,snow,beach,sunset,night,portrait,backlight,sports,steadyphoto,flowers,candlelight,fireworks,party,night-portrait,theatre,action,AR''"

definition unsupported_keys :: "string list" where
  "unsupported_keys =
     [''af-bracket'', ''af-bracket-values'', ''chroma-flash'', ''chroma-flash-values'', ''dis'', ''dis-values'',
      ''opti-zoom'', ''opti-zoom-values'', ''see-more'', ''see-more-values'', ''still-more'', ''still-more-values'',
      ''hfr-size-values'', ''video-hfr-values'']"

definition video_mode :: "'p param_lib \<Rightarrow> 'p \<Rightarrow> bool" where
  "video_mode lib params = (p_get lib params (KEY_RECORDING_HINT lib) = Some ''true'')"

text \<open>The object that \<^verbatim>\<open>camera_fixup_getparams\<close> flattens.\<close>

definition fixed_getparams :: "'p param_lib \<Rightarrow> int \<Rightarrow> 'p \<Rightarrow> 'p" where
  "fixed_getparams lib cam params =
     (let videoMode = video_mode lib params;
          params = fold (\<lambda>k p. p_remove lib p k) unsupported_keys params;
          params = (if \<not> videoMode \<and> cam = 0 then
                      p_set lib (p_set lib params KEY_EXPOSURE_TIME_VALUES exposureTimeValues)
                        KEY_SHUTTER_SPEED_VALUES exposureTimeValues
                    else params)
      in if \<not> videoMode \<and> cam = 1 then p_set lib params (KEY_SUPPORTED_SCENE_MODES lib) supportedSceneModes
         else params)"


text \<open>
  The object that \<^verbatim>\<open>camera_fixup_setparams\<close> flattens; \<open>None\<close> is the comparison of a null pointer, when
  a recording has no size.
\<close>

definition fixed_setparams :: "'p param_lib \<Rightarrow> int \<Rightarrow> 'p \<Rightarrow> 'p option" where
  "fixed_setparams lib cam params =
     (let videoMode = video_mode lib params;
          params = (case p_get lib params KEY_SHUTTER_SPEED of
                      Some v \<Rightarrow> p_set lib params KEY_EXPOSURE_TIME v | None \<Rightarrow> params);
          slowShutterMode = (case p_get lib params KEY_EXPOSURE_TIME of Some v \<Rightarrow> v \<noteq> ''0'' | None \<Rightarrow> False);
          fixed = (if \<not> videoMode then
                     Some (if cam = 0 \<and> slowShutterMode then p_set lib params (KEY_FLASH_MODE lib) (FLASH_MODE_OFF lib)
                           else params)
                   else (case p_get lib params (KEY_VIDEO_SIZE lib) of
                           None \<Rightarrow> None
                         | Some video_size \<Rightarrow>
                             let params = (if video_size = ''4096x2160'' \<or> video_size = ''3840x2160''
                                           then p_set lib params ''preview-format'' ''nv12-venus'' else params)
                             in Some (p_set lib params ''preview-size'' video_size)))
      in map_option (\<lambda>params. p_set lib params ''oppo-app'' ''1'') fixed)"

text \<open>The array is indexed by the camera: outside it, or without it, the access is undefined.\<close>

definition camera_fixup_setparams :: "'p param_lib \<Rightarrow> int \<Rightarrow> string \<Rightarrow> cam_state \<Rightarrow> (nat \<times> cam_state) option" where
  "camera_fixup_setparams lib cam settings s =
     Option.bind (fixed_setparams lib cam (p_unflatten lib settings)) (\<lambda>params.
       case fixed_set_params s of
         None \<Rightarrow> None
       | Some arr \<Rightarrow>
           if 0 \<le> cam \<and> nat cam < length arr then
             Option.bind (case arr ! nat cam of Some a \<Rightarrow> free_text a s | None \<Rightarrow> Some s) (\<lambda>s.
               let (a, s) = strdup (p_flatten lib params) s
               in Some (a, s\<lparr>fixed_set_params := Some (arr[nat cam := Some a])\<rparr>))
           else None)"

section \<open>The operations of a device\<close>

text \<open>
  A call on a device: the result when there is no device (\<open>None\<close> for functions without a result), else the
  vendor's.  A device that is not open is a dangling pointer.  The log messages before the test of the device are
  those of a build without verbose logging, where they do not evaluate the device.
\<close>

definition on_vendor :: "vendor \<Rightarrow> nat \<Rightarrow> vendor_call \<Rightarrow> cam_state \<Rightarrow> (int \<times> cam_state) option" where
  "on_vendor vd d c s =
     (case devices s d of
        None \<Rightarrow> None
      | Some w \<Rightarrow> Some (call_result vd (vlog s) c, log_call (cam_vendor w) c s))"








definition camera_set_parameters :: "'p param_lib \<Rightarrow> vendor \<Rightarrow> nat option \<Rightarrow> string \<Rightarrow> cam_state \<Rightarrow> (int \<times> cam_state) option" where
  "camera_set_parameters lib vd device params s =
     (case device of
        None \<Rightarrow> Some (- EINVAL, s)
      | Some d \<Rightarrow>
          (case devices s d of
             None \<Rightarrow> None
           | Some w \<Rightarrow>
               Option.bind (camera_fixup_setparams lib (cam_id w) params s) (\<lambda>(tmp, s).
                 Option.bind (texts s tmp) (\<lambda>t. on_vendor vd d (VSetParameters t) s))))"



section \<open>Opening and closing\<close>

definition camera_get_number_of_cameras :: "vendor \<Rightarrow> cam_state \<Rightarrow> nat \<times> cam_state" where
  "camera_get_number_of_cameras vd s =
     (let (rv, s) = check_vendor_module vd s in (if rv \<noteq> 0 then 0 else num_cameras vd, s))"

definition camera_get_camera_info :: "vendor \<Rightarrow> int \<Rightarrow> cam_state \<Rightarrow> int \<times> cam_state" where
  "camera_get_camera_info vd camera_id s =
     (let (rv, s) = check_vendor_module vd s in (if rv \<noteq> 0 then 0 else info_result vd camera_id, s))"

text \<open>The texts of every camera are freed; the pointers stay in the array.\<close>

fun free_fixed :: "nat option list \<Rightarrow> cam_state \<Rightarrow> cam_state option" where
  "free_fixed [] s = Some s"
| "free_fixed (None # ps) s = free_fixed ps s"
| "free_fixed (Some a # ps) s = Option.bind (free_text a s) (free_fixed ps)"

definition camera_device_close :: "vendor \<Rightarrow> nat option \<Rightarrow> cam_state \<Rightarrow> (int \<times> cam_state) option" where
  "camera_device_close vd device s =
     (case device of
        None \<Rightarrow> Some (- EINVAL, s)
      | Some d \<Rightarrow>
          (let (n, s) = camera_get_number_of_cameras vd s
           in Option.bind
                (if n = 0 then Some s
                 else (case fixed_set_params s of
                         None \<Rightarrow> None
                       | Some arr \<Rightarrow> if n \<le> length arr then free_fixed (take n arr) s else None))
                (\<lambda>s. case devices s d of
                        None \<Rightarrow> None
                      | Some w \<Rightarrow> Some (0, (log_call (cam_vendor w) VClose s)\<lparr>devices := (devices s)(d := None)\<rparr>))))"

text \<open>
  The three flags are the results of the allocations.  The middle of the result is what is stored through
  \<open>device\<close>: nothing (\<open>None\<close>), the null pointer (\<open>Some None\<close>), or the device.
\<close>

definition camera_device_open ::
    "vendor \<Rightarrow> bool \<Rightarrow> bool \<Rightarrow> bool \<Rightarrow> string option \<Rightarrow> cam_state \<Rightarrow> int \<times> nat option option \<times> cam_state" where
  "camera_device_open vd params_alloc device_alloc ops_alloc name s =
     (case name of
        None \<Rightarrow> (0, None, s)
      | Some nm \<Rightarrow>
          (let (rv, s) = check_vendor_module vd s
           in if rv \<noteq> 0 then (- EINVAL, None, s)
              else if \<not> params_alloc then (- ENOMEM, Some None, s\<lparr>fixed_set_params := None\<rparr>)
              else
                (let cameraid = atoi nm; num = num_cameras vd;
                     s = s\<lparr>fixed_set_params := Some (replicate num None)\<rparr>
                 in if cameraid > int num then (- EINVAL, Some None, s)
                    else if \<not> device_alloc then (- ENOMEM, Some None, s)
                    else
                      (let (rv, v) = open_result vd (vlog s) nm; s = log_call v (VOpen nm) s
                       in if rv \<noteq> 0 then (rv, Some None, s)
                          else if \<not> ops_alloc then (- ENOMEM, Some None, s)
                          else (0, Some (Some (fresh s)),
                                s\<lparr>devices := (devices s)(fresh s \<mapsto> \<lparr>cam_id = cameraid, cam_vendor = v\<rparr>),
                                   fresh := fresh s + 1\<rparr>)))))"

section \<open>What the corrections do\<close>

text \<open>
  What the library documents: a value that is stored is found again, if it has none of the two separators, and
  the other keys keep theirs; its keys differ from each other and from those that the wrapper names.
\<close>

definition clean :: "string \<Rightarrow> bool" where
  "clean v = (CHR ''='' \<notin> set v \<and> CHR '';'' \<notin> set v)"

definition wrapper_keys :: "string list" where
  "wrapper_keys = [KEY_EXPOSURE_TIME, KEY_SHUTTER_SPEED, KEY_EXPOSURE_TIME_VALUES, KEY_SHUTTER_SPEED_VALUES,
     ''preview-format'', ''preview-size'', ''oppo-app'']"

definition param_laws :: "'p param_lib \<Rightarrow> bool" where
  "param_laws lib \<longleftrightarrow>
     (\<forall>p k v. clean v \<longrightarrow> p_get lib (p_set lib p k v) k = Some v) \<and>
     (\<forall>p k k' v. k' \<noteq> k \<longrightarrow> p_get lib (p_set lib p k v) k' = p_get lib p k') \<and>
     (\<forall>p k. p_get lib (p_remove lib p k) k = None) \<and>
     (\<forall>p k k'. k' \<noteq> k \<longrightarrow> p_get lib (p_remove lib p k) k' = p_get lib p k') \<and>
     (\<forall>p k v. p_get lib p k = Some v \<longrightarrow> clean v) \<and> clean (FLASH_MODE_OFF lib) \<and>
     distinct ([KEY_RECORDING_HINT lib, KEY_SUPPORTED_SCENE_MODES lib, KEY_FLASH_MODE lib, KEY_VIDEO_SIZE lib]
               @ wrapper_keys @ unsupported_keys)"

lemma param_lawsD:
  assumes "param_laws lib"
  shows "clean v \<Longrightarrow> p_get lib (p_set lib p k v) k = Some v"
    and "k' \<noteq> k \<Longrightarrow> p_get lib (p_set lib p k v) k' = p_get lib p k'"
    and "p_get lib (p_remove lib p k) k = None"
    and "k' \<noteq> k \<Longrightarrow> p_get lib (p_remove lib p k) k' = p_get lib p k'"
    and "p_get lib p k = Some v \<Longrightarrow> clean v" and "clean (FLASH_MODE_OFF lib)"
    and "distinct [KEY_RECORDING_HINT lib, KEY_SUPPORTED_SCENE_MODES lib, KEY_FLASH_MODE lib, KEY_VIDEO_SIZE lib]"
    and "set [KEY_RECORDING_HINT lib, KEY_SUPPORTED_SCENE_MODES lib, KEY_FLASH_MODE lib, KEY_VIDEO_SIZE lib]
      \<inter> set (wrapper_keys @ unsupported_keys) = {}"
  using assms unfolding param_laws_def by (blast, blast, blast, blast, blast, blast, simp, auto)

lemma get_set:
  "param_laws lib \<Longrightarrow> clean v \<Longrightarrow> p_get lib (p_set lib p k v) k' = (if k' = k then Some v else p_get lib p k')"
  by (auto simp: param_lawsD(1,2))

lemmas wrapper_key_defs = KEY_EXPOSURE_TIME_def KEY_SHUTTER_SPEED_def KEY_EXPOSURE_TIME_VALUES_def KEY_SHUTTER_SPEED_VALUES_def

lemma param_keys:
  assumes "param_laws lib"
  shows "KEY_FLASH_MODE lib \<notin> set wrapper_keys" "KEY_VIDEO_SIZE lib \<notin> set wrapper_keys"
    "KEY_RECORDING_HINT lib \<notin> set wrapper_keys" "KEY_SUPPORTED_SCENE_MODES lib \<notin> set wrapper_keys"
    "KEY_FLASH_MODE lib \<noteq> KEY_VIDEO_SIZE lib" "KEY_FLASH_MODE lib \<noteq> KEY_RECORDING_HINT lib"
    "KEY_SUPPORTED_SCENE_MODES lib \<notin> set unsupported_keys"
  using param_lawsD(7,8) [OF assms] by auto

lemma clean_literals: "clean ''1''" "clean ''nv12-venus''" "clean exposureTimeValues" "clean supportedSceneModes"
  by (simp_all add: clean_def exposureTimeValues_def supportedSceneModes_def)


text \<open>A library that meets the laws: finite maps, whose values are read only when they are clean.\<close>

definition example_params :: "string \<rightharpoonup> string" where
  "example_params = [''recording-hint'' \<mapsto> ''false'', ''shutter-speed'' \<mapsto> ''500000'', ''flash-mode'' \<mapsto> ''on'']"

definition example_lib :: "(string \<rightharpoonup> string) param_lib" where
  "example_lib =
     \<lparr>p_unflatten = (\<lambda>_. example_params), p_flatten = (\<lambda>_. ''flat''),
      p_get = (\<lambda>p k. case p k of Some v \<Rightarrow> if clean v then Some v else None | None \<Rightarrow> None),
      p_set = (\<lambda>p k v. p(k \<mapsto> v)), p_remove = (\<lambda>p k. p(k := None)),
      KEY_RECORDING_HINT = ''recording-hint'', KEY_SUPPORTED_SCENE_MODES = ''scene-mode-values'',
      KEY_FLASH_MODE = ''flash-mode'', FLASH_MODE_OFF = ''off'', KEY_VIDEO_SIZE = ''video-size''\<rparr>"

lemma example_lib_laws: "param_laws example_lib"
proof -
  have "clean ''off''" by (simp add: clean_def)
  moreover have "distinct ([KEY_RECORDING_HINT example_lib, KEY_SUPPORTED_SCENE_MODES example_lib,
      KEY_FLASH_MODE example_lib, KEY_VIDEO_SIZE example_lib] @ wrapper_keys @ unsupported_keys)"
    by (simp add: example_lib_def wrapper_keys_def unsupported_keys_def wrapper_key_defs)
  ultimately show ?thesis
    unfolding param_laws_def by (simp add: example_lib_def split: option.splits if_splits)
qed



lemma get_removed:
  "param_laws lib \<Longrightarrow> p_get lib (fold (\<lambda>k p. p_remove lib p k) ks p) k = (if k \<in> set ks then None else p_get lib p k)"
proof (induction ks arbitrary: p)
  case (Cons j ks)
  then show ?case using param_lawsD(3,4) [OF Cons.prems] by (cases "k = j") simp_all
qed simp

text \<open>
  What the framework gets of the parameters of the vendor: none of the unsupported features; for photographs the
  exposure times of the back camera and the scene modes of the front camera; and every other key as it was.
\<close>

theorem camera_getparams_effect:
  assumes "param_laws lib"
  shows "let q = fixed_getparams lib cam p; photo = (\<not> video_mode lib p) in
    (\<forall>k \<in> set unsupported_keys. p_get lib q k = None) \<and>
    (\<forall>k \<in> {KEY_EXPOSURE_TIME_VALUES, KEY_SHUTTER_SPEED_VALUES}.
       p_get lib q k = (if photo \<and> cam = 0 then Some exposureTimeValues else p_get lib p k)) \<and>
    p_get lib q (KEY_SUPPORTED_SCENE_MODES lib) =
      (if photo \<and> cam = 1 then Some supportedSceneModes else p_get lib p (KEY_SUPPORTED_SCENE_MODES lib)) \<and>
    (\<forall>k. k \<notin> set unsupported_keys \<union> {KEY_EXPOSURE_TIME_VALUES, KEY_SHUTTER_SPEED_VALUES, KEY_SUPPORTED_SCENE_MODES lib} \<longrightarrow>
       p_get lib q k = p_get lib p k)"
proof -
  define r where "r = fold (\<lambda>k p. p_remove lib p k) unsupported_keys p"
  have r: "p_get lib r k = (if k \<in> set unsupported_keys then None else p_get lib p k)" for k
    unfolding r_def by (rule get_removed [OF assms])
  have q: "fixed_getparams lib cam p =
      (if \<not> video_mode lib p \<and> cam = 0 then
         p_set lib (p_set lib r KEY_EXPOSURE_TIME_VALUES exposureTimeValues) KEY_SHUTTER_SPEED_VALUES exposureTimeValues
       else if \<not> video_mode lib p \<and> cam = 1 then p_set lib r (KEY_SUPPORTED_SCENE_MODES lib) supportedSceneModes else r)"
    by (simp add: fixed_getparams_def Let_def r_def)
  have named: "KEY_EXPOSURE_TIME_VALUES \<notin> set unsupported_keys" "KEY_SHUTTER_SPEED_VALUES \<notin> set unsupported_keys"
    "KEY_EXPOSURE_TIME_VALUES \<noteq> KEY_SHUTTER_SPEED_VALUES" "KEY_SUPPORTED_SCENE_MODES lib \<noteq> KEY_EXPOSURE_TIME_VALUES"
    "KEY_SUPPORTED_SCENE_MODES lib \<noteq> KEY_SHUTTER_SPEED_VALUES"
    using param_keys(4) [OF assms] by (auto simp: unsupported_keys_def wrapper_key_defs wrapper_keys_def)
  note sets = get_set [OF assms clean_literals(3)] get_set [OF assms clean_literals(4)] r
  show ?thesis
    unfolding q Let_def using named param_keys(7) [OF assms] by (auto simp: sets simp del: One_nat_def)
qed

theorem camera_getparams_effect_witness:
  "p_get example_lib (fixed_getparams example_lib 0 example_params) ''hfr-size-values'' = None \<and>
   p_get example_lib (fixed_getparams example_lib 0 example_params) KEY_SHUTTER_SPEED_VALUES = Some exposureTimeValues"
proof -
  have "''hfr-size-values'' \<in> set unsupported_keys" by (simp add: unsupported_keys_def)
  moreover have "\<not> video_mode example_lib example_params"
    by (simp add: example_lib_def example_params_def clean_def video_mode_def)
  ultimately show ?thesis
    using camera_getparams_effect [OF example_lib_laws, of 0 example_params] by (simp add: Let_def)
qed

section \<open>Sessions\<close>








definition texts_are :: "nat list \<Rightarrow> cam_state \<Rightarrow> bool" where
  "texts_are as s \<longleftrightarrow> distinct as \<and> (\<forall>a. (texts s a \<noteq> None) = (a \<in> set as)) \<and> (\<forall>a \<in> set as. a < fresh s)"

definition opened_as :: "vendor \<Rightarrow> nat \<Rightarrow> nat option \<Rightarrow> cam_state \<Rightarrow> bool" where
  "opened_as vd d q s \<longleftrightarrow> gVendorModule s \<and>
     (\<exists>w. devices s d = Some w \<and> 0 \<le> cam_id w \<and> nat (cam_id w) < num_cameras vd \<and>
        fixed_set_params s = Some ((replicate (num_cameras vd) None)[nat (cam_id w) := q]))"





lemma free_fixed_single:
  "free_fixed ((replicate n None)[i := q]) s =
     (if i < n then (case q of Some a \<Rightarrow> free_text a s | None \<Rightarrow> Some s) else Some s)"
proof (induction n arbitrary: i)
  case (Suc n)
  have none: "free_fixed (replicate n None) s = Some s" for n s by (induction n) simp_all
  show ?case
  proof (cases i)
    case 0
    have "Option.bind (free_text a s) (free_fixed (replicate n None)) = free_text a s" for a
      by (cases "free_text a s") (simp_all add: none)
    then show ?thesis using 0 none by (cases q) simp_all
  qed (simp add: Suc.IH)
qed simp

section \<open>One-camera sessions are safe\<close>















section \<open>Where the wrapper fails\<close>

text \<open>
  The number of a camera is compared with \<open>>\<close>: one past the end is opened when the vendor agrees, and its
  parameters are written outside the array.
\<close>

lemma open_one_past_end:
  assumes "gVendorModule s" and "atoi nm = int (num_cameras vd)" and "open_result vd (vlog s) nm = (0, v)"
  shows "\<exists>s'. camera_device_open vd True True True (Some nm) s = (0, Some (Some (fresh s)), s') \<and>
    camera_set_parameters lib vd (Some (fresh s)) t s' = None"
proof -
  have outside: "camera_fixup_setparams lib (int (num_cameras vd)) t s' = None"
    if "fixed_set_params s' = Some (replicate (num_cameras vd) None)" for s'
    using that by (cases "fixed_setparams lib (int (num_cameras vd)) (p_unflatten lib t)")
      (simp_all add: camera_fixup_setparams_def)
  then show ?thesis
    using assms by (simp add: camera_device_open_def check_vendor_module_def log_call_def camera_set_parameters_def Let_def)
qed

text \<open>Closing frees the texts of all cameras and keeps the pointers: closing a second open camera frees them again.\<close>

lemma second_close_frees_again:
  assumes "opened_as vd d (Some a) s" and "texts_are (a # as) s"
    and "camera_device_close vd (Some d) s = Some (r, s')"
  shows "camera_device_close vd (Some d2) s' = None"
proof -
  obtain w where w: "devices s d = Some w" "nat (cam_id w) < num_cameras vd"
    "fixed_set_params s = Some ((replicate (num_cameras vd) None)[nat (cam_id w) := Some a])" "gVendorModule s"
    using assms(1) by (auto simp: opened_as_def)
  have "texts s a \<noteq> None" using assms(2) by (simp add: texts_are_def)
  then have "gVendorModule s'" "fixed_set_params s' = fixed_set_params s" "texts s' a = None"
    using assms(3) w
    by (auto simp: camera_device_close_def camera_get_number_of_cameras_def check_vendor_module_def free_fixed_single
        free_text_def log_call_def)
  then show ?thesis
    using w by (auto simp: camera_device_close_def camera_get_number_of_cameras_def check_vendor_module_def
        free_fixed_single free_text_def)
qed

text \<open>A recording without a size compares a null pointer.\<close>

lemma recording_without_size_faults:
  assumes "param_laws lib" and "video_mode lib p" and "p_get lib p (KEY_VIDEO_SIZE lib) = None"
  shows "fixed_setparams lib cam p = None"
proof -
  have "KEY_VIDEO_SIZE lib \<noteq> KEY_EXPOSURE_TIME" using param_keys(2) [OF assms(1)] by (auto simp: wrapper_keys_def)
  then have "p_get lib (p_set lib p KEY_EXPOSURE_TIME v) (KEY_VIDEO_SIZE lib) = None" for v
    using assms(3) param_lawsD(2) [OF assms(1)] by simp
  then show ?thesis using assms(2,3) by (auto simp: fixed_setparams_def Let_def split: option.splits)
qed

end
