(* ===== verification/Cryptfs.thy ===== *)
theory Cryptfs
  imports Dtb_Tool
begin

text \<open>
  \<^verbatim>\<open>cryptfs_hw/cryptfs_hw.c\<close>: the keys of the disk encryption in hardware.  The functions that hold the keys
  are those of a vendor library, which is loaded on demand; they are a parameter, and so are the files, the
  properties and the keystore module of the device.
\<close>

section \<open>Environment and state\<close>

definition ERR_MAX_PASSWORD_ATTEMPTS :: int where "ERR_MAX_PASSWORD_ATTEMPTS = - 10"
definition QSEECOM_DISK_ENCRYPTION :: int where "QSEECOM_DISK_ENCRYPTION = 1"
definition QSEECOM_UFS_ICE_DISK_ENCRYPTION :: int where "QSEECOM_UFS_ICE_DISK_ENCRYPTION = 3"
definition QSEECOM_SDCC_ICE_DISK_ENCRYPTION :: int where "QSEECOM_SDCC_ICE_DISK_ENCRYPTION = 4"
definition MAX_PASSWORD_LEN :: nat where "MAX_PASSWORD_LEN = 32"
definition QTI_ICE_STORAGE_UFS :: int where "QTI_ICE_STORAGE_UFS = 1"
definition QTI_ICE_STORAGE_SDCC :: int where "QTI_ICE_STORAGE_SDCC = 2"
definition SET_HW_DISK_ENC_KEY :: int where "SET_HW_DISK_ENC_KEY = 1"
definition UPDATE_HW_DISK_ENC_KEY :: int where "UPDATE_HW_DISK_ENC_KEY = 2"
definition MAX_DEVICE_ID_LENGTH :: nat where "MAX_DEVICE_ID_LENGTH = 4"

definition cpu_id :: "u32 list" where
  "cpu_id = [239]"

definition KEYMASTER_PARTITION_NAME :: string where
  "KEYMASTER_PARTITION_NAME = ''/dev/block/bootdevice/by-name/keymaster''"

text \<open>What happens outside: calls of the library with their results, and the wipe through the recovery.\<close>

datatype crypt_event =
  CreateKey int string int
| UpdateKey int string string int
| WipeKey int int
| RecoveryCommand string
| RebootRecovery

type_synonym crypt_log = "crypt_event list"

text \<open>
  The library may be missing (\<open>lib_found\<close>) or lack a symbol; its functions may answer anything, depending on
  all that happened before.
\<close>

record crypt_env =
  lib_found :: bool
  symbol_found :: "string \<Rightarrow> bool"
  create_result :: "crypt_log \<Rightarrow> int \<Rightarrow> string \<Rightarrow> int"
  update_result :: "crypt_log \<Rightarrow> int \<Rightarrow> string \<Rightarrow> string \<Rightarrow> int"
  wipe_result :: "crypt_log \<Rightarrow> int \<Rightarrow> int"
  bootdevice :: "string option"
  accessible :: "string \<Rightarrow> bool"
  file_bytes :: "string \<Rightarrow> string option"
  keystore_module :: "int + int"
  KEYMASTER_MODULE_API_VERSION_1_0 :: int

record crypt_state =
  loaded_library :: bool
  crypt_log :: crypt_log

definition happens :: "crypt_event \<Rightarrow> crypt_state \<Rightarrow> crypt_state" where
  "happens e s = s\<lparr>crypt_log := crypt_log s @ [e]\<rparr>"

section \<open>Translation\<close>

definition is_ice_enabled :: "crypt_env \<Rightarrow> int" where
  "is_ice_enabled env =
     (case bootdevice env of
        None \<Rightarrow> 0
      | Some prop_storage \<Rightarrow>
          if prop_storage = [] then 0
          else if strstr prop_storage ''ufs'' \<noteq> None then QTI_ICE_STORAGE_UFS
          else if strstr prop_storage ''sdhc'' \<noteq> None \<and> accessible env ''/dev/icesdcc'' then QTI_ICE_STORAGE_SDCC
          else 0)"

definition map_usage :: "crypt_env \<Rightarrow> int \<Rightarrow> int" where
  "map_usage env usage =
     (let storage_type = is_ice_enabled env
      in if usage = QSEECOM_DISK_ENCRYPTION then
           (if storage_type = QTI_ICE_STORAGE_UFS then QSEECOM_UFS_ICE_DISK_ENCRYPTION
            else if storage_type = QTI_ICE_STORAGE_SDCC then QSEECOM_SDCC_ICE_DISK_ENCRYPTION
            else usage)
         else usage)"

text \<open>A buffer of 32 bytes, filled with zeros behind the password; \<open>alloc\<close> is the result of its allocation.\<close>

definition get_tmp_passwd :: "bool \<Rightarrow> string option \<Rightarrow> string option" where
  "get_tmp_passwd alloc passwd =
     (case passwd of
        None \<Rightarrow> None
      | Some p \<Rightarrow>
          if alloc then
            (let passwd_len = (if length p > MAX_PASSWORD_LEN then MAX_PASSWORD_LEN else length p)
             in Some (take passwd_len p @ replicate (MAX_PASSWORD_LEN - passwd_len) CHR 0x00))
          else None)"

text \<open>\<open>can_open\<close>: whether the command file of the recovery can be opened.\<close>

definition wipe_userdata :: "bool \<Rightarrow> crypt_state \<Rightarrow> crypt_state" where
  "wipe_userdata can_open s =
     happens RebootRecovery (if can_open then happens (RecoveryCommand (''--wipe_data'' @ [CHR 0x00])) s else s)"

definition load_qseecom_library :: "crypt_env \<Rightarrow> crypt_state \<Rightarrow> bool \<times> crypt_state" where
  "load_qseecom_library env s =
     (if loaded_library s then (True, s)
      else if lib_found env \<and> symbol_found env ''QSEECom_create_key'' \<and>
              symbol_found env ''QSEECom_update_key_user_info'' \<and> symbol_found env ''QSEECom_wipe_key''
           then (True, s\<lparr>loaded_library := True\<rparr>)
           else (False, s))"

definition is_hw_disk_encryption :: "string option \<Rightarrow> bool" where
  "is_hw_disk_encryption encryption_mode = (encryption_mode = Some ''aes-xts'')"

definition set_key :: "crypt_env \<Rightarrow> bool \<Rightarrow> bool \<Rightarrow> bool \<Rightarrow> string option \<Rightarrow> string option \<Rightarrow> string option \<Rightarrow> int
    \<Rightarrow> crypt_state \<Rightarrow> int \<times> crypt_state" where
  "set_key env can_open alloc1 alloc2 currentpasswd passwd enc_mode operation s =
     (if \<not> is_hw_disk_encryption enc_mode then (- 1, s)
      else (case load_qseecom_library env s of
        (loaded, s) \<Rightarrow>
          if \<not> loaded then (- 1, s)
          else (case get_tmp_passwd alloc1 passwd of
              None \<Rightarrow> (- 1, s)
            | Some tmp_passwd \<Rightarrow>
                (let u = map_usage env QSEECOM_DISK_ENCRYPTION;
                     (err, s) =
                       (if operation = UPDATE_HW_DISK_ENC_KEY then
                          (case get_tmp_passwd alloc2 currentpasswd of
                             None \<Rightarrow> (- 1, s)
                           | Some tmp_currentpasswd \<Rightarrow>
                               let r = update_result env (crypt_log s) u tmp_currentpasswd tmp_passwd
                               in (r, happens (UpdateKey u tmp_currentpasswd tmp_passwd r) s))
                        else if operation = SET_HW_DISK_ENC_KEY then
                          (let r = create_result env (crypt_log s) u tmp_passwd in (r, happens (CreateKey u tmp_passwd r) s))
                        else (- 1, s))
                 in (err, if err < 0 \<and> ERR_MAX_PASSWORD_ATTEMPTS = err then wipe_userdata can_open s else s)))))"

definition set_hw_device_encryption_key ::
    "crypt_env \<Rightarrow> bool \<Rightarrow> bool \<Rightarrow> string option \<Rightarrow> string option \<Rightarrow> crypt_state \<Rightarrow> int \<times> crypt_state" where
  "set_hw_device_encryption_key env can_open alloc passwd enc_mode s =
     set_key env can_open alloc True None passwd enc_mode SET_HW_DISK_ENC_KEY s"

definition update_hw_device_encryption_key ::
    "crypt_env \<Rightarrow> bool \<Rightarrow> bool \<Rightarrow> bool \<Rightarrow> string option \<Rightarrow> string option \<Rightarrow> string option \<Rightarrow> crypt_state
      \<Rightarrow> int \<times> crypt_state" where
  "update_hw_device_encryption_key env can_open alloc1 alloc2 oldpw newpw enc_mode s =
     set_key env can_open alloc1 alloc2 oldpw newpw enc_mode UPDATE_HW_DISK_ENC_KEY s"

definition clear_hw_device_encryption_key :: "crypt_env \<Rightarrow> crypt_state \<Rightarrow> int \<times> crypt_state" where
  "clear_hw_device_encryption_key env s =
     (case load_qseecom_library env s of
        (loaded, s) \<Rightarrow>
          if loaded then
            (let u = map_usage env QSEECOM_DISK_ENCRYPTION; r = wipe_result env (crypt_log s) u
             in (r, happens (WipeKey u r) s))
          else (0, s))"

text \<open>
  The identifier of the chip is read into four bytes that are not ended by a zero: the number is read on in
  what follows them in memory (\<open>garbage\<close> stands for the buffer and what is behind it).
\<close>

definition is_hw_fde_enabled_sw :: "crypt_env \<Rightarrow> string \<Rightarrow> bool" where
  "is_hw_fde_enabled_sw env garbage =
     (let bytes = (case file_bytes env ''/sys/devices/soc0/soc_id'' of
                     Some b \<Rightarrow> take MAX_DEVICE_ID_LENGTH b
                   | None \<Rightarrow> (case file_bytes env ''/sys/devices/system/soc/soc0/id'' of
                       Some b \<Rightarrow> take MAX_DEVICE_ID_LENGTH b | None \<Rightarrow> []))
      in if bytes = [] then True
         else word_of_int (atoi (bytes @ drop (length bytes) garbage)) \<notin> set cpu_id)"

text \<open>Without the software variant the hardware encryption is always on.\<close>

definition is_hw_fde_enabled :: "bool \<Rightarrow> crypt_env \<Rightarrow> string \<Rightarrow> bool" where
  "is_hw_fde_enabled swv8 env garbage = (if swv8 then is_hw_fde_enabled_sw env garbage else True)"

text \<open>\<open>Inl\<close> is the error of the search for the module, \<open>Inr\<close> the version that it reports.\<close>

definition get_keymaster_version :: "crypt_env \<Rightarrow> int" where
  "get_keymaster_version env = (case keystore_module env of Inl rc \<Rightarrow> rc | Inr version \<Rightarrow> version)"

definition should_use_keymaster :: "crypt_env \<Rightarrow> int" where
  "should_use_keymaster env =
     (if get_keymaster_version env \<noteq> KEYMASTER_MODULE_API_VERSION_1_0 env then 0
      else if \<not> accessible env KEYMASTER_PARTITION_NAME then 0
      else 1)"

section \<open>Passwords\<close>

definition password_ok :: "string \<Rightarrow> bool" where
  "password_ok p \<longleftrightarrow> length p \<le> MAX_PASSWORD_LEN \<and> CHR 0x00 \<notin> set p"

lemma takeWhile_padded: "c \<notin> set p \<Longrightarrow> takeWhile (\<lambda>x. x \<noteq> c) (p @ replicate n c) = p"
proof -
  assume "c \<notin> set p"
  moreover have "takeWhile (\<lambda>x. x \<noteq> c) (replicate n c) = []" by (cases n) simp_all
  ultimately show ?thesis by (induction p) auto
qed

text \<open>
  The key material is 32 bytes whatever the password; passwords of at most 32 characters can be read back from it,
  so different ones give different keys, and of a longer password only the first 32 characters count.
\<close>

theorem tmp_passwd_roundtrip:
  assumes "get_tmp_passwd True (Some p) = Some b"
  shows "length b = MAX_PASSWORD_LEN \<and> (password_ok p \<longrightarrow> takeWhile (\<lambda>c. c \<noteq> CHR 0x00) b = p) \<and>
    get_tmp_passwd True (Some (take MAX_PASSWORD_LEN p)) = Some b"
  using assms by (auto simp: get_tmp_passwd_def Let_def password_ok_def takeWhile_padded min_def split: if_splits)

theorem tmp_passwd_roundtrip_witness:
  "\<exists>b. get_tmp_passwd True (Some ''1234'') = Some b \<and> length b = 32 \<and> takeWhile (\<lambda>c. c \<noteq> CHR 0x00) b = ''1234''"
proof -
  obtain b where b: "get_tmp_passwd True (Some ''1234'') = Some b" by (simp add: get_tmp_passwd_def Let_def)
  then show ?thesis using tmp_passwd_roundtrip [OF b] by (simp add: password_ok_def MAX_PASSWORD_LEN_def)
qed

section \<open>Runs\<close>

datatype crypt_request =
  CallSet bool bool "string option" "string option"
| CallUpdate bool bool bool "string option" "string option" "string option"
| CallClear

fun crypt_call :: "crypt_env \<Rightarrow> crypt_request \<Rightarrow> crypt_state \<Rightarrow> int \<times> crypt_state" where
  "crypt_call env (CallSet o1 a1 pw mode) s = set_hw_device_encryption_key env o1 a1 pw mode s"
| "crypt_call env (CallUpdate o1 a1 a2 old pw mode) s = update_hw_device_encryption_key env o1 a1 a2 old pw mode s"
| "crypt_call env CallClear s = clear_hw_device_encryption_key env s"

definition crypt_run :: "crypt_env \<Rightarrow> crypt_request list \<Rightarrow> crypt_state \<Rightarrow> crypt_state" where
  "crypt_run env cs s = fold (\<lambda>c s. snd (crypt_call env c s)) cs s"

definition crypt_start :: crypt_state where
  "crypt_start = \<lparr>loaded_library = False, crypt_log = []\<rparr>"

text \<open>What one call of the module may add to the log.\<close>

definition wipe_events :: "bool \<Rightarrow> crypt_log" where
  "wipe_events can_open = (if can_open then [RecoveryCommand (''--wipe_data'' @ [CHR 0x00])] else []) @ [RebootRecovery]"

inductive crypt_entry :: "crypt_env \<Rightarrow> crypt_log \<Rightarrow> bool" for env where
  none: "crypt_entry env []"
| clear: "crypt_entry env [WipeKey (map_usage env QSEECOM_DISK_ENCRYPTION) r]"
| create: "length pw = MAX_PASSWORD_LEN \<Longrightarrow>
     crypt_entry env (CreateKey (map_usage env QSEECOM_DISK_ENCRYPTION) pw r #
       (if r = ERR_MAX_PASSWORD_ATTEMPTS then wipe_events can_open else []))"
| update: "length old = MAX_PASSWORD_LEN \<Longrightarrow> length pw = MAX_PASSWORD_LEN \<Longrightarrow>
     crypt_entry env (UpdateKey (map_usage env QSEECOM_DISK_ENCRYPTION) old pw r #
       (if r = ERR_MAX_PASSWORD_ATTEMPTS then wipe_events can_open else []))"

lemma tmp_passwd_length: "get_tmp_passwd a p = Some b \<Longrightarrow> length b = MAX_PASSWORD_LEN"
  by (auto simp: get_tmp_passwd_def Let_def split: option.splits if_splits)

lemma wipe_log: "crypt_log (wipe_userdata can_open s) = crypt_log s @ wipe_events can_open"
  by (simp add: wipe_userdata_def wipe_events_def happens_def)

lemma loaded_wipe [simp]: "loaded_library (wipe_userdata can_open s) = loaded_library s"
  by (simp add: wipe_userdata_def happens_def)

definition lib_complete :: "crypt_env \<Rightarrow> bool" where
  "lib_complete env \<longleftrightarrow> lib_found env \<and> symbol_found env ''QSEECom_create_key'' \<and>
     symbol_found env ''QSEECom_update_key_user_info'' \<and> symbol_found env ''QSEECom_wipe_key''"

lemma load_cases:
  "load_qseecom_library env s = (r, t) \<Longrightarrow> loaded_library s \<longrightarrow> lib_complete env \<Longrightarrow>
     crypt_log t = crypt_log s \<and> (r \<longrightarrow> lib_complete env) \<and> (loaded_library t \<longrightarrow> lib_complete env)"
  by (auto simp: load_qseecom_library_def lib_complete_def split: if_splits)

lemma set_key_entry:
  assumes "set_key env o1 a1 a2 old pw mode operation s = (r, t)" and "loaded_library s \<longrightarrow> lib_complete env"
  shows "\<exists>l. crypt_log t = crypt_log s @ l \<and> crypt_entry env l \<and>
    (l \<noteq> [] \<longrightarrow> lib_complete env \<and> is_hw_disk_encryption mode) \<and> (loaded_library t \<longrightarrow> lib_complete env)"
proof -
  obtain loaded u where load: "load_qseecom_library env s = (loaded, u)" by fastforce
  note l = load_cases [OF load assms(2)]
  consider "t = s" | "t = u"
    | b where "is_hw_disk_encryption mode" "loaded" "length b = MAX_PASSWORD_LEN"
        "t = (let k = CreateKey (map_usage env QSEECOM_DISK_ENCRYPTION) b r
              in if ERR_MAX_PASSWORD_ATTEMPTS = r then wipe_userdata o1 (happens k u) else happens k u)"
    | b c where "is_hw_disk_encryption mode" "loaded" "length b = MAX_PASSWORD_LEN" "length c = MAX_PASSWORD_LEN"
        "t = (let k = UpdateKey (map_usage env QSEECOM_DISK_ENCRYPTION) c b r
              in if ERR_MAX_PASSWORD_ATTEMPTS = r then wipe_userdata o1 (happens k u) else happens k u)"
    using assms(1) load
    by (auto simp: set_key_def Let_def ERR_MAX_PASSWORD_ATTEMPTS_def dest!: tmp_passwd_length
        split: if_splits option.splits)
  then show ?thesis
  proof cases
    case 1
    then show ?thesis using assms(2) by (auto intro: crypt_entry.none)
  next
    case 2
    then show ?thesis using l by (auto intro: crypt_entry.none)
  next
    case 3
    then show ?thesis
      using l crypt_entry.create [OF 3(3), of env r o1]
      by (auto simp: Let_def wipe_log happens_def split: if_splits)
  next
    case 4
    then show ?thesis
      using l crypt_entry.update [OF 4(4,3), of env r o1]
      by (auto simp: Let_def wipe_log happens_def split: if_splits)
  qed
qed

lemma crypt_call_entry:
  assumes "crypt_call env c s = (r, t)" and "loaded_library s \<longrightarrow> lib_complete env"
  shows "\<exists>l. crypt_log t = crypt_log s @ l \<and> crypt_entry env l \<and> (l \<noteq> [] \<longrightarrow> lib_complete env) \<and>
    (loaded_library t \<longrightarrow> lib_complete env)"
proof (cases c)
  case CallClear
  obtain loaded u where load: "load_qseecom_library env s = (loaded, u)" by fastforce
  note l = load_cases [OF load assms(2)]
  have "t = (if loaded then happens (WipeKey (map_usage env QSEECOM_DISK_ENCRYPTION) r) u else u)"
    using assms(1) load CallClear by (auto simp: clear_hw_device_encryption_key_def Let_def split: if_splits)
  then show ?thesis
    using l crypt_entry.clear [of env r] crypt_entry.none [of env] by (cases loaded) (auto simp: happens_def)
qed (use assms set_key_entry in \<open>fastforce simp: set_hw_device_encryption_key_def update_hw_device_encryption_key_def\<close>)+

lemma crypt_run_entries:
  "loaded_library s \<longrightarrow> lib_complete env \<Longrightarrow>
     \<exists>ls. crypt_log (crypt_run env calls s) = crypt_log s @ concat ls \<and> list_all (crypt_entry env) ls \<and>
       (concat ls \<noteq> [] \<longrightarrow> lib_complete env)"
proof (induction calls arbitrary: s)
  case Nil
  show ?case by (rule exI [of _ "[]"]) (simp add: crypt_run_def)
next
  case (Cons c calls)
  obtain r t where call: "crypt_call env c s = (r, t)" by fastforce
  obtain l where l: "crypt_log t = crypt_log s @ l" "crypt_entry env l" "l \<noteq> [] \<longrightarrow> lib_complete env"
    and t: "loaded_library t \<longrightarrow> lib_complete env"
    using crypt_call_entry [OF call Cons.prems] by blast
  obtain ls where "crypt_log (crypt_run env calls t) = crypt_log t @ concat ls" "list_all (crypt_entry env) ls"
    "concat ls \<noteq> [] \<longrightarrow> lib_complete env"
    using Cons.IH [OF t] by blast
  moreover have "crypt_run env (c # calls) s = crypt_run env calls t" using call by (simp add: crypt_run_def)
  ultimately show ?case using l by (intro exI [of _ "l # ls"]) auto
qed

text \<open>C25: 
  Over any calls, whatever the library answers: its functions are called only when all three were found, for the
  storage of the device, with passwords of 32 bytes; and the device is wiped exactly after an answer that the
  attempts are used up, before anything else happens.
\<close>

theorem crypt_log_wellformed:
  "\<exists>ls. crypt_log (crypt_run env calls crypt_start) = concat ls \<and> list_all (crypt_entry env) ls \<and>
     (concat ls \<noteq> [] \<longrightarrow> lib_found env \<and> symbol_found env ''QSEECom_create_key'' \<and>
        symbol_found env ''QSEECom_update_key_user_info'' \<and> symbol_found env ''QSEECom_wipe_key'')"
  using crypt_run_entries [of crypt_start env calls] by (simp add: crypt_start_def lib_complete_def)

definition example_crypt :: crypt_env where
  "example_crypt =
     \<lparr>lib_found = True, symbol_found = (\<lambda>_. True), create_result = (\<lambda>_ _ _. 0), update_result = (\<lambda>_ _ _ _. - 10),
      wipe_result = (\<lambda>_ _. 0), bootdevice = Some ''msm_sdcc.1'', accessible = (\<lambda>_. True), file_bytes = (\<lambda>_. None),
      keystore_module = Inr 1, KEYMASTER_MODULE_API_VERSION_1_0 = 1\<rparr>"

theorem crypt_log_wellformed_witness:
  "\<exists>ls. crypt_log (crypt_run example_crypt [CallUpdate True True True (Some ''old'') (Some ''new'') (Some ''aes-xts'')] crypt_start)
     = concat ls \<and> list_all (crypt_entry example_crypt) ls"
  using crypt_log_wellformed [of example_crypt "[CallUpdate True True True (Some ''old'') (Some ''new'') (Some ''aes-xts'')]"]
  by blast

text \<open>A mode other than the one of the hardware, or a missing library, never reaches the keys.\<close>

lemma other_mode_refused: "mode \<noteq> Some ''aes-xts'' \<Longrightarrow> set_key env o1 a1 a2 old pw mode operation s = (- 1, s)"
  by (simp add: set_key_def is_hw_disk_encryption_def)

text \<open>Clearing the key reports success when the library is missing, though nothing was cleared.\<close>

lemma clear_without_library:
  "\<not> lib_found env \<Longrightarrow> \<not> loaded_library s \<Longrightarrow> clear_hw_device_encryption_key env s = (0, s)"
  by (simp add: clear_hw_device_encryption_key_def load_qseecom_library_def)

text \<open>An identifier of three digits without the end of the line is read on into the garbage behind it.\<close>

lemma soc_id_reads_garbage:
  "is_hw_fde_enabled_sw (example_crypt\<lparr>file_bytes := (\<lambda>_. Some ''239'')\<rparr>) ''xxx5''"
  "\<not> is_hw_fde_enabled_sw (example_crypt\<lparr>file_bytes := (\<lambda>_. Some ''239'')\<rparr>) ''xxx;''"
  by code_simp+

end
