(* ===== verification/Thread_Helper.thy ===== *)
theory Thread_Helper
  imports Prelude
begin

text \<open>
  \<^verbatim>\<open>loc_eng_dmn_conn_thread_helper.c\<close>: the handshake of a launched thread with its launcher.  The launcher
  waits on a condition variable until the thread has initialised itself; later a client sets the exit flag and
  joins the thread.  Every region under the mutex is one step, and so is every access outside it.
\<close>

section \<open>The helper and its two parties\<close>

datatype launcher_pc =
  L_Create            \<comment> \<open>before the thread is created\<close>
| L_Wait              \<comment> \<open>at the lock of the wait\<close>
| L_Blocked           \<comment> \<open>in \<open>pthread_cond_wait\<close>\<close>
| L_Woken             \<comment> \<open>behind \<open>pthread_cond_wait\<close>\<close>
| L_Returning         \<comment> \<open>before the exit flag is read for the result\<close>
| L_Launched int      \<comment> \<open>the launch returned\<close>
| L_Joining
| L_Joined

datatype helper_pc =
  T_None              \<comment> \<open>no thread\<close>
| T_Init
| T_Failed            \<comment> \<open>initialisation failed, the exit flag is set\<close>
| T_Ready             \<comment> \<open>before \<open>thelper_signal_ready\<close>\<close>
| T_Pre
| T_Proc
| T_Test              \<comment> \<open>at the condition of the loop\<close>
| T_Post
| T_End

text \<open>Which of the four functions of the thread are given.\<close>

record thread_procs =
  has_init :: bool
  has_pre :: bool
  has_proc :: bool
  has_post :: bool

text \<open>
  The flags of \<^verbatim>\<open>struct loc_eng_dmn_conn_thelper\<close>, whether its condition variable and mutex exist, and the
  program counters.  \<open>init_done\<close>, \<open>init_failed\<close> and \<open>posts\<close> record what the thread did.
\<close>

record thelper =
  thread_exit :: bool
  thread_ready :: bool
  signals_live :: bool
  lpc :: launcher_pc
  tpc :: helper_pc
  init_done :: bool
  init_failed :: bool
  posts :: nat

definition thelper_start :: thelper where
  "thelper_start = \<lparr>thread_exit = False, thread_ready = False, signals_live = False, lpc = L_Create, tpc = T_None,
     init_done = False, init_failed = False, posts = 0\<rparr>"

section \<open>Operations\<close>

text \<open>The resources of the operating system are given; their absence is the result \<open>result\<close>.\<close>

definition thelper_signal_init :: "int \<Rightarrow> int \<Rightarrow> thelper \<Rightarrow> int \<times> thelper" where
  "thelper_signal_init cond_result mutex_result s =
     (let s = s\<lparr>thread_exit := False, thread_ready := False\<rparr>
      in if cond_result \<noteq> 0 then (cond_result, s)
         else (mutex_result, s\<lparr>signals_live := mutex_result = 0\<rparr>))"

definition thelper_signal_destroy :: "int \<Rightarrow> int \<Rightarrow> thelper \<Rightarrow> int \<times> thelper" where
  "thelper_signal_destroy cond_result mutex_result s =
     (let ret_result = (if cond_result \<noteq> 0 then cond_result else 0);
          ret_result = (if mutex_result \<noteq> 0 then mutex_result else ret_result)
      in (ret_result, s\<lparr>signals_live := False\<rparr>))"

text \<open>The first half of \<^verbatim>\<open>thelper_signal_wait\<close>: a single test, not a loop, around the wait.\<close>

definition thelper_signal_wait :: "thelper \<Rightarrow> thelper" where
  "thelper_signal_wait s = (if \<not> thread_ready s \<and> \<not> thread_exit s then s\<lparr>lpc := L_Blocked\<rparr> else s\<lparr>lpc := L_Woken\<rparr>)"

text \<open>Its second half: the result (which the launch ignores), and the mutex is released.\<close>

definition thelper_wait_result :: "thelper \<Rightarrow> int \<times> thelper" where
  "thelper_wait_result s = ((if thread_exit s then - 1 else 0), s\<lparr>lpc := L_Returning\<rparr>)"

definition thelper_signal_ready :: "thelper \<Rightarrow> thelper" where
  "thelper_signal_ready s = s\<lparr>thread_ready := True, lpc := (if lpc s = L_Blocked then L_Woken else lpc s)\<rparr>"

definition thelper_signal_block :: "thelper \<Rightarrow> bool \<times> thelper" where
  "thelper_signal_block s = (thread_ready s, s\<lparr>thread_ready := False\<rparr>)"

definition unblock_thelper :: "thelper \<Rightarrow> thelper" where
  "unblock_thelper s = s\<lparr>thread_exit := True\<rparr>"

text \<open>One step of \<^verbatim>\<open>thelper_main\<close>; \<open>result\<close> is what the function called in this step returns.\<close>

fun thelper_main :: "thread_procs \<Rightarrow> int \<Rightarrow> helper_pc \<Rightarrow> thelper \<Rightarrow> thelper" where
  "thelper_main ps result T_Init s =
     (if has_init ps then
        (if result < 0 then s\<lparr>thread_exit := True, init_failed := True, tpc := T_Failed\<rparr>
         else s\<lparr>init_done := True, tpc := T_Ready\<rparr>)
      else s\<lparr>init_done := True, tpc := T_Ready\<rparr>)"
| "thelper_main ps result T_Failed s = (thelper_signal_ready s)\<lparr>tpc := T_End\<rparr>"
| "thelper_main ps result T_Ready s = (thelper_signal_ready s)\<lparr>tpc := T_Pre\<rparr>"
| "thelper_main ps result T_Pre s =
     (if has_pre ps \<and> result < 0 then s\<lparr>thread_exit := True, tpc := T_End\<rparr> else s\<lparr>tpc := T_Proc\<rparr>)"
| "thelper_main ps result T_Proc s =
     (if has_proc ps \<and> result < 0 then s\<lparr>thread_exit := True, tpc := T_Test\<rparr> else s\<lparr>tpc := T_Test\<rparr>)"
| "thelper_main ps result T_Test s = (if \<not> thread_exit s then s\<lparr>tpc := T_Proc\<rparr> else s\<lparr>tpc := T_Post\<rparr>)"
| "thelper_main ps result T_Post s = s\<lparr>posts := posts s + (if has_post ps then 1 else 0), tpc := T_End\<rparr>"
| "thelper_main ps result T_End s = s"
| "thelper_main ps result T_None s = s"

text \<open>
  \<^verbatim>\<open>loc_eng_dmn_conn_launch_thelper\<close> up to the wait: the helper is reset and the thread created, by
  \<^verbatim>\<open>pthread_create\<close> (\<open>cb = False\<close>), whose failure returns, or by the callback of the framework, whose
  failure is not seen.
\<close>

definition launch_thelper :: "bool \<Rightarrow> bool \<Rightarrow> thelper \<Rightarrow> thelper" where
  "launch_thelper cb made s =
     (let s = snd (thelper_signal_init 0 0 s);
          s = s\<lparr>tpc := (if made then T_Init else T_None)\<rparr>;
          result = (if cb then 0 else if made then 0 else - 1 :: int)
      in if result \<noteq> 0 then s\<lparr>lpc := L_Launched (- 1)\<rparr> else s\<lparr>lpc := L_Wait\<rparr>)"

text \<open>One step of the launcher, and of the client that it becomes.\<close>

definition launch_result :: "thelper \<Rightarrow> thelper" where
  "launch_result s = s\<lparr>lpc := L_Launched (if thread_exit s then 1 else 0)\<rparr>"

definition join_thelper :: "thelper \<Rightarrow> thelper" where
  "join_thelper s = (snd (thelper_signal_destroy 0 0 s))\<lparr>lpc := L_Joined\<rparr>"

text \<open>
  The interleaving: \<open>spurious\<close> allows wake-ups without a signal, as the standard does.  The client unblocks
  and joins after a launch that returned zero.
\<close>

inductive thelper_step :: "thread_procs \<Rightarrow> bool \<Rightarrow> bool \<Rightarrow> thelper \<Rightarrow> thelper \<Rightarrow> bool" for ps cb spurious where
  create: "lpc s = L_Create \<Longrightarrow> thelper_step ps cb spurious s (launch_thelper cb made s)"
| wait: "lpc s = L_Wait \<Longrightarrow> thelper_step ps cb spurious s (thelper_signal_wait s)"
| spurious: "spurious \<Longrightarrow> lpc s = L_Blocked \<Longrightarrow> thelper_step ps cb spurious s (s\<lparr>lpc := L_Woken\<rparr>)"
| woken: "lpc s = L_Woken \<Longrightarrow> thelper_step ps cb spurious s (snd (thelper_wait_result s))"
| returns: "lpc s = L_Returning \<Longrightarrow> thelper_step ps cb spurious s (launch_result s)"
| unblock: "lpc s = L_Launched 0 \<Longrightarrow> thelper_step ps cb spurious s ((unblock_thelper s)\<lparr>lpc := L_Joining\<rparr>)"
| join: "lpc s = L_Joining \<Longrightarrow> tpc s = T_End \<Longrightarrow> thelper_step ps cb spurious s (join_thelper s)"
| thread: "tpc s \<noteq> T_None \<Longrightarrow> tpc s \<noteq> T_End \<Longrightarrow> thelper_step ps cb spurious s (thelper_main ps result (tpc s) s)"

inductive_cases thelper_stepE: "thelper_step ps cb spurious s s'"

inductive thelper_run :: "thread_procs \<Rightarrow> bool \<Rightarrow> bool \<Rightarrow> thelper \<Rightarrow> bool" for ps cb spurious where
  start: "thelper_run ps cb spurious thelper_start"
| step: "thelper_run ps cb spurious s \<Longrightarrow> thelper_step ps cb spurious s s' \<Longrightarrow> thelper_run ps cb spurious s'"

lemmas thelper_op_defs = thelper_signal_init_def thelper_signal_destroy_def thelper_signal_wait_def
  thelper_wait_result_def thelper_signal_ready_def unblock_thelper_def launch_thelper_def launch_result_def
  join_thelper_def Let_def

section \<open>What holds in every run\<close>

text \<open>What the flags are at each point of the thread, and of the launcher.\<close>

fun thread_ok :: "helper_pc \<Rightarrow> thelper \<Rightarrow> bool" where
  "thread_ok T_None s = (\<not> thread_ready s \<and> \<not> init_done s \<and> \<not> init_failed s)"
| "thread_ok T_Init s = (\<not> thread_ready s \<and> \<not> init_done s \<and> \<not> init_failed s)"
| "thread_ok T_Failed s = (\<not> thread_ready s \<and> \<not> init_done s \<and> init_failed s \<and> thread_exit s)"
| "thread_ok T_Ready s = (\<not> thread_ready s \<and> init_done s \<and> \<not> init_failed s)"
| "thread_ok T_End s = (thread_ready s \<and> (init_failed s \<longrightarrow> thread_exit s) \<and> (init_done s \<longleftrightarrow> \<not> init_failed s))"
| "thread_ok _ s = (thread_ready s \<and> init_done s \<and> \<not> init_failed s)"

fun launcher_ok :: "bool \<Rightarrow> launcher_pc \<Rightarrow> thelper \<Rightarrow> bool" where
  "launcher_ok spurious L_Create s = (tpc s = T_None)"
| "launcher_ok spurious L_Wait s = True"
| "launcher_ok spurious L_Blocked s = (\<not> thread_ready s)"
| "launcher_ok spurious L_Woken s = (spurious \<or> thread_ready s \<or> thread_exit s)"
| "launcher_ok spurious L_Returning s = (spurious \<or> thread_ready s \<or> thread_exit s)"
| "launcher_ok spurious (L_Launched r) s = (r = 0 \<longrightarrow> spurious \<or> (thread_ready s \<and> init_done s))"
| "launcher_ok spurious L_Joining s = (spurious \<or> (thread_ready s \<and> init_done s))"
| "launcher_ok spurious L_Joined s = (tpc s = T_End \<and> (spurious \<or> init_done s))"

definition thelper_inv :: "bool \<Rightarrow> thelper \<Rightarrow> bool" where
  "thelper_inv spurious s \<longleftrightarrow> thread_ok (tpc s) s \<and> launcher_ok spurious (lpc s) s \<and>
     (tpc s \<in> {T_None, T_Init, T_Ready} \<longrightarrow> thread_exit s \<longrightarrow> spurious) \<and>
     (tpc s \<noteq> T_None \<longrightarrow> lpc s \<noteq> L_Joined \<longrightarrow> signals_live s)"

lemma thelper_inv_start: "thelper_inv spurious thelper_start"
  by (simp add: thelper_inv_def thelper_start_def)

lemma thelper_main_inv:
  assumes "thelper_inv spurious s" and "tpc s \<noteq> T_None"
  shows "thelper_inv spurious (thelper_main ps result (tpc s) s)"
  using assms
  by (cases "tpc s"; cases "lpc s") (auto simp: thelper_inv_def thelper_signal_ready_def)

lemma launcher_step_inv:
  assumes "thelper_inv spurious s"
  shows "lpc s = L_Create \<Longrightarrow> thelper_inv spurious (launch_thelper cb made s)"
    and "lpc s = L_Wait \<Longrightarrow> thelper_inv spurious (thelper_signal_wait s)"
    and "lpc s = L_Woken \<Longrightarrow> thelper_inv spurious (snd (thelper_wait_result s))"
    and "lpc s = L_Returning \<Longrightarrow> thelper_inv spurious (launch_result s)"
    and "lpc s = L_Launched 0 \<Longrightarrow> thelper_inv spurious ((unblock_thelper s)\<lparr>lpc := L_Joining\<rparr>)"
    and "lpc s = L_Joining \<Longrightarrow> tpc s = T_End \<Longrightarrow> thelper_inv spurious (join_thelper s)"
    and "lpc s = L_Blocked \<Longrightarrow> spurious \<Longrightarrow> thelper_inv spurious (s\<lparr>lpc := L_Woken\<rparr>)"
  using assms by (cases "tpc s"; auto simp: thelper_inv_def thelper_op_defs; fail)+

lemma thelper_step_inv:
  assumes "thelper_step ps cb spurious s s'" and "thelper_inv spurious s"
  shows "thelper_inv spurious s'"
  using assms(1)
  by cases (use launcher_step_inv [OF assms(2)] thelper_main_inv [OF assms(2)] in blast)+

lemma thelper_run_inv: "thelper_run ps cb spurious s \<Longrightarrow> thelper_inv spurious s"
  by (induction rule: thelper_run.induct) (auto intro: thelper_inv_start thelper_step_inv)

section \<open>No wake-up is lost\<close>

text \<open>
  A launcher that waits is woken by the thread within its next two steps, whatever its functions
  return; so the launch of a created thread never waits for ever.
\<close>

theorem thelper_launch_wakes:
  assumes "thelper_run ps cb spurious s" and "lpc s = L_Blocked" and "tpc s \<noteq> T_None"
  shows "let s1 = thelper_main ps r1 (tpc s) s; s2 = thelper_main ps r2 (tpc s1) s1
         in lpc s1 = L_Woken \<or> lpc s2 = L_Woken"
proof -
  have "thread_ok (tpc s) s" "\<not> thread_ready s"
    using thelper_run_inv [OF assms(1)] assms(2) by (auto simp: thelper_inv_def)
  then show ?thesis
    using assms(2,3) by (cases "tpc s") (auto simp: thelper_signal_ready_def Let_def)
qed

definition all_procs :: thread_procs where
  "all_procs = \<lparr>has_init = True, has_pre = True, has_proc = True, has_post = True\<rparr>"

text \<open>The thread is slow: the launcher waits first.\<close>

definition waiting_thelper :: thelper where
  "waiting_thelper = thelper_signal_wait (launch_thelper False True thelper_start)"

lemma waiting_thelper_eq:
  "waiting_thelper = thelper_start\<lparr>signals_live := True, lpc := L_Blocked, tpc := T_Init\<rparr>"
  by (simp add: waiting_thelper_def thelper_op_defs thelper_start_def)

lemma waiting_thelper_run: "thelper_run all_procs False spurious waiting_thelper"
proof -
  have "lpc thelper_start = L_Create" "lpc (launch_thelper False True thelper_start) = L_Wait"
    by (simp_all add: thelper_op_defs thelper_start_def)
  then show ?thesis
    unfolding waiting_thelper_def by (blast intro: thelper_run.intros thelper_step.create thelper_step.wait)
qed

theorem thelper_launch_wakes_witness:
  "lpc waiting_thelper = L_Blocked \<and>
   (let s1 = thelper_main all_procs 0 (tpc waiting_thelper) waiting_thelper; s2 = thelper_main all_procs 0 (tpc s1) s1
    in lpc s1 = L_Woken \<or> lpc s2 = L_Woken)"
  using thelper_launch_wakes [OF waiting_thelper_run, where ?r1.0 = 0 and ?r2.0 = 0] by (simp add: waiting_thelper_eq)

section \<open>What the launch promises\<close>




section \<open>The thread ends\<close>

fun thread_steps :: "thread_procs \<Rightarrow> int list \<Rightarrow> thelper \<Rightarrow> thelper" where
  "thread_steps ps [] s = s"
| "thread_steps ps (r # rs) s = thread_steps ps rs (thelper_main ps r (tpc s) s)"

fun thread_left :: "helper_pc \<Rightarrow> nat" where
  "thread_left T_None = 0"
| "thread_left T_Init = 6"
| "thread_left T_Failed = 1"
| "thread_left T_Ready = 5"
| "thread_left T_Pre = 4"
| "thread_left T_Proc = 3"
| "thread_left T_Test = 2"
| "thread_left T_Post = 1"
| "thread_left T_End = 0"

lemma thread_step_left:
  assumes "thread_exit s" and "tpc s \<noteq> T_None"
  shows "thread_exit (thelper_main ps r (tpc s) s)" and "tpc (thelper_main ps r (tpc s) s) \<noteq> T_None"
    and "thread_left (tpc (thelper_main ps r (tpc s) s)) \<le> thread_left (tpc s) - 1"
  using assms by (cases "tpc s"; simp add: thelper_signal_ready_def)+

lemma thread_steps_end:
  "thread_exit s \<Longrightarrow> tpc s \<noteq> T_None \<Longrightarrow> thread_left (tpc s) \<le> length rs \<Longrightarrow> tpc (thread_steps ps rs s) = T_End"
proof (induction rs arbitrary: s)
  case Nil
  then show ?case by (cases "tpc s") simp_all
next
  case (Cons r rs)
  then show ?case using thread_step_left [OF Cons.prems(1,2), of ps r] by (auto simp del: thelper_main.simps)
qed

text \<open>Only the thread moves itself, and nothing clears the exit flag once the thread exists.\<close>

lemma others_keep_thread:
  assumes "thelper_step ps cb spurious s s'" and "tpc s' = tpc s" and "thelper_inv spurious s" and "tpc s \<noteq> T_None"
  shows "thread_exit s \<longrightarrow> thread_exit s'"
  using assms(1)
proof cases
  case create
  then show ?thesis using assms(3,4) by (simp add: thelper_inv_def)
next
  case thread
  then show ?thesis using thread_step_left(1) assms(4) by blast
qed (simp_all add: thelper_op_defs)

text \<open>
  Once the exit flag is set, the thread ends within six of its steps, wherever it is and whatever its
  functions return: its loop does not start another round.
\<close>

theorem thelper_thread_ends:
  assumes "thread_exit s" and "tpc s \<noteq> T_None" and "6 \<le> length rs"
  shows "tpc (thread_steps ps rs s) = T_End"
proof -
  have "thread_left (tpc s) \<le> 6" by (cases "tpc s") simp_all
  then show ?thesis using thread_steps_end assms by (meson order_trans)
qed

theorem thelper_thread_ends_witness:
  "tpc (thread_steps all_procs [0, 0, 0, 0, 0, 0] (unblock_thelper waiting_thelper)) = T_End"
  by (rule thelper_thread_ends) (simp_all add: unblock_thelper_def waiting_thelper_eq)

section \<open>Where the promise fails\<close>

text \<open>
  The standard allows wake-ups without a signal, and the wait tests the flags once: then the launch reports success
  for a thread that has not begun to initialise itself.
\<close>

lemma spurious_launch: "\<exists>s. thelper_run all_procs False True s \<and> lpc s = L_Launched 0 \<and> \<not> init_done s"
proof -
  define s1 where "s1 = waiting_thelper\<lparr>lpc := L_Woken\<rparr>"
  define s2 where "s2 = snd (thelper_wait_result s1)"
  have "lpc waiting_thelper = L_Blocked" by (simp add: waiting_thelper_eq)
  then have "thelper_run all_procs False True s1"
    unfolding s1_def using waiting_thelper_run by (metis thelper_run.step thelper_step.spurious)
  moreover have "lpc s1 = L_Woken" "lpc s2 = L_Returning"
    by (simp_all add: s1_def s2_def thelper_op_defs)
  ultimately have "thelper_run all_procs False True (launch_result s2)"
    unfolding s2_def by (metis thelper_run.step thelper_step.woken thelper_step.returns)
  moreover have "lpc (launch_result s2) = L_Launched 0" "\<not> init_done (launch_result s2)"
    by (simp_all add: s2_def s1_def waiting_thelper_eq thelper_op_defs thelper_start_def)
  ultimately show ?thesis by blast
qed

text \<open>The callback of the framework may fail to create the thread; the launcher then waits for ever.\<close>

lemma failed_callback_blocks:
  defines "s \<equiv> thelper_signal_wait (launch_thelper True False thelper_start)"
  shows "thelper_run ps True False s" and "\<not> thelper_step ps True False s s'"
proof -
  have "lpc thelper_start = L_Create" "lpc (launch_thelper True False thelper_start) = L_Wait"
    by (simp_all add: thelper_op_defs thelper_start_def)
  then show "thelper_run ps True False s"
    unfolding s_def by (blast intro: thelper_run.intros thelper_step.create thelper_step.wait)
  have "lpc s = L_Blocked" "tpc s = T_None" by (simp_all add: s_def thelper_op_defs thelper_start_def)
  then show "\<not> thelper_step ps True False s s'" by (auto elim: thelper_stepE)
qed

end
