(* ===== verification/Timer_Handle.thy ===== *)
theory Timer_Handle
  imports Loc_Timer
begin

text \<open>
  The lifetimes behind one timer: \<^verbatim>\<open>LocSharedLock.h\<close>, the lock that a timer and its delegate share and that
  goes with the last of them; and the handles of C clients, \<^verbatim>\<open>LocTimerWrapper\<close>, \<^verbatim>\<open>loc_timer_start\<close> and
  \<^verbatim>\<open>loc_timer_stop\<close> of \<^verbatim>\<open>LocTimer.cpp\<close>, as an interleaving of the client with the timer's message task.
  Heaps, queues and times are those of \<open>Loc_Timer\<close>; here a step is what runs under one lock, or between two.
\<close>

section \<open>The shared lock\<close>

text \<open>The count, and whether the lock still exists; an operation on a lock that is gone is recorded.\<close>

record shared_lock =
  mRef :: int
  lock_live :: bool
  lock_misused :: bool

definition new_shared_lock :: shared_lock where
  "new_shared_lock = \<lparr>mRef = 1, lock_live = True, lock_misused = False\<rparr>"

definition lock_use :: "shared_lock \<Rightarrow> shared_lock" where
  "lock_use l = l\<lparr>lock_misused := lock_misused l \<or> \<not> lock_live l\<rparr>"

definition lock_share :: "shared_lock \<Rightarrow> shared_lock" where
  "lock_share l = (lock_use l)\<lparr>mRef := mRef l + 1\<rparr>"

definition lock_drop :: "shared_lock \<Rightarrow> shared_lock" where
  "lock_drop l = (lock_use l)\<lparr>mRef := mRef l - 1, lock_live := lock_live l \<and> mRef l \<noteq> 1\<rparr>"

section \<open>One handle\<close>

text \<open>
  Where the message task is in the expiry of the delegate: it has not popped it; it has read the client's address;
  its \<open>stop\<close> succeeded, so that the callback is due; the callback returned; it is through.
\<close>

datatype expire_pc = X_Idle | X_Client | X_Due | X_Returned | X_Over

text \<open>
  \<open>wrapper\<close> says whether the object still exists, \<open>timer_set\<close> whether its \<open>mTimer\<close> is set; the
  delegate exists until the task removes it, and knows its client until it is destroyed.  \<open>misused\<close> records a
  use of an object that is gone.
\<close>

record handle_sys =
  wrapper :: bool
  timer_set :: bool
  shared :: shared_lock
  deleg :: bool
  deleg_client :: bool
  removal_sent :: bool
  xpc :: expire_pc
  callbacks :: nat
  deletions :: nat
  misused :: bool

text \<open>
  \<^verbatim>\<open>loc_timer_start\<close>: the handle, or null without a callback; the delay of 64 bits becomes one of 32.
\<close>

definition started :: handle_sys where
  "started = \<lparr>wrapper = True, timer_set = True, shared = lock_share new_shared_lock, deleg = True, deleg_client = True,
     removal_sent = False, xpc = X_Idle, callbacks = 0, deletions = 0, misused = False\<rparr>"

definition loc_timer_start :: "64 word \<Rightarrow> bool \<Rightarrow> timespec \<Rightarrow> (timespec \<times> handle_sys) option" where
  "loc_timer_start msec cb_func now = (if cb_func then Some (future_time now (ucast msec), started) else None)"

text \<open>\<^verbatim>\<open>LocTimer::stop\<close> and \<^verbatim>\<open>destroyLocked\<close> under the shared lock: whether a timer was stopped.\<close>

definition wrapper_stop :: "handle_sys \<Rightarrow> bool \<times> handle_sys" where
  "wrapper_stop s =
     (let s = s\<lparr>misused := misused s \<or> \<not> wrapper s, shared := lock_use (shared s)\<rparr>
      in if timer_set s then (True, s\<lparr>timer_set := False, deleg_client := False, removal_sent := True, misused := misused s \<or> \<not> deleg s\<rparr>)
         else (False, s))"

text \<open>\<^verbatim>\<open>LocTimerWrapper::destroy\<close> with the destructors: under the static mutex.\<close>

definition wrapper_destroy :: "handle_sys \<Rightarrow> handle_sys" where
  "wrapper_destroy s =
     (if \<not> wrapper s then s\<lparr>misused := True\<rparr>
      else (let s = snd (wrapper_stop s)
            in s\<lparr>wrapper := False, deletions := deletions s + 1, shared := lock_drop (shared s)\<rparr>))"

definition loc_timer_stop :: "bool \<Rightarrow> handle_sys \<Rightarrow> handle_sys" where
  "loc_timer_stop handle s = (if handle then wrapper_destroy s else s)"

text \<open>\<^verbatim>\<open>LocTimerDelegate::expire\<close> and the callback of the wrapper, step by step.\<close>

fun expire_step :: "expire_pc \<Rightarrow> handle_sys \<Rightarrow> handle_sys" where
  "expire_step X_Idle s = s\<lparr>xpc := if deleg_client s then X_Client else X_Over, misused := misused s \<or> \<not> deleg s\<rparr>"
| "expire_step X_Client s = (case wrapper_stop s of (stopped, s) \<Rightarrow> s\<lparr>xpc := if stopped then X_Due else X_Over\<rparr>)"
| "expire_step X_Due s = s\<lparr>misused := misused s \<or> \<not> wrapper s, callbacks := callbacks s + 1, xpc := X_Returned\<rparr>"
| "expire_step X_Returned s = (wrapper_destroy s)\<lparr>xpc := X_Over\<rparr>"
| "expire_step X_Over s = s"

text \<open>The removal, as a later message of the same task: the delegate is deleted and drops its share of the lock.\<close>

definition remove_delegate :: "handle_sys \<Rightarrow> handle_sys" where
  "remove_delegate s = s\<lparr>deleg := False, removal_sent := False, shared := lock_drop (shared s)\<rparr>"

text \<open>
  The interleaving; \<open>calm\<close> restricts the client to stop a timer whose expiry has not begun.  The task pops the
  delegate as long as it exists, and does not serve the removal in the middle of the expiry.
\<close>

inductive handle_step :: "bool \<Rightarrow> bool \<times> handle_sys \<Rightarrow> bool \<times> handle_sys \<Rightarrow> bool" for calm where
  stop: "h \<Longrightarrow> calm \<longrightarrow> xpc s = X_Idle \<Longrightarrow> handle_step calm (h, s) (False, loc_timer_stop h s)"
| expire: "xpc s = X_Idle \<Longrightarrow> deleg s \<Longrightarrow> handle_step calm (h, s) (h, expire_step (xpc s) s)"
| expiring: "xpc s \<in> {X_Client, X_Due, X_Returned} \<Longrightarrow> handle_step calm (h, s) (h, expire_step (xpc s) s)"
| remove: "removal_sent s \<Longrightarrow> xpc s \<in> {X_Idle, X_Over} \<Longrightarrow> handle_step calm (h, s) (h, remove_delegate s)"

inductive handle_run :: "bool \<Rightarrow> bool \<times> handle_sys \<Rightarrow> bool" for calm where
  start: "handle_run calm (True, started)"
| step: "handle_run calm x \<Longrightarrow> handle_step calm x y \<Longrightarrow> handle_run calm y"

lemmas handle_defs = loc_timer_stop_def wrapper_destroy_def wrapper_stop_def remove_delegate_def lock_use_def
  lock_share_def lock_drop_def new_shared_lock_def started_def Let_def

section \<open>A calm client\<close>

text \<open>The shares of the lock are those of the objects that exist.\<close>

definition lock_ok :: "handle_sys \<Rightarrow> bool" where
  "lock_ok s \<longleftrightarrow> mRef (shared s) = of_bool (wrapper s) + of_bool (deleg s) \<and>
     lock_live (shared s) = (wrapper s \<or> deleg s) \<and> \<not> lock_misused (shared s)"

fun expire_ok :: "expire_pc \<Rightarrow> bool \<Rightarrow> handle_sys \<Rightarrow> bool" where
  "expire_ok X_Idle h s = (wrapper s = h \<and> timer_set s = h \<and> deleg_client s = h \<and> (h \<longrightarrow> deleg s) \<and>
     removal_sent s = (deleg s \<and> \<not> h) \<and> callbacks s = 0)"
| "expire_ok X_Client h s = (h \<and> wrapper s \<and> timer_set s \<and> deleg s \<and> \<not> removal_sent s \<and> callbacks s = 0)"
| "expire_ok X_Due h s = (h \<and> wrapper s \<and> \<not> timer_set s \<and> deleg s \<and> removal_sent s \<and> callbacks s = 0)"
| "expire_ok X_Returned h s = (h \<and> wrapper s \<and> \<not> timer_set s \<and> deleg s \<and> removal_sent s \<and> callbacks s = 1)"
| "expire_ok X_Over h s = (\<not> wrapper s \<and> \<not> timer_set s \<and> removal_sent s = deleg s \<and> callbacks s = of_bool h)"

definition handle_ok :: "bool \<times> handle_sys \<Rightarrow> bool" where
  "handle_ok x \<longleftrightarrow> (case x of (h, s) \<Rightarrow> lock_ok s \<and> expire_ok (xpc s) h s \<and> \<not> misused s \<and>
     deletions s = of_bool (\<not> wrapper s))"

lemma handle_step_ok:
  assumes "handle_step True x y" and "handle_ok x"
  shows "handle_ok y"
  using assms
proof cases
  case (stop h s)
  with assms(2) show ?thesis by (simp add: handle_ok_def lock_ok_def handle_defs)
next
  case (expire s h)
  with assms(2) show ?thesis by (auto simp: handle_ok_def lock_ok_def handle_defs)
next
  case (expiring s h)
  with assms(2) show ?thesis by (cases "xpc s") (auto simp: handle_ok_def lock_ok_def handle_defs)
next
  case (remove s h)
  with assms(2) show ?thesis by (cases "xpc s") (auto simp: handle_ok_def lock_ok_def handle_defs)
qed

lemma handle_run_ok: "handle_run True x \<Longrightarrow> handle_ok x"
proof (induction rule: handle_run.induct)
  case start
  show ?case by (simp add: handle_ok_def lock_ok_def handle_defs)
qed (auto intro: handle_step_ok)

text \<open>C19: 
  A client that stops its timer, if at all, before the expiry has begun: no object is used after its deletion, the
  handle's object is deleted once, the lock exists exactly as long as one of its owners, and when the expiry is over
  the callback has run once if the client did not stop the timer, and never if it did.
\<close>

theorem timer_handle_safe:
  assumes "handle_run True (h, s)"
  shows "\<not> misused s \<and> \<not> lock_misused (shared s) \<and> deletions s = of_bool (\<not> wrapper s) \<and>
    lock_live (shared s) = (wrapper s \<or> deleg s) \<and> callbacks s \<le> of_bool h \<and>
    (xpc s = X_Over \<longrightarrow> callbacks s = of_bool h)"
  using handle_run_ok [OF assms] by (cases "xpc s") (auto simp: handle_ok_def lock_ok_def)

lemma calm_expiry: "handle_run True (True, fold (\<lambda>pc s. expire_step pc s) [X_Idle, X_Client, X_Due, X_Returned] started)"
proof -
  define s1 s2 s3 s4 where "s1 = expire_step X_Idle started" and "s2 = expire_step X_Client s1"
    and "s3 = expire_step X_Due s2" and "s4 = expire_step X_Returned s3"
  have pcs: "xpc started = X_Idle" "deleg started" "xpc s1 = X_Client" "xpc s2 = X_Due" "xpc s3 = X_Returned"
    by (simp_all add: s1_def s2_def s3_def handle_defs)
  have "handle_run True (True, s1)"
    using handle_run.step [OF handle_run.start handle_step.expire [of started]] pcs by (simp add: s1_def)
  then have "handle_run True (True, s2)"
    using handle_run.step [OF _ handle_step.expiring [of s1]] pcs by (simp add: s2_def)
  then have "handle_run True (True, s3)"
    using handle_run.step [OF _ handle_step.expiring [of s2]] pcs by (simp add: s3_def)
  then have "handle_run True (True, s4)"
    using handle_run.step [OF _ handle_step.expiring [of s3]] pcs by (simp add: s4_def)
  then show ?thesis by (simp add: s1_def s2_def s3_def s4_def)
qed

theorem timer_handle_safe_witness:
  "callbacks (fold (\<lambda>pc s. expire_step pc s) [X_Idle, X_Client, X_Due, X_Returned] started) = 1"
  using timer_handle_safe [OF calm_expiry] by (simp add: handle_defs)

section \<open>A racing client\<close>

text \<open>
  A stop while the task expires the delegate, though before the callback has returned, deletes the object that the
  task is about to use: between the reading of its address and the stop, and between the stop and the callback.
\<close>

lemma racing_stop_misuses:
  shows "\<exists>s. handle_run False (False, s) \<and> xpc s = X_Client \<and> misused (expire_step (xpc s) s)"
    and "\<exists>s. handle_run False (False, s) \<and> xpc s = X_Due \<and> misused (expire_step (xpc s) s)"
proof -
  define s1 s2 where "s1 = expire_step X_Idle started" and "s2 = expire_step X_Client s1"
  have pcs: "xpc started = X_Idle" "deleg started" "xpc s1 = X_Client" "xpc s2 = X_Due"
    by (simp_all add: s1_def s2_def handle_defs)
  have r1: "handle_run False (True, s1)"
    using handle_run.step [OF handle_run.start handle_step.expire [of started]] pcs by (simp add: s1_def)
  then have r2: "handle_run False (True, s2)"
    using handle_run.step [OF _ handle_step.expiring [of s1]] pcs by (simp add: s2_def)
  have "handle_run False (False, loc_timer_stop True s1)" "handle_run False (False, loc_timer_stop True s2)"
    using handle_run.step [OF r1 handle_step.stop] handle_run.step [OF r2 handle_step.stop] by simp_all
  moreover have "xpc (loc_timer_stop True s1) = X_Client" "xpc (loc_timer_stop True s2) = X_Due"
    "misused (expire_step X_Client (loc_timer_stop True s1))" "misused (expire_step X_Due (loc_timer_stop True s2))"
    by (simp_all add: s1_def s2_def handle_defs)
  ultimately show "\<exists>s. handle_run False (False, s) \<and> xpc s = X_Client \<and> misused (expire_step (xpc s) s)"
    and "\<exists>s. handle_run False (False, s) \<and> xpc s = X_Due \<and> misused (expire_step (xpc s) s)"
    by (metis, metis)
qed

text \<open>A delay of \<open>2 ^ 32\<close> milliseconds and more is cut: such a timer may expire at once.\<close>

lemma long_delay_cut: "ucast (2 ^ 32 :: 64 word) = (0 :: u32)"
  by simp

end
