(* ===== verification/Timer_Container.thy ===== *)
theory Timer_Container
  imports Prelude
begin

text \<open>
  The factory of the timer containers, \<^verbatim>\<open>LocTimerContainer::get\<close> of \<^verbatim>\<open>LocTimer.cpp\<close>: any number of threads ask for
  the container of timers or of alarms, which the first of them creates, together with the two tasks that all
  containers share.  The pointers are read once without the mutex and once with it.  A step is one access of the
  shared pointers, in program order; what the containers do once they exist is \<open>Loc_Timer\<close>.
\<close>

section \<open>State\<close>

text \<open>A container, by the kind it was made for and its descriptor.\<close>

record container_obj =
  wakeOnExpire :: bool
  mDevFd :: int

text \<open>Where a thread stands in \<^verbatim>\<open>get\<close>.\<close>

datatype get_pc =
  G_Idle | G_First | G_Lock | G_Second | G_New | G_Test nat | G_Null | G_Unlock | G_Return

text \<open>
  The static members (\<open>statics True\<close> is \<^verbatim>\<open>mHwTimers\<close>, \<open>statics False\<close> is \<^verbatim>\<open>mSwTimers\<close>), the containers that have not
  been deleted, the tasks created so far, and what calls have returned.
\<close>

record getters =
  statics :: "bool \<Rightarrow> nat option"
  mMutex :: "nat option"
  mMsgTask :: bool
  mPollTask :: bool
  containers :: "nat \<rightharpoonup> container_obj"
  next_container :: nat
  msg_tasks :: nat
  poll_tasks :: nat
  get_pc_of :: "nat \<Rightarrow> get_pc"
  get_kind :: "nat \<Rightarrow> bool"
  returned :: "(bool \<times> nat option) list"

definition getters_start :: getters where
  "getters_start = \<lparr>statics = (\<lambda>_. None), mMutex = None, mMsgTask = False, mPollTask = False, containers = Map.empty,
     next_container = 0, msg_tasks = 0, poll_tasks = 0, get_pc_of = (\<lambda>_. G_Idle), get_kind = (\<lambda>_. False), returned = []\<rparr>"

section \<open>Creation\<close>

definition getMsgTaskLocked :: "getters \<Rightarrow> getters" where
  "getMsgTaskLocked s = (if \<not> mMsgTask s then s\<lparr>mMsgTask := True, msg_tasks := Suc (msg_tasks s)\<rparr> else s)"

definition getPollTaskLocked :: "getters \<Rightarrow> getters" where
  "getPollTaskLocked s = (if \<not> mPollTask s then s\<lparr>mPollTask := True, poll_tasks := Suc (poll_tasks s)\<rparr> else s)"

text \<open>
  What the system answers to the creation of a timer descriptor: the first result, whether the error is
  \<^verbatim>\<open>EINVAL\<close>, and the result for the plain clock.
\<close>

definition container_fd :: "int \<times> bool \<times> int \<Rightarrow> int" where
  "container_fd answers =
     (case answers of (boot, einval, plain) \<Rightarrow> if boot = - 1 \<and> einval then plain else boot)"

definition LocTimerContainer_new :: "bool \<Rightarrow> int \<times> bool \<times> int \<Rightarrow> getters \<Rightarrow> nat \<times> getters" where
  "LocTimerContainer_new wake answers s =
     (let fd = container_fd answers;
          s1 = s\<lparr>containers := (containers s)(next_container s \<mapsto> \<lparr>wakeOnExpire = wake, mDevFd = fd\<rparr>),
                 next_container := Suc (next_container s)\<rparr>
      in (next_container s, if fd \<noteq> - 1 then getMsgTaskLocked (getPollTaskLocked s1) else s1))"

section \<open>The factory\<close>

definition goto :: "nat \<Rightarrow> get_pc \<Rightarrow> getters \<Rightarrow> getters" where
  "goto t p s = s\<lparr>get_pc_of := (get_pc_of s)(t := p)\<rparr>"

definition set_static :: "bool \<Rightarrow> nat option \<Rightarrow> getters \<Rightarrow> getters" where
  "set_static k c s = s\<lparr>statics := (statics s)(k := c)\<rparr>"

definition LocTimerContainer_get :: "nat \<Rightarrow> int \<times> bool \<times> int \<Rightarrow> getters \<Rightarrow> getters" where
  "LocTimerContainer_get t answers s =
     (let k = get_kind s t
      in case get_pc_of s t of
           G_Idle \<Rightarrow> s
         | G_First \<Rightarrow> goto t (if statics s k = None then G_Lock else G_Return) s
         | G_Lock \<Rightarrow> if mMutex s = None then goto t G_Second (s\<lparr>mMutex := Some t\<rparr>) else s
         | G_Second \<Rightarrow> goto t (if statics s k = None then G_New else G_Unlock) s
         | G_New \<Rightarrow> (case LocTimerContainer_new k answers s of (c, s1) \<Rightarrow> goto t (G_Test c) (set_static k (Some c) s1))
         | G_Test c \<Rightarrow>
             if map_option mDevFd (containers s c) = Some (- 1)
             then goto t G_Null (s\<lparr>containers := (containers s)(c := None)\<rparr>)
             else goto t G_Unlock s
         | G_Null \<Rightarrow> goto t G_Unlock (set_static k None s)
         | G_Unlock \<Rightarrow> goto t G_Return (s\<lparr>mMutex := None\<rparr>)
         | G_Return \<Rightarrow> goto t G_Idle (s\<lparr>returned := returned s @ [(k, statics s k)]\<rparr>))"

definition begin_get :: "nat \<Rightarrow> bool \<Rightarrow> getters \<Rightarrow> getters" where
  "begin_get t k s = goto t G_First (s\<lparr>get_kind := (get_kind s)(t := k)\<rparr>)"

text \<open>Any thread may call at any time; in a calm system every descriptor is created.\<close>

inductive get_step :: "bool \<Rightarrow> getters \<Rightarrow> getters \<Rightarrow> bool" for calm where
  get_call: "get_pc_of s t = G_Idle \<Longrightarrow> get_step calm s (begin_get t k s)"
| get_go: "calm \<longrightarrow> container_fd answers \<noteq> - 1 \<Longrightarrow> get_step calm s (LocTimerContainer_get t answers s)"

inductive get_run :: "bool \<Rightarrow> getters \<Rightarrow> bool" for calm where
  get_start: "get_run calm getters_start"
| get_more: "get_run calm s \<Longrightarrow> get_step calm s s' \<Longrightarrow> get_run calm s'"

section \<open>The invariant\<close>

definition in_mutex :: "get_pc \<Rightarrow> bool" where
  "in_mutex p \<longleftrightarrow> p \<in> {G_Second, G_New, G_Null, G_Unlock} \<or> (\<exists>c. p = G_Test c)"

lemma in_mutex_simps [simp]:
  "\<not> in_mutex G_Idle" "\<not> in_mutex G_First" "\<not> in_mutex G_Lock" "\<not> in_mutex G_Return"
  "in_mutex G_Second" "in_mutex G_New" "in_mutex G_Null" "in_mutex G_Unlock" "in_mutex (G_Test c)"
  by (simp_all add: in_mutex_def)

text \<open>What the thread in the mutex knows about its pointer, and what holds when nobody is between the accesses.\<close>

definition good_static :: "nat option \<Rightarrow> (nat \<rightharpoonup> container_obj) \<Rightarrow> bool \<Rightarrow> bool" where
  "good_static st cs k \<longleftrightarrow>
     (case st of
        None \<Rightarrow> True
      | Some c \<Rightarrow> \<exists>fd. cs c = Some \<lparr>wakeOnExpire = k, mDevFd = fd\<rparr> \<and> fd \<noteq> - 1)"

fun busy_static :: "nat option \<Rightarrow> (nat \<rightharpoonup> container_obj) \<Rightarrow> get_pc \<Rightarrow> bool \<Rightarrow> bool" where
  "busy_static st cs G_New k = (st = None)"
| "busy_static st cs (G_Test c) k = (st = Some c \<and> (\<exists>fd. cs c = Some \<lparr>wakeOnExpire = k, mDevFd = fd\<rparr>))"
| "busy_static st cs G_Null k = (\<exists>c. st = Some c \<and> cs c = None)"
| "busy_static st cs _ k = good_static st cs k"

definition statics_ok :: "getters \<Rightarrow> bool" where
  "statics_ok s \<longleftrightarrow>
     (case mMutex s of
        None \<Rightarrow> good_static (statics s True) (containers s) True \<and> good_static (statics s False) (containers s) False
      | Some t \<Rightarrow> busy_static (statics s (get_kind s t)) (containers s) (get_pc_of s t) (get_kind s t) \<and> good_static (statics s (\<not> get_kind s t)) (containers s) (\<not> get_kind s t))"

definition getters_ok :: "getters \<Rightarrow> bool" where
  "getters_ok s \<longleftrightarrow>
     (\<forall>t. mMutex s = Some t \<longleftrightarrow> in_mutex (get_pc_of s t)) \<and> statics_ok s \<and>
     (\<forall>c obj. containers s c = Some obj \<longrightarrow> c < next_container s \<and> statics s (wakeOnExpire obj) = Some c) \<and>
     msg_tasks s = (if mMsgTask s then 1 else 0) \<and> poll_tasks s = (if mPollTask s then 1 else 0)"

lemma getters_ok_start: "getters_ok getters_start"
  by (simp add: getters_ok_def statics_ok_def good_static_def getters_start_def)

lemma goto_simps [simp]:
  "statics (goto t p s) = statics s" "mMutex (goto t p s) = mMutex s" "containers (goto t p s) = containers s"
  "next_container (goto t p s) = next_container s" "mMsgTask (goto t p s) = mMsgTask s" "mPollTask (goto t p s) = mPollTask s"
  "msg_tasks (goto t p s) = msg_tasks s" "poll_tasks (goto t p s) = poll_tasks s" "get_kind (goto t p s) = get_kind s"
  "get_pc_of (goto t p s) = (get_pc_of s)(t := p)" "returned (goto t p s) = returned s"
  by (simp_all add: goto_def)

lemma LocTimerContainer_new_simps:
  assumes "LocTimerContainer_new k answers s = (c, s1)"
  shows "c = next_container s" "statics s1 = statics s" "mMutex s1 = mMutex s" "next_container s1 = Suc (next_container s)"
    "containers s1 = (containers s)(c \<mapsto> \<lparr>wakeOnExpire = k, mDevFd = container_fd answers\<rparr>)"
    "get_pc_of s1 = get_pc_of s" "get_kind s1 = get_kind s" "returned s1 = returned s"
    "msg_tasks s = (if mMsgTask s then 1 else 0) \<Longrightarrow> msg_tasks s1 = (if mMsgTask s1 then 1 else 0)"
    "poll_tasks s = (if mPollTask s then 1 else 0) \<Longrightarrow> poll_tasks s1 = (if mPollTask s1 then 1 else 0)"
  using assms by (auto simp: LocTimerContainer_new_def getMsgTaskLocked_def getPollTaskLocked_def Let_def split: if_splits)

lemma set_static_simps [simp]:
  "statics (set_static k c s) = (statics s)(k := c)" "mMutex (set_static k c s) = mMutex s"
  "containers (set_static k c s) = containers s" "next_container (set_static k c s) = next_container s"
  "mMsgTask (set_static k c s) = mMsgTask s" "mPollTask (set_static k c s) = mPollTask s"
  "msg_tasks (set_static k c s) = msg_tasks s" "poll_tasks (set_static k c s) = poll_tasks s"
  "get_kind (set_static k c s) = get_kind s" "get_pc_of (set_static k c s) = get_pc_of s"
  "returned (set_static k c s) = returned s"
  by (simp_all add: set_static_def)

lemma getters_ok_mutexD:
  assumes "getters_ok s" and "in_mutex (get_pc_of s t)"
  shows "mMutex s = Some t" "busy_static (statics s (get_kind s t)) (containers s) (get_pc_of s t) (get_kind s t)" "good_static (statics s (\<not> get_kind s t)) (containers s) (\<not> get_kind s t)"
    "in_mutex (get_pc_of s u) \<Longrightarrow> u = t"
proof -
  show t: "mMutex s = Some t" using assms by (simp add: getters_ok_def)
  show "busy_static (statics s (get_kind s t)) (containers s) (get_pc_of s t) (get_kind s t)" "good_static (statics s (\<not> get_kind s t)) (containers s) (\<not> get_kind s t)"
    using assms(1) t by (simp_all add: getters_ok_def statics_ok_def)
  show "in_mutex (get_pc_of s u) \<Longrightarrow> u = t" using assms(1) t by (force simp: getters_ok_def)
qed

definition contents_ok :: "getters \<Rightarrow> bool" where
  "contents_ok s \<longleftrightarrow>
     (\<forall>c obj. containers s c = Some obj \<longrightarrow> c < next_container s \<and> statics s (wakeOnExpire obj) = Some c) \<and>
     msg_tasks s = (if mMsgTask s then 1 else 0) \<and> poll_tasks s = (if mPollTask s then 1 else 0)"

lemma held_ok:
  assumes "mMutex s = Some t" and "in_mutex (get_pc_of s t)" and "\<And>u. u \<noteq> t \<Longrightarrow> \<not> in_mutex (get_pc_of s u)"
    and "busy_static (statics s (get_kind s t)) (containers s) (get_pc_of s t) (get_kind s t)"
    and "good_static (statics s (\<not> get_kind s t)) (containers s) (\<not> get_kind s t)" and "contents_ok s"
  shows "getters_ok s"
  using assms unfolding getters_ok_def statics_ok_def contents_ok_def by (simp, metis)

lemma free_ok:
  assumes "mMutex s = None" and "\<And>u. \<not> in_mutex (get_pc_of s u)"
    and "\<And>k. good_static (statics s k) (containers s) k" and "contents_ok s"
  shows "getters_ok s"
  using assms unfolding getters_ok_def statics_ok_def contents_ok_def by simp

lemma getters_okE:
  assumes "getters_ok s"
  obtains (held) t where "mMutex s = Some t" "in_mutex (get_pc_of s t)" "\<And>u. u \<noteq> t \<Longrightarrow> \<not> in_mutex (get_pc_of s u)"
      "busy_static (statics s (get_kind s t)) (containers s) (get_pc_of s t) (get_kind s t)"
      "good_static (statics s (\<not> get_kind s t)) (containers s) (\<not> get_kind s t)" "contents_ok s"
    | (free) "mMutex s = None" "\<And>u. \<not> in_mutex (get_pc_of s u)"
      "\<And>k. good_static (statics s k) (containers s) k" "contents_ok s"
proof (cases "mMutex s")
  case None
  have "good_static (statics s k) (containers s) k" for k
    using assms None by (cases k) (simp_all add: getters_ok_def statics_ok_def)
  moreover have "\<not> in_mutex (get_pc_of s u)" for u using assms None by (force simp: getters_ok_def)
  ultimately show thesis using None assms by (intro free) (auto simp: getters_ok_def contents_ok_def)
next
  case (Some t)
  show thesis using assms Some by (intro held [OF Some]) (auto simp: getters_ok_def statics_ok_def contents_ok_def)
qed

text \<open>A step outside the mutex, and a step of its holder.\<close>

lemma outside_ok:
  assumes "getters_ok s" and "\<not> in_mutex (get_pc_of s t)" and "\<not> in_mutex p"
  shows "getters_ok (goto t p s)" "getters_ok (goto t p (s\<lparr>get_kind := (get_kind s)(t := k)\<rparr>))"
    "getters_ok (goto t p (s\<lparr>returned := r\<rparr>))"
proof -
  have "getters_ok s'" if "s' \<in> {goto t p s, goto t p (s\<lparr>get_kind := (get_kind s)(t := k)\<rparr>), goto t p (s\<lparr>returned := r\<rparr>)}" for s'
    using assms(1)
  proof (cases rule: getters_okE)
    case (held u)
    then have "u \<noteq> t" using assms(2) by auto
    with held assms(3) that show ?thesis by (intro held_ok [of s' u]) (auto simp: contents_ok_def split: if_splits)
  next
    case free
    with assms(3) that show ?thesis by (intro free_ok) (auto simp: contents_ok_def split: if_splits)
  qed
  then show "getters_ok (goto t p s)" "getters_ok (goto t p (s\<lparr>get_kind := (get_kind s)(t := k)\<rparr>))"
    "getters_ok (goto t p (s\<lparr>returned := r\<rparr>))" by simp_all
qed

lemma lock_ok:
  assumes "getters_ok s" and "get_pc_of s t = G_Lock" and "mMutex s = None"
  shows "getters_ok (goto t G_Second (s\<lparr>mMutex := Some t\<rparr>))"
  using assms(1)
proof (cases rule: getters_okE)
  case free
  then show ?thesis by (intro held_ok [of _ t]) (auto simp: contents_ok_def)
qed (use assms(3) in simp)

text \<open>The holder's steps before the release keep the mutex; they change at most the static of their kind.\<close>

lemma holder_ok:
  assumes "getters_ok s" and "in_mutex (get_pc_of s t)" and "in_mutex p" and "s' = goto t p s1"
    and "mMutex s1 = mMutex s" and "get_pc_of s1 = get_pc_of s" and "get_kind s1 = get_kind s"
    and "statics s1 (\<not> get_kind s t) = statics s (\<not> get_kind s t)"
    and "good_static (statics s (\<not> get_kind s t)) (containers s) (\<not> get_kind s t) \<Longrightarrow>
      good_static (statics s (\<not> get_kind s t)) (containers s1) (\<not> get_kind s t)"
    and "busy_static (statics s (get_kind s t)) (containers s) (get_pc_of s t) (get_kind s t) \<Longrightarrow> contents_ok s \<Longrightarrow>
      busy_static (statics s1 (get_kind s t)) (containers s1) p (get_kind s t) \<and> contents_ok s1"
  shows "getters_ok s'"
  using assms(1)
proof (cases rule: getters_okE)
  case (held u)
  have u: "u = t" using held(3) [of t] assms(2) by blast
  with held assms show ?thesis by (intro held_ok [of _ t]) (auto simp: contents_ok_def)
qed (use assms(2) in simp)

lemma getters_ok_get: "getters_ok s \<Longrightarrow> getters_ok (LocTimerContainer_get t answers s)"
proof -
  assume ok: "getters_ok s"
  let ?k = "get_kind s t"
  have W: "c < next_container s \<and> statics s (wakeOnExpire obj) = Some c" if "containers s c = Some obj" for c obj
    using ok that by (simp add: getters_ok_def)
  show ?thesis
  proof (cases "get_pc_of s t")
    case G_Second
    show ?thesis unfolding LocTimerContainer_get_def Let_def G_Second get_pc.case
      by (rule holder_ok [OF ok _ _ refl]) (auto simp: G_Second)
  next
    case G_New
    obtain c s1 where n: "LocTimerContainer_new ?k answers s = (c, s1)" by fastforce
    note N = LocTimerContainer_new_simps [OF n]
    show ?thesis unfolding LocTimerContainer_get_def Let_def G_New get_pc.case n prod.case
    proof (rule holder_ok [OF ok _ _ refl])
      assume g: "good_static (statics s (\<not> ?k)) (containers s) (\<not> ?k)"
      then show "good_static (statics s (\<not> ?k)) (containers (set_static ?k (Some c) s1)) (\<not> ?k)"
        using N(1,5) ok by (auto simp: good_static_def getters_ok_def split: option.splits)
    next
      assume "busy_static (statics s ?k) (containers s) (get_pc_of s t) ?k" and c: "contents_ok s"
      then have "statics s ?k = None" by (simp add: G_New)
      then show "busy_static (statics (set_static ?k (Some c) s1) ?k) (containers (set_static ?k (Some c) s1)) (G_Test c) ?k \<and>
          contents_ok (set_static ?k (Some c) s1)"
        using N(1-5) N(9,10) c by (auto simp: contents_ok_def intro: less_SucI dest: W)
    qed (simp_all add: G_New N)
  next
    case (G_Test c)
    show ?thesis
    proof (cases "map_option mDevFd (containers s c) = Some (- 1)")
      case True
      then have eq: "LocTimerContainer_get t answers s = goto t G_Null (s\<lparr>containers := (containers s)(c := None)\<rparr>)"
        by (simp add: LocTimerContainer_get_def G_Test)
      show ?thesis
      proof (rule holder_ok [OF ok _ _ eq])
        show "busy_static (statics (s\<lparr>containers := (containers s)(c := None)\<rparr>) ?k) (containers (s\<lparr>containers := (containers s)(c := None)\<rparr>)) G_Null ?k \<and>
            contents_ok (s\<lparr>containers := (containers s)(c := None)\<rparr>)"
          if "busy_static (statics s ?k) (containers s) (get_pc_of s t) ?k" "contents_ok s"
          using that by (auto simp: G_Test contents_ok_def)
        show "good_static (statics s (\<not> ?k)) (containers (s\<lparr>containers := (containers s)(c := None)\<rparr>)) (\<not> ?k)"
          if "good_static (statics s (\<not> ?k)) (containers s) (\<not> ?k)"
          using that True by (auto simp: good_static_def split: option.splits)
      qed (simp_all add: G_Test)
    next
      case False
      then have eq: "LocTimerContainer_get t answers s = goto t G_Unlock s"
        using False by (auto simp: LocTimerContainer_get_def G_Test)
      show ?thesis by (rule holder_ok [OF ok _ _ eq]) (use False in \<open>auto simp: G_Test good_static_def\<close>)
    qed
  next
    case G_Null
    obtain c where "statics s ?k = Some c" "containers s c = None"
      using getters_ok_mutexD(2) [OF ok, of t] by (auto simp: G_Null)
    then have gone: "wakeOnExpire obj \<noteq> ?k \<and> d < next_container s \<and> statics s (wakeOnExpire obj) = Some d"
      if "containers s d = Some obj" for d obj using W [OF that] that by (cases "wakeOnExpire obj = ?k") auto
    show ?thesis unfolding LocTimerContainer_get_def Let_def G_Null get_pc.case
      by (rule holder_ok [OF ok _ _ refl]) (auto simp: G_Null good_static_def contents_ok_def dest: gone)
  next
    case G_Unlock
    from ok show ?thesis
    proof (cases rule: getters_okE)
      case (held u)
      have u: "u = t" using held(3) [of t] by (auto simp: G_Unlock)
      have "good_static (statics s k) (containers s) k" for k using held(4,5) u by (cases "k = ?k") (auto simp: G_Unlock)
      with held u show ?thesis unfolding LocTimerContainer_get_def Let_def G_Unlock get_pc.case
        by (intro free_ok) (auto simp: contents_ok_def)
    qed (use G_Unlock in \<open>metis in_mutex_simps(8)\<close>)
  qed (use ok in \<open>auto simp: LocTimerContainer_get_def Let_def intro: lock_ok outside_ok\<close>)
qed

lemma getters_ok_run: "get_run calm s \<Longrightarrow> getters_ok s"
  by (induction rule: get_run.induct)
    (auto simp: getters_ok_start getters_ok_get begin_get_def elim!: get_step.cases intro!: outside_ok)

section \<open>A calm system\<close>

text \<open>
  When every descriptor is created, a pointer never changes back and every call finds it set at the end.
\<close>

definition calm_ok :: "getters \<Rightarrow> bool" where
  "calm_ok s \<longleftrightarrow>
     (\<forall>t. get_pc_of s t \<noteq> G_Null \<and> (get_pc_of s t \<in> {G_Unlock, G_Return} \<longrightarrow> statics s (get_kind s t) \<noteq> None)) \<and>
     (\<forall>c obj. containers s c = Some obj \<longrightarrow> mDevFd obj \<noteq> - 1) \<and>
     (\<forall>(k, r) \<in> set (returned s). r \<noteq> None \<and> r = statics s k)"

lemma calm_okD:
  assumes "calm_ok s"
  shows "(k, r) \<in> set (returned s) \<Longrightarrow> r = statics s k \<and> statics s k \<noteq> None" "get_pc_of s t \<noteq> G_Null"
    "containers s c = Some obj \<Longrightarrow> mDevFd obj \<noteq> - 1"
  using assms by (auto simp: calm_ok_def)

lemma busy_live:
  "busy_static st cs p k \<Longrightarrow> st = Some n \<Longrightarrow> p \<noteq> G_Null \<Longrightarrow> \<exists>fd. cs n = Some \<lparr>wakeOnExpire = k, mDevFd = fd\<rparr>"
  by (cases p) (auto simp: good_static_def)

lemma calm_ok_get:
  assumes "getters_ok s" and "calm_ok s" and "container_fd answers \<noteq> - 1"
  shows "calm_ok (LocTimerContainer_get t answers s)"
proof (cases "get_pc_of s t")
  case G_New
  obtain c s1 where n: "LocTimerContainer_new (get_kind s t) answers s = (c, s1)" by fastforce
  note N = LocTimerContainer_new_simps [OF n]
  have "statics s (get_kind s t) = None"
    using getters_ok_mutexD(2) [OF assms(1), of t] by (simp add: G_New)
  then have R: "k \<noteq> get_kind s t" "r = statics s k \<and> r \<noteq> None" if "(k, r) \<in> set (returned s)" for k r
    using calm_okD(1) [OF assms(2) that] by force+
  show ?thesis using assms(2,3) N
    by (auto simp: LocTimerContainer_get_def G_New n calm_ok_def dest: R)
next
  case (G_Test c)
  then have "statics s (get_kind s t) = Some c" "containers s c \<noteq> None"
    using getters_ok_mutexD(2) [OF assms(1), of t] by auto
  with assms G_Test show ?thesis by (auto simp: LocTimerContainer_get_def calm_ok_def)
next
  case G_Return
  with assms show ?thesis by (auto simp: LocTimerContainer_get_def Let_def calm_ok_def)
qed (use assms in \<open>auto simp: LocTimerContainer_get_def calm_ok_def Let_def\<close>)

lemma calm_ok_run: "get_run True s \<Longrightarrow> calm_ok s"
proof (induction rule: get_run.induct)
  case (get_more s s')
  from get_more.hyps(2) show ?case
  proof cases
    case (get_call t k)
    with get_more.IH show ?thesis by (auto simp: calm_ok_def begin_get_def)
  next
    case (get_go answers t)
    with get_more.IH getters_ok_run [OF get_more.hyps(1)] show ?thesis by (simp add: calm_ok_get)
  qed
qed (simp add: calm_ok_def getters_start_def)

text \<open>C24: 
  However many threads ask at once: at most one task of either sort is created, and of either kind of container
  at most one is alive.  When every timer descriptor is created, every call returns the one container of its kind,
  alive and with a descriptor.
\<close>

theorem container_get_single:
  assumes "get_run calm s"
  shows "msg_tasks s \<le> 1 \<and> poll_tasks s \<le> 1 \<and>
    (\<forall>c d x y. containers s c = Some x \<longrightarrow> containers s d = Some y \<longrightarrow> wakeOnExpire x = wakeOnExpire y \<longrightarrow> c = d) \<and>
    (calm \<longrightarrow> (\<forall>(k, r) \<in> set (returned s). \<exists>c fd.
       r = Some c \<and> statics s k = Some c \<and> containers s c = Some \<lparr>wakeOnExpire = k, mDevFd = fd\<rparr> \<and> fd \<noteq> - 1))"
proof (intro conjI impI)
  have ok: "getters_ok s" using assms by (rule getters_ok_run)
  then show "msg_tasks s \<le> 1" "poll_tasks s \<le> 1" by (simp_all add: getters_ok_def)
  show "\<forall>c d x y. containers s c = Some x \<longrightarrow> containers s d = Some y \<longrightarrow> wakeOnExpire x = wakeOnExpire y \<longrightarrow> c = d"
  proof (intro allI impI)
    fix c d x y assume c: "containers s c = Some x" and d: "containers s d = Some y" and k: "wakeOnExpire x = wakeOnExpire y"
    have "statics s (wakeOnExpire x) = Some c" "statics s (wakeOnExpire y) = Some d"
      using ok c d by (auto simp: getters_ok_def)
    with k show "c = d" by simp
  qed
  assume calm
  then have c: "calm_ok s" using assms calm_ok_run by simp
  have "\<exists>c fd. r = Some c \<and> statics s k = Some c \<and> containers s c = Some \<lparr>wakeOnExpire = k, mDevFd = fd\<rparr> \<and> fd \<noteq> - 1"
    if "(k, r) \<in> set (returned s)" for k r
  proof -
    have r: "r = statics s k" "statics s k \<noteq> None" using c that by (auto simp: calm_ok_def)
    then obtain n where n: "statics s k = Some n" by auto
    have "\<exists>fd. containers s n = Some \<lparr>wakeOnExpire = k, mDevFd = fd\<rparr>"
      using ok
    proof (cases rule: getters_okE)
      case (held t)
      then show ?thesis using n c
        using busy_live [of "statics s k" "containers s" "get_pc_of s t" k n] calm_okD(2) [OF c]
        by (cases "get_kind s t = k") (auto simp: good_static_def)
    next
      case free
      from free(3) [of k] n show ?thesis by (auto simp: good_static_def)
    qed
    then obtain fd where fd: "containers s n = Some \<lparr>wakeOnExpire = k, mDevFd = fd\<rparr>" by blast
    with calm_okD(3) [OF c fd] r n show ?thesis by simp
  qed
  then show "\<forall>(k, r) \<in> set (returned s). \<exists>c fd.
       r = Some c \<and> statics s k = Some c \<and> containers s c = Some \<lparr>wakeOnExpire = k, mDevFd = fd\<rparr> \<and> fd \<noteq> - 1" by auto
qed

text \<open>Two threads that both find no container of timers at first.\<close>

definition example_calls :: getters where
  "example_calls = begin_get 1 False (begin_get 0 False getters_start)"

definition get_all :: "int \<times> bool \<times> int \<Rightarrow> nat list \<Rightarrow> getters \<Rightarrow> getters" where
  "get_all answers ts s = fold (\<lambda>t. LocTimerContainer_get t answers) ts s"

lemma get_all_run: "get_run calm s \<Longrightarrow> (calm \<longrightarrow> container_fd answers \<noteq> - 1) \<Longrightarrow> get_run calm (get_all answers ts s)"
  unfolding get_all_def by (induction ts arbitrary: s) (auto intro: get_more get_go)

lemma example_calls_run: "get_run calm example_calls"
proof -
  have "get_run calm (begin_get 0 False getters_start)"
    by (rule get_more [OF get_start get_call]) (simp add: getters_start_def)
  then show ?thesis unfolding example_calls_def
    by (rule get_more [OF _ get_call]) (simp add: begin_get_def getters_start_def)
qed

theorem container_get_single_witness:
  "returned (get_all (7, False, 0) [0, 1, 0, 0, 0, 0, 0, 1, 1, 1, 1, 0] example_calls) = [(False, Some 0), (False, Some 0)] \<and>
   msg_tasks (get_all (7, False, 0) [0, 1, 0, 0, 0, 0, 0, 1, 1, 1, 1, 0] example_calls) \<le> 1"
proof
  show "returned (get_all (7, False, 0) [0, 1, 0, 0, 0, 0, 0, 1, 1, 1, 1, 0] example_calls) = [(False, Some 0), (False, Some 0)]"
    by code_simp
  show "msg_tasks (get_all (7, False, 0) [0, 1, 0, 0, 0, 0, 0, 1, 1, 1, 1, 0] example_calls) \<le> 1"
    using container_get_single [of True, OF get_all_run [OF example_calls_run]] by (simp add: container_fd_def)
qed

section \<open>What the first check risks\<close>

text \<open>
  When the descriptor is refused, the pointer has been set before the container is deleted: a thread that reads it
  in between, without the mutex, returns a container that is gone.
\<close>

lemma failed_container_dangles:
  "\<exists>s. get_run False s \<and> returned s = [(False, Some 0)] \<and> containers s 0 = None"
proof (intro exI conjI)
  let ?s = "get_all (- 1, False, - 1) [0, 0, 0, 0, 1, 1, 0] example_calls"
  show "get_run False ?s" by (rule get_all_run [OF example_calls_run]) simp
  show "returned ?s = [(False, Some 0)]" "containers ?s 0 = None" by code_simp+
qed

text \<open>Nobody waits for ever: while a call is under way, some thread's next step brings it closer to its end.\<close>

fun get_left :: "get_pc \<Rightarrow> nat" where
  "get_left G_Idle = 0"
| "get_left G_Return = 1"
| "get_left G_Unlock = 2"
| "get_left G_Null = 3"
| "get_left (G_Test c) = 4"
| "get_left G_New = 5"
| "get_left G_Second = 6"
| "get_left G_Lock = 7"
| "get_left G_First = 8"

lemma get_progress:
  assumes "get_run calm s" and "get_pc_of s t \<noteq> G_Idle"
  shows "\<exists>u. get_pc_of s u \<noteq> G_Idle \<and>
    (\<forall>answers. get_left (get_pc_of (LocTimerContainer_get u answers s) u) < get_left (get_pc_of s u))"
proof -
  have free: "get_left (get_pc_of (LocTimerContainer_get u answers s) u) < get_left (get_pc_of s u)"
    if "get_pc_of s u \<noteq> G_Idle" "get_pc_of s u = G_Lock \<longrightarrow> mMutex s = None" for u answers
    using that by (cases "get_pc_of s u") (auto simp: LocTimerContainer_get_def Let_def split: prod.split)
  show ?thesis
  proof (cases "mMutex s")
    case None
    with free assms(2) show ?thesis by blast
  next
    case (Some u)
    then have "in_mutex (get_pc_of s u)" using getters_ok_run [OF assms(1)] unfolding getters_ok_def by blast
    then have "get_pc_of s u \<noteq> G_Idle" "get_pc_of s u \<noteq> G_Lock" by (auto simp: in_mutex_def)
    with free show ?thesis by blast
  qed
qed

section \<open>The poll task\<close>

text \<open>
  The constructor and \<^verbatim>\<open>destroy\<close> of \<^verbatim>\<open>LocTimerPollTask\<close>: with a thread, the thread deletes the task when it ends;
  without one, \<^verbatim>\<open>destroy\<close> does.
\<close>

record poll_task =
  mFd :: int
  mThread :: bool
  self_deleted :: bool

definition LocTimerPollTask_new :: "int \<Rightarrow> bool \<Rightarrow> poll_task" where
  "LocTimerPollTask_new epoll_fd thread_starts = \<lparr>mFd = epoll_fd, mThread = thread_starts, self_deleted = False\<rparr>"

definition poll_task_destroy :: "poll_task \<Rightarrow> bool \<times> poll_task" where
  "poll_task_destroy p =
     (if mThread p then (True, p\<lparr>mThread := False\<rparr>) else (False, p\<lparr>self_deleted := True\<rparr>))"

text \<open>The first component is the stop of the thread; a task is stopped or deleted, never both.\<close>

lemma poll_task_destroy_once:
  "poll_task_destroy (LocTimerPollTask_new fd ok) = (stopped, p) \<Longrightarrow> stopped = ok \<and> self_deleted p = (\<not> ok)"
  by (auto simp: poll_task_destroy_def LocTimerPollTask_new_def split: if_splits)

end
