(* ===== verification/Loc_Base.thy ===== *)
theory Loc_Base
  imports Loc_Api
begin

text \<open>
  The edges of the GPS service: \<^verbatim>\<open>loc_api/libloc_api_50001/gps.c\<close>, the module that the framework opens; the table
  of extensions at the end of \<^verbatim>\<open>loc.cpp\<close>; and the adapters that handle nothing themselves,
  \<^verbatim>\<open>core/LocAdapterBase.cpp\<close> behind \<^verbatim>\<open>core/LocAdapterProxyBase.h\<close>, which other clients of the modem register.
\<close>

section \<open>Adapters behind a proxy\<close>

text \<open>
  What a class derived from the proxy overrides, on a state \<open>'w\<close>; the second field of the adapter is the proxy
  that it belongs to, if any.
\<close>

record 'w proxy_ops =
  proxy_engine_up :: "'w \<Rightarrow> 'w"
  proxy_engine_down :: "'w \<Rightarrow> 'w"
  proxy_report_position :: "ulp_location \<Rightarrow> location_extended \<Rightarrow> loc_sess_status \<Rightarrow> u32 \<Rightarrow> 'w \<Rightarrow> bool \<times> 'w"

definition LocAdapterProxyBase :: "'w proxy_ops" where
  "LocAdapterProxyBase = \<lparr>proxy_engine_up = (\<lambda>w. w), proxy_engine_down = (\<lambda>w. w), proxy_report_position = (\<lambda>_ _ _ _ w. (False, w))\<rparr>"

text \<open>
  Every virtual method of \<^verbatim>\<open>LocAdapterBase\<close> that the modem calls: the proxy hears of the engine and of
  positions, and the rest is the default implementation, which handles nothing.
\<close>

fun base_upcall :: "'w proxy_ops option \<Rightarrow> up_call \<Rightarrow> 'w \<Rightarrow> bool \<times> 'w" where
  "base_upcall proxy handleEngineUpEvent w = (False, case proxy of Some p \<Rightarrow> proxy_engine_up p w | None \<Rightarrow> w)"
| "base_upcall proxy handleEngineDownEvent w = (False, case proxy of Some p \<Rightarrow> proxy_engine_down p w | None \<Rightarrow> w)"
| "base_upcall proxy (reportPosition loc ext status tech) w =
     (case proxy of None \<Rightarrow> (False, w) | Some p \<Rightarrow> (False, snd (proxy_report_position p loc ext status tech w)))"
| "base_upcall proxy _ w = (False, w)"

text \<open>The mask of an adapter, and the message to the modem that follows its change.\<close>

definition adapter_updateEvtMask ::
    "nat \<Rightarrow> event_mask \<Rightarrow> loc_registration_mask_status \<Rightarrow> (nat \<Rightarrow> event_mask) \<Rightarrow> loc_api \<Rightarrow> (nat \<Rightarrow> event_mask) \<times> loc_api" where
  "adapter_updateEvtMask a event isEnabled masks api =
     (let masks = masks(a := (if isEnabled = LOC_REGISTRATION_MASK_ENABLED then masks a OR event
                              else masks a AND NOT event))
      in (masks, updateEvtMask masks api))"

text \<open>The constructor registers the adapter.\<close>

definition LocAdapterBase_new :: "nat \<Rightarrow> event_mask \<Rightarrow> (nat \<Rightarrow> event_mask) \<Rightarrow> loc_api \<Rightarrow> (nat \<Rightarrow> event_mask) \<times> loc_api" where
  "LocAdapterBase_new a evtMask masks api = (let masks = masks(a := evtMask) in (masks, addAdapter masks a api))"

lemma base_handles_nothing: "fst (base_upcall proxy call w) = False"
  by (cases call) (simp_all split: option.splits)

lemma base_ignores_requests: "\<not> is_broadcast call \<Longrightarrow> base_upcall proxy call w = (False, w)"
  by (cases call) simp_all

lemma first_handling_bases:
  assumes "\<And>a w. a \<in> set as \<Longrightarrow> a \<noteq> b \<Longrightarrow> call a w = (False, w)" and "distinct as"
  shows "first_handling call as w = (if b \<in> set as then snd (call b w) else w)"
  using assms
proof (induction as arbitrary: w)
  case (Cons a as)
  have rest: "first_handling call as w = (if b \<in> set as then snd (call b w) else w)" for w
    using Cons by simp
  show ?case
  proof (cases "a = b")
    case True
    then have "b \<notin> set as" using Cons.prems(2) by simp
    with True rest show ?thesis by (auto split: prod.splits)
  next
    case False
    then have "call a w = (False, w)" using Cons.prems(1) by simp
    with False rest show ?thesis by simp
  qed
qed simp

lemma api_upcall_request:
  "\<not> is_broadcast c \<Longrightarrow> api_upcall vcall post api c w = to_1st_handling_adapter (\<lambda>a w. vcall a c w) (mLocAdapters api) w"
  by (cases c) simp_all

text \<open>
  A request of the modem reaches the one adapter that overrides the handlers, wherever it stands among adapters
  behind proxies, and nothing else happens; without such an adapter nothing happens at all.
\<close>

theorem base_adapters_transparent:
  assumes "api_ok api" and "\<not> is_broadcast c"
    and "\<forall>a \<in> set (adapters_of api) - {b}. \<exists>proxy. \<forall>w. vcall a c w = base_upcall proxy c w"
  shows "api_upcall vcall post api c w = (if b \<in> set (adapters_of api) then snd (vcall b c w) else w)"
proof -
  have slots: "mLocAdapters api = slots_of (adapters_of api)" and "distinct (adapters_of api)"
    using assms(1) by (simp_all add: api_ok_def)
  moreover have "vcall a c w = (False, w)" if "a \<in> set (adapters_of api)" "a \<noteq> b" for a w
  proof -
    have "\<exists>proxy. \<forall>w. vcall a c w = base_upcall proxy c w" using assms(3) that by simp
    then obtain proxy where "\<forall>w. vcall a c w = base_upcall proxy c w" ..
    then show ?thesis by (simp add: base_ignores_requests [OF assms(2)])
  qed
  ultimately show ?thesis
    unfolding api_upcall_request [OF assms(2)] slots to_1st_slots
    using first_handling_bases [where call = "\<lambda>a w. vcall a c w" and as = "adapters_of api" and b = b] by simp
qed

theorem base_adapters_transparent_witness:
  "api_upcall (\<lambda>a c w. if a = 2 then (True, w + 1) else base_upcall None c w) (\<lambda>m w. w)
     (fold (api_op (\<lambda>a. 0)) [AddAdapter 1, AddAdapter 2, AddAdapter 3] (LocApiBase_new 0)) requestTime (0 :: nat) = 1"
proof -
  let ?api = "fold (api_op (\<lambda>a. 0)) [AddAdapter 1, AddAdapter 2, AddAdapter 3] (LocApiBase_new 0)"
  have ok: "api_ok ?api" "adapters_of ?api = [1, 2, 3]"
    using api_run_abs [OF api_ok_new(1), of "\<lambda>a. 0" "[AddAdapter 1, AddAdapter 2, AddAdapter 3]" 0]
    by (simp_all add: api_ok_new abs_add_def MAX_ADAPTERS_def)
  define v :: "nat \<Rightarrow> up_call \<Rightarrow> nat \<Rightarrow> bool \<times> nat" where
    "v = (\<lambda>a c w. if a = 2 then (True, w + 1) else base_upcall None c w)"
  have "\<forall>a \<in> set (adapters_of ?api) - {2}. \<exists>proxy. \<forall>w. v a requestTime w = base_upcall proxy requestTime w"
    by (auto simp: v_def)
  then show ?thesis
    using base_adapters_transparent [where vcall = v and api = ?api and c = requestTime and b = 2
        and post = "\<lambda>m w. w" and w = 0] ok unfolding v_def by simp
qed

section \<open>Extensions\<close>

text \<open>The names of the interfaces come from the framework; the other arguments say what is found on the device.\<close>

datatype ext_name =
  GPS_XTRA_INTERFACE | AGPS_INTERFACE | GPS_NI_INTERFACE | AGPS_RIL_INTERFACE | GPS_GEOFENCING_INTERFACE
| SUPL_CERTIFICATE_INTERFACE | GNSS_CONFIGURATION_INTERFACE | GPS_MEASUREMENT_INTERFACE | OtherInterface string

datatype ext_interface =
  sLocEngXTRAInterface | sLocEngAGpsInterface | sLocEngNiInterface | sLocEngAGpsRilInterface | GeofenceInterface nat
| sLocEngAGpsCertInterface | sLocEngConfigInterface | sLocEngGpsMeasurementInterface

text \<open>
  The library of the geofences: whether it opens, whether it has its function, and what that returns; the
  interface that was found stays in a static variable, which every later call returns even when it fails.
\<close>

definition get_geofence_interface :: "bool \<Rightarrow> nat option option \<Rightarrow> nat option \<Rightarrow> nat option \<times> nat option" where
  "get_geofence_interface opens symbol geofence_interface =
     (if \<not> opens then (geofence_interface, geofence_interface)
      else (case symbol of
              None \<Rightarrow> (geofence_interface, geofence_interface)
            | Some r \<Rightarrow> (r, r)))"

definition loc_get_extension ::
    "string option \<Rightarrow> u32 \<Rightarrow> u32 \<Rightarrow> bool \<Rightarrow> nat option option \<Rightarrow> ext_name \<Rightarrow> nat option \<Rightarrow> ext_interface option \<times> nat option" where
  "loc_get_extension baseband CAPABILITIES GPS_CAPABILITY_GEOFENCING opens symbol name geofence =
     (case name of
        GPS_XTRA_INTERFACE \<Rightarrow> (Some sLocEngXTRAInterface, geofence)
      | AGPS_INTERFACE \<Rightarrow> (Some sLocEngAGpsInterface, geofence)
      | GPS_NI_INTERFACE \<Rightarrow> (Some sLocEngNiInterface, geofence)
      | AGPS_RIL_INTERFACE \<Rightarrow>
          (if (case baseband of Some b \<Rightarrow> b | None \<Rightarrow> ''msm'') = ''csfb'' then Some sLocEngAGpsRilInterface else None, geofence)
      | GPS_GEOFENCING_INTERFACE \<Rightarrow>
          (if CAPABILITIES OR GPS_CAPABILITY_GEOFENCING = CAPABILITIES then
             (case get_geofence_interface opens symbol geofence of (r, geofence) \<Rightarrow> (map_option GeofenceInterface r, geofence))
           else (None, geofence))
      | SUPL_CERTIFICATE_INTERFACE \<Rightarrow> (Some sLocEngAGpsCertInterface, geofence)
      | GNSS_CONFIGURATION_INTERFACE \<Rightarrow> (Some sLocEngConfigInterface, geofence)
      | GPS_MEASUREMENT_INTERFACE \<Rightarrow> (Some sLocEngGpsMeasurementInterface, geofence)
      | OtherInterface _ \<Rightarrow> (None, geofence))"

text \<open>The functions of the radio interface that do nothing.\<close>

definition loc_agps_ril_init :: "'s \<Rightarrow> 's" where "loc_agps_ril_init s = s"
definition loc_agps_ril_set_ref_location :: "'s \<Rightarrow> 's" where "loc_agps_ril_set_ref_location s = s"
definition loc_agps_ril_set_set_id :: "'s \<Rightarrow> 's" where "loc_agps_ril_set_set_id s = s"
definition loc_agps_ril_ni_message :: "'s \<Rightarrow> 's" where "loc_agps_ril_ni_message s = s"
definition loc_agps_ril_update_network_state :: "'s \<Rightarrow> 's" where "loc_agps_ril_update_network_state s = s"

lemma ril_needs_csfb:
  "fst (loc_get_extension baseband caps geo opens symbol AGPS_RIL_INTERFACE g) \<noteq> None \<longleftrightarrow> baseband = Some ''csfb''"
  by (simp add: loc_get_extension_def split: option.splits)

lemma geofence_needs_capability:
  "fst (loc_get_extension baseband caps geo opens symbol GPS_GEOFENCING_INTERFACE g) \<noteq> None \<Longrightarrow> geo AND NOT caps = 0"
proof -
  assume "fst (loc_get_extension baseband caps geo opens symbol GPS_GEOFENCING_INTERFACE g) \<noteq> None"
  then have "caps OR geo = caps" by (simp add: loc_get_extension_def split: if_splits)
  then have "geo AND NOT caps = geo AND NOT (caps OR geo)" by simp
  also have "\<dots> = 0" by (simp add: bit_eq_iff bit_simps)
  finally show ?thesis .
qed

section \<open>The module\<close>

text \<open>Opening the device: the result, and the device (its interface function) when it could be allocated.\<close>

definition open_gps :: "bool \<Rightarrow> 'i \<Rightarrow> int \<times> 'i option" where
  "open_gps alloc get_gps_interface = (if \<not> alloc then (- 1, None) else (0, Some get_gps_interface))"

end
