(* ===== verification/Base_Modem.thy ===== *)
theory Base_Modem
  imports Eng_Machines Loc_Context
begin

text \<open>
  The modem interface that a context falls back to: \<^verbatim>\<open>LocApiBase\<close> itself, whose default implementations
  (\<^verbatim>\<open>core/LocApiBase.cpp\<close>, the macro \<^verbatim>\<open>DEFAULT_IMPL\<close>) log and return a constant.  It is one instance of the
  parameter \<open>modem\<close> of the engine, and the engine on top of it is that of \<open>Eng_Run\<close>.
\<close>

section \<open>The default implementations\<close>

text \<open>Those that do not report success.\<close>

definition base_refusal :: "modem_call \<Rightarrow> int option" where
  "base_refusal c =
     (case c of
        InitDataServiceClient \<Rightarrow> Some (- 1)
      | OpenAndStartDataCall \<Rightarrow> Some (- 1)
      | SetGpsLock lock \<Rightarrow> Some (- 1)
      | UpdateRegistrationMask ev st \<Rightarrow> Some (- 1)
      | GnssConstellationConfig \<Rightarrow> Some 0
      | _ \<Rightarrow> None)"

definition LocApiBase_call :: "modem_call \<Rightarrow> int" where
  "LocApiBase_call c = (case base_refusal c of Some r \<Rightarrow> r | None \<Rightarrow> LOC_API_ADAPTER_ERR_SUCCESS)"

text \<open>\<^verbatim>\<open>getBestAvailableZppFix\<close> clears the position and the technology.\<close>

definition base_zpp_fix :: "ulp_location \<times> u32" where
  "base_zpp_fix =
     (\<lparr>has_lat_long = False, has_altitude = False, has_speed = False, has_bearing = False, latitude = 0,
       longitude = 0, altitude = 0, speed = 0, bearing = 0, timestamp = 0, has_accuracy = False, accuracy = 0,
       position_source = 0, rawData = None\<rparr>, 0)"

definition base_env :: "eng_env \<Rightarrow> eng_env" where
  "base_env env = env\<lparr>modem := \<lambda>_. LocApiBase_call, data_call := \<lambda>_. LocApiBase_call OpenAndStartDataCall,
     zpp_fix := base_zpp_fix\<rparr>"

text \<open>Without the libraries, and always on an MPQ, a context has this interface.\<close>

lemma base_chosen:
  "createLocApi libs target proxy = LocApiDummy \<longleftrightarrow>
     target = TARGET_MPQ \<or>
     \<not> lbs_has_api proxy libs \<and>
       (case loc_api_v02 libs of Some y \<Rightarrow> \<not> y | None \<Rightarrow> (case loc_api_rpc libs of Some y \<Rightarrow> \<not> y | None \<Rightarrow> True))"
  by (auto simp: createLocApi_def Let_def split: option.splits if_splits)

section \<open>The engine without a modem\<close>

text \<open>What no run on this interface reaches: the data service, and calls for data of its own.\<close>

definition no_data_service :: "loc_eng \<Rightarrow> bool" where
  "no_data_service e \<longleftrightarrow> nifs e ds_nif = None"

lemma no_data_nif_do: "no_data_service e \<Longrightarrow> no_data_service (nif_do env w f e)"
  by (auto simp: no_data_service_def nifs_nif_do split: option.split)

interpretation dataless: restart_contract "base_env env" no_data_service for env
proof (unfold_locales, goal_cases)
  case (6 e cb)
  then show ?case by (auto simp: loc_eng_agps_init_def no_data_service_def Let_def)
next
  case (7 e)
  then show ?case
    by (simp add: call_modem_def base_env_def LocApiBase_call_def base_refusal_def no_data_service_def)
next
  case (8 e w)
  then show ?case by (auto simp: no_data_service_def drop_subscribers_def)
qed (auto simp: nif_subscribe_def nif_unsubscribe_def nif_event_def no_data_nif_do, auto simp: no_data_service_def)

text \<open>
  On a device without the vendor's interface the data service never comes up, in any run and across restarts: a
  request for an emergency session is served by the machine for assisted positioning, or refused.
\<close>

theorem base_modem_emergency:
  assumes "eng_started e" and "eng_run (base_env env) evs e = Some e'"
  shows "nifs e' ds_nif = None \<and>
    proc (base_env env) (Agps (LocEngRequestSuplEs i)) e' =
      Some (if nifs e' agnss_nif \<noteq> None then nif_subscribe (base_env env) agnss_nif (ATLSubscriber i False) e'
            else to_modem (base_env env) (MAtlOpenStatus i 0 None (- 1) (- 1)) e')"
proof -
  have "no_data_service e" by (simp add: no_data_service_def eng_startedD(2) [OF assms(1)])
  then have "no_data_service e'" by (rule dataless.any_run) (rule assms(2))
  then show ?thesis by (simp add: no_data_service_def proc_def agps_proc_def)
qed

text \<open>
  The interface reports success for a position it has cleared; the engine does not look at the position either,
  and hands it to the fusion as a success.
\<close>

lemma base_zpp_reported:
  assumes "\<not> ulp_foreign (mUlp (adapter e))" and "proc (base_env env) LocEngGetZpp e = Some e'"
  shows "\<exists>loc ext. ulp_out (adapter e') =
      ulp_out (adapter e) @ [(ulp_obj (mUlp (adapter e)), UlpReportPosition loc ext LOC_SESS_SUCCESS 0)] \<and>
    \<not> has_lat_long loc \<and> latitude loc = 0 \<and> longitude loc = 0"
  using assms by (auto simp: proc_def get_zpp_def Let_def base_env_def base_zpp_fix_def call_ulp_def call_modem_def ulp_base_def)

text \<open>The check for the measurement service never adds the capability.\<close>

lemma base_no_measurements:
  "proc (base_env env) LocEngGnssConstellationConfig e = Some e' \<Longrightarrow> conf e' = conf e"
  by (auto simp: proc_def call_modem_def base_env_def LocApiBase_call_def base_refusal_def)

end
