(* ===== verification/Loc_Logging.thy ===== *)
theory Loc_Logging
  imports Loc_Target Nmea
begin

text \<open>
  \<^verbatim>\<open>log_util.h\<close>, the rest of \<^verbatim>\<open>loc_log.cpp\<close> and \<^verbatim>\<open>loc_core_log.cpp\<close>: which messages reach the log at which level, the
  time stamps in front of them, and the names of constants.  The log of the system, its clock and the constants of
  \<^verbatim>\<open>hardware/gps.h\<close> are parameters.
\<close>

section \<open>Levels\<close>

datatype log_level = LevelE | LevelW | LevelI | LevelD | LevelV

fun log_rank :: "log_level \<Rightarrow> u32" where
  "log_rank LevelE = 1"
| "log_rank LevelW = 2"
| "log_rank LevelI = 3"
| "log_rank LevelD = 4"
| "log_rank LevelV = 5"

record loc_logger_s =
  DEBUG_LEVEL :: u32
  TIMESTAMP :: u32

text \<open>A user build caps the level.\<close>

definition loc_logger_init :: "bool \<Rightarrow> u32 \<Rightarrow> u32 \<Rightarrow> loc_logger_s" where
  "loc_logger_init user_build debug stamp =
     \<lparr>DEBUG_LEVEL = (if user_build \<and> debug > 2 then 2 else debug), TIMESTAMP = stamp\<rparr>"

definition if_loc_log :: "log_level \<Rightarrow> loc_logger_s \<Rightarrow> bool" where
  "if_loc_log l g \<longleftrightarrow> log_rank l \<le> DEBUG_LEVEL g \<and> DEBUG_LEVEL g \<le> 5"

text \<open>
  The macros \<^verbatim>\<open>LOC_LOGE\<close> to \<^verbatim>\<open>LOC_LOGV\<close>: the function of the system's log that gets the line, if any.  With a level
  from the configuration every line goes out as an error, so that the system does not filter it.
\<close>

definition LOC_LOG :: "log_level \<Rightarrow> loc_logger_s \<Rightarrow> log_level option" where
  "LOC_LOG l g = (if if_loc_log l g then Some LevelE else if DEBUG_LEVEL g = 0xff then Some l else None)"

text \<open>A more severe line is never dropped when a less severe one is written.\<close>

lemma log_levels_nested:
  "LOC_LOG l g \<noteq> None \<Longrightarrow> log_rank l' \<le> log_rank l \<Longrightarrow> LOC_LOG l' g \<noteq> None"
  by (auto simp: LOC_LOG_def if_loc_log_def split: if_splits dest: order_trans)

text \<open>
  A level from 6 to 254, and 0, writes nothing at all.  The comment has the initial level mean the levels of the
  system; a user build turns it into 2, errors and warnings only.
\<close>

lemma log_levels_out_of_range: "DEBUG_LEVEL g = 0 \<or> 5 < DEBUG_LEVEL g \<and> DEBUG_LEVEL g \<noteq> 0xff \<Longrightarrow> LOC_LOG l g = None"
  by (cases l) (auto simp: LOC_LOG_def if_loc_log_def)

lemma user_build_cuts_default:
  "LOC_LOG l (loc_logger_init True 0xff ts) = (if l \<in> {LevelE, LevelW} then Some LevelE else None)"
  "LOC_LOG l (loc_logger_init False 0xff ts) = Some l"
  by (cases l; simp add: LOC_LOG_def if_loc_log_def loc_logger_init_def)+

section \<open>Time stamps\<close>

text \<open>\<^verbatim>\<open>get_timestamp\<close> on a clock that has not run below zero; \<^verbatim>\<open>loc_get_time\<close> gets the local time from the system.\<close>

definition get_timestamp :: "nat \<Rightarrow> nat \<Rightarrow> string" where
  "get_timestamp tv_sec tv_usec =
     (let hh = tv_sec div 3600 mod 24; mm = tv_sec mod 3600 div 60; ss = tv_sec mod 60
      in fmt_d 2 (int hh) @ '':'' @ fmt_d 2 (int mm) @ '':'' @ fmt_d 2 (int ss) @ ''.'' @ fmt_d 6 (int tv_usec))"

definition loc_get_time :: "nat \<times> nat \<times> nat \<Rightarrow> nat \<Rightarrow> string" where
  "loc_get_time now_tm tv_usec =
     (case now_tm of (hh, mm, ss) \<Rightarrow>
        fmt_d 2 (int hh) @ '':'' @ fmt_d 2 (int mm) @ '':'' @ fmt_d 2 (int ss) @ ''.'' @ fmt_d 3 (int (tv_usec div 1000)))"

lemma length_fmt_d_exact: "0 \<le> i \<Longrightarrow> i < 10 ^ w \<Longrightarrow> 0 < w \<Longrightarrow> length (fmt_d w i) = w"
  using length_fmt_d_nonneg [of i w w] by (simp add: fmt_d_def length_pad0)

lemma length_get_timestamp: "tv_usec < 1000000 \<Longrightarrow> length (get_timestamp tv_sec tv_usec) = 15"
  by (simp add: get_timestamp_def Let_def length_fmt_d_exact less_mult_imp_div_less)

text \<open>The buffer of 13 bytes that the comment of \<^verbatim>\<open>loc_get_time\<close> asks for is enough, with the end of the string.\<close>

lemma length_loc_get_time:
  "hh < 24 \<Longrightarrow> mm < 60 \<Longrightarrow> ss < 61 \<Longrightarrow> tv_usec < 1000000 \<Longrightarrow> length (loc_get_time (hh, mm, ss) tv_usec) = 12"
  by (simp add: loc_get_time_def length_fmt_d_exact less_mult_imp_div_less)

section \<open>Names\<close>

text \<open>\<open>hdr\<close> gives the constants of \<^verbatim>\<open>hardware/gps.h\<close>; the others are those of \<^verbatim>\<open>gps_extended_c.h\<close> and \<^verbatim>\<open>msg_q.h\<close>.\<close>

definition names_of :: "(string \<Rightarrow> u32) \<Rightarrow> string list \<Rightarrow> (string \<times> u32) list" where
  "names_of hdr ns = map (\<lambda>n. (n, hdr n)) ns"

definition loc_msg_q_status :: "(string \<times> u32) list" where
  "loc_msg_q_status =
     [(''eMSG_Q_SUCCESS'', 0), (''eMSG_Q_FAILURE_GENERAL'', - 1), (''eMSG_Q_INVALID_PARAMETER'', - 2),
      (''eMSG_Q_INVALID_HANDLE'', - 3), (''eMSG_Q_UNAVAILABLE_RESOURCE'', - 4), (''eMSG_Q_INSUFFICIENT_BUFFER'', - 5)]"

definition loc_get_msg_q_status :: "u32 \<Rightarrow> string" where
  "loc_get_msg_q_status = loc_get_name_from_val loc_msg_q_status"

definition log_succ_fail_string :: "int \<Rightarrow> string" where
  "log_succ_fail_string is_succ = (if is_succ \<noteq> 0 then ''successful'' else ''failed'')"

definition gps_status_name :: "(string \<Rightarrow> u32) \<Rightarrow> (string \<times> u32) list" where
  "gps_status_name hdr = names_of hdr
     [''GPS_STATUS_NONE'', ''GPS_STATUS_SESSION_BEGIN'', ''GPS_STATUS_SESSION_END'', ''GPS_STATUS_ENGINE_ON'', ''GPS_STATUS_ENGINE_OFF'']"

definition loc_get_gps_status_name :: "(string \<Rightarrow> u32) \<Rightarrow> u32 \<Rightarrow> string" where
  "loc_get_gps_status_name hdr = loc_get_name_from_val (gps_status_name hdr)"

definition loc_eng_position_modes :: "(string \<times> u32) list" where
  "loc_eng_position_modes =
     [(''LOC_POSITION_MODE_STANDALONE'', 0), (''LOC_POSITION_MODE_MS_BASED'', 1), (''LOC_POSITION_MODE_MS_ASSISTED'', 2),
      (''LOC_POSITION_MODE_RESERVED_1'', 3), (''LOC_POSITION_MODE_RESERVED_2'', 4), (''LOC_POSITION_MODE_RESERVED_3'', 5),
      (''LOC_POSITION_MODE_RESERVED_4'', 6), (''LOC_POSITION_MODE_RESERVED_5'', 7)]"

definition loc_get_position_mode_name :: "u32 \<Rightarrow> string" where
  "loc_get_position_mode_name = loc_get_name_from_val loc_eng_position_modes"

definition loc_get_position_recurrence_name :: "(string \<Rightarrow> u32) \<Rightarrow> u32 \<Rightarrow> string" where
  "loc_get_position_recurrence_name hdr =
     loc_get_name_from_val (names_of hdr [''GPS_POSITION_RECURRENCE_PERIODIC'', ''GPS_POSITION_RECURRENCE_SINGLE''])"

definition loc_eng_agps_types :: "(string \<times> u32) list" where
  "loc_eng_agps_types =
     [(''AGPS_TYPE_INVALID'', - 1), (''AGPS_TYPE_ANY'', 0), (''AGPS_TYPE_SUPL'', 1), (''AGPS_TYPE_C2K'', 2), (''AGPS_TYPE_WWAN_ANY'', 3)]"

definition loc_get_agps_type_name :: "u32 \<Rightarrow> string" where
  "loc_get_agps_type_name = loc_get_name_from_val loc_eng_agps_types"

definition loc_get_ni_type_name :: "(string \<Rightarrow> u32) \<Rightarrow> u32 \<Rightarrow> string" where
  "loc_get_ni_type_name hdr = loc_get_name_from_val
     (names_of hdr [''GPS_NI_TYPE_VOICE'', ''GPS_NI_TYPE_UMTS_SUPL'', ''GPS_NI_TYPE_UMTS_CTRL_PLANE''] @
      [(''GPS_NI_TYPE_EMERGENCY_SUPL'', 4)])"

definition loc_get_ni_response_name :: "(string \<Rightarrow> u32) \<Rightarrow> u32 \<Rightarrow> string" where
  "loc_get_ni_response_name hdr = loc_get_name_from_val
     (names_of hdr [''GPS_NI_RESPONSE_ACCEPT'', ''GPS_NI_RESPONSE_DENY'', ''GPS_NI_RESPONSE_DENY''])"

definition loc_get_ni_encoding_name :: "(string \<Rightarrow> u32) \<Rightarrow> u32 \<Rightarrow> string" where
  "loc_get_ni_encoding_name hdr = loc_get_name_from_val
     (names_of hdr [''GPS_ENC_NONE'', ''GPS_ENC_SUPL_GSM_DEFAULT'', ''GPS_ENC_SUPL_UTF8'', ''GPS_ENC_SUPL_UCS2'', ''GPS_ENC_UNKNOWN''])"

definition loc_eng_agps_bears :: "(string \<times> u32) list" where
  "loc_eng_agps_bears =
     [(''AGPS_APN_BEARER_INVALID'', - 1), (''AGPS_APN_BEARER_IPV4'', 0), (''AGPS_APN_BEARER_IPV6'', 1), (''AGPS_APN_BEARER_IPV4V6'', 2)]"

definition loc_get_agps_bear_name :: "u32 \<Rightarrow> string" where
  "loc_get_agps_bear_name = loc_get_name_from_val loc_eng_agps_bears"

definition loc_eng_server_types :: "(string \<times> u32) list" where
  "loc_eng_server_types =
     [(''LOC_AGPS_CDMA_PDE_SERVER'', 0), (''LOC_AGPS_CUSTOM_PDE_SERVER'', 1), (''LOC_AGPS_MPC_SERVER'', 2), (''LOC_AGPS_SUPL_SERVER'', 3)]"

definition loc_get_server_type_name :: "u32 \<Rightarrow> string" where
  "loc_get_server_type_name = loc_get_name_from_val loc_eng_server_types"

definition loc_eng_position_sess_status_types :: "(string \<times> u32) list" where
  "loc_eng_position_sess_status_types = [(''LOC_SESS_SUCCESS'', 0), (''LOC_SESS_INTERMEDIATE'', 1), (''LOC_SESS_FAILURE'', 2)]"

definition loc_get_position_sess_status_name :: "u32 \<Rightarrow> string" where
  "loc_get_position_sess_status_name = loc_get_name_from_val loc_eng_position_sess_status_types"

definition loc_get_agps_status_name :: "(string \<Rightarrow> u32) \<Rightarrow> u32 \<Rightarrow> string" where
  "loc_get_agps_status_name hdr = loc_get_name_from_val
     (names_of hdr [''GPS_REQUEST_AGPS_DATA_CONN'', ''GPS_RELEASE_AGPS_DATA_CONN'', ''GPS_AGPS_DATA_CONNECTED'',
        ''GPS_AGPS_DATA_CONN_DONE'', ''GPS_AGPS_DATA_CONN_FAILED''])"

text \<open>A table without double values names each of its values, and nothing else.\<close>

lemma name_in_table:
  "distinct (map snd t) \<Longrightarrow> (n, v) \<in> set t \<Longrightarrow> loc_get_name_from_val t v = n"
  by (induction t v rule: loc_get_name_from_val.induct) (force+)

lemma name_not_in_table: "v \<notin> snd ` set t \<Longrightarrow> loc_get_name_from_val t v = UNKNOWN_STR"
  by (induction t v rule: loc_get_name_from_val.induct) auto

lemma tables_distinct:
  "distinct (map snd loc_msg_q_status)" "distinct (map snd loc_eng_position_modes)" "distinct (map snd loc_eng_agps_types)"
  "distinct (map snd loc_eng_agps_bears)" "distinct (map snd loc_eng_server_types)"
  "distinct (map snd loc_eng_position_sess_status_types)"
  by (simp_all add: loc_msg_q_status_def loc_eng_position_modes_def loc_eng_agps_types_def loc_eng_agps_bears_def
      loc_eng_server_types_def loc_eng_position_sess_status_types_def)

lemmas own_names = tables_distinct [THEN name_in_table]

lemma header_names: "inj_on hdr (set ns) \<Longrightarrow> n \<in> set ns \<Longrightarrow> loc_get_name_from_val (names_of hdr ns) (hdr n) = n"
  by (induction ns) (auto simp: names_of_def inj_on_def)

text \<open>
  The table of responses lists the denial twice: the response that the user has not answered has no name, whatever
  its value.  Nor do the types of the Wi-Fi and of the emergency connection, 4 and 5.
\<close>

lemma no_response_has_no_name:
  "hdr ''GPS_NI_RESPONSE_NORESP'' \<noteq> hdr ''GPS_NI_RESPONSE_ACCEPT'' \<Longrightarrow>
   hdr ''GPS_NI_RESPONSE_NORESP'' \<noteq> hdr ''GPS_NI_RESPONSE_DENY'' \<Longrightarrow>
   loc_get_ni_response_name hdr (hdr ''GPS_NI_RESPONSE_NORESP'') = UNKNOWN_STR"
  by (auto simp: loc_get_ni_response_name_def names_of_def)

lemma wifi_type_has_no_name: "loc_get_agps_type_name 4 = UNKNOWN_STR" "loc_get_agps_type_name 5 = UNKNOWN_STR"
  by (simp_all add: loc_get_agps_type_name_def loc_eng_agps_types_def)

end
