(* ===== verification/Spec2Isabelle.thy ===== *)
theory Spec2Isabelle
  imports Loc_Heap Loc_Timer Linked_List Msg_Q Msg_Task Agps Nmea Loc_Api Ni Loc_Cfg Loc_Hal Loc_Target Dtb_Search
    Lights Power_Module Camera Cryptfs Thread_Helper Timer_Handle Timer_Container Loc_Base
    Eng_Machines Base_Modem Loc_Logging
begin

text \<open>
  A verification development for the native code of the Oppo msm8974 device tree: the GPS service
  (directory \<^verbatim>\<open>gps\<close>), with its utilities, its engine and its connections to the modem, to the
  framework and to the positioning daemon; the modules for the lights (\<^verbatim>\<open>liblight\<close>), the power hints
  (\<^verbatim>\<open>power\<close>), the camera (\<^verbatim>\<open>camerawrapper\<close>) and the keys of the disk encryption (\<^verbatim>\<open>cryptfs_hw\<close>), each
  between the framework and the kernel or the vendor's libraries; and the device tree tool
  (\<^verbatim>\<open>dtbtool\<close>), which runs when the system is built.

  The program and its parts.  The framework calls the functions of \<^verbatim>\<open>loc.cpp\<close>.  They hand requests
  to the engine of \<^verbatim>\<open>loc_eng.cpp\<close>, which keeps its state in one structure and works on a thread of
  its own: the calls of the framework, and the reports and requests of the modem, become messages
  in a queue which the thread serves in order.  The modem is reached through an adapter
  (\<^verbatim>\<open>LocEngAdapter.cpp\<close>) that is registered with the modem interface (\<^verbatim>\<open>LocApiBase.cpp\<close>) of a
  context (\<^verbatim>\<open>ContextBase.cpp\<close>, \<^verbatim>\<open>LocDualContext.cpp\<close>), which is chosen by the platform detection
  (\<^verbatim>\<open>loc_target.cpp\<close>).  Assisted positioning needs data connections, which a state machine asks
  the framework for (\<^verbatim>\<open>loc_eng_agps.cpp\<close>), on behalf of the modem and of the daemon
  (\<^verbatim>\<open>loc_eng_dmn_conn*.c\<close>).  The modem's questions to the user are the requests of
  \<^verbatim>\<open>loc_eng_ni.cpp\<close>; positions become sentences in \<^verbatim>\<open>loc_eng_nmea.cpp\<close>; configuration files are read
  by \<^verbatim>\<open>loc_cfg.cpp\<close>.  The utilities are a ranked heap, timers, a list, a message queue and a thread
  (\<^verbatim>\<open>gps/utils\<close>, where \<^verbatim>\<open>linked_list\<close> and \<^verbatim>\<open>msg_q\<close> come twice, in C and in C++, with the same text).

  Theories, in the order in which they build on one another.
  \<open>Prelude\<close> and \<open>Bytes\<close>: machine types, generic lemmas, the layout of numbers in memory.
  \<open>Loc_Heap\<close> (\<^verbatim>\<open>LocHeap.cpp/.h\<close>): the leftist tree of ranked objects as a datatype, push, pop and
  remove; they keep order and contents, and pop what is ranked highest, for every ranking that meets
  the locale \<open>loc_rankable\<close>; sorting by draining; the self test.
  \<open>Loc_Timer\<close> (\<^verbatim>\<open>LocTimer.cpp/.h\<close>): clients, delegates, containers and the kernel timers as one
  record, with the messages of the timer task as steps; no delegate is used after its deletion, a
  started timer is not lost, and a kernel timer is armed for the earliest delegate.  The heap lemmas
  reach it through the interpretation of \<open>loc_rankable\<close> on the order of expiry times.
  \<open>Linked_List\<close> (\<^verbatim>\<open>linked_list.cpp/.h\<close>): the pointer structure in a store of addresses, and the
  sequence it represents; the locale \<open>fifo_store\<close> is what the queue needs of it.
  \<open>Msg_Q\<close> (\<^verbatim>\<open>msg_q.cpp/.h\<close>): the blocking queue as interleaved senders and receivers that wait on
  a condition variable; messages come out in the order they went in, and no wake-up is lost.
  \<open>Msg_Task\<close> (\<^verbatim>\<open>LocThread.cpp\<close>, \<^verbatim>\<open>MsgTask.cpp\<close>): the shared object of a thread and its client
  under every interleaving; it is released exactly once, and the thread ends.
  \<open>Agps\<close> (\<^verbatim>\<open>loc_eng_agps.cpp/.h\<close>): subscribers, the four states, both machines; an invariant of
  the states, one outstanding request at a time, and an answer for every subscriber.
  \<open>Nmea\<close> (\<^verbatim>\<open>loc_eng_nmea.cpp\<close>): the six sentences, their checksums, lengths and fields.
  \<open>Gps_Types\<close> (\<^verbatim>\<open>gps_extended.h\<close>, \<^verbatim>\<open>gps_extended_c.h\<close>): the structures of positions and requests.
  \<open>Loc_Api\<close> (\<^verbatim>\<open>LocApiBase.cpp/.h\<close>): the array of adapters, implementing a set of event masks, and
  the dispatch of the modem's reports.
  \<open>Ni\<close> (\<^verbatim>\<open>loc_eng_ni.cpp\<close>): requests to the user, with the waiting thread of each.
  \<open>Loc_Cfg\<close> (\<^verbatim>\<open>loc_cfg.cpp\<close>, \<^verbatim>\<open>loc_misc_utils.cpp\<close>): the reader of configuration files.
  \<open>Eng_Adapter\<close> (\<^verbatim>\<open>LocEngAdapter.cpp/.h\<close>, \<^verbatim>\<open>loc_eng_msg.h\<close>): the adapter and every message.
  \<open>Eng_Conf\<close>, \<open>Loc_Eng\<close> (\<^verbatim>\<open>loc_eng.cpp\<close>, \<^verbatim>\<open>loc_eng_xtra.cpp\<close>): configuration, then the handlers.
  \<open>Eng_Run\<close>: runs, which are any interleaving of calls of the framework, of the modem and of steps
  of the thread.  Its locale \<open>adapter_contract\<close> says which invariants of the adapter survive every
  operation it offers; two interpretations give the session invariant and the bounds of the queue.
  \<open>Eng_Machines\<close>: the same for the AGPS machines of the engine, \<open>machine_contract\<close> and, with restarts of
  the modem, \<open>restart_contract\<close>.
  \<open>Eng_Props\<close>: what the handlers achieve, and that the machines of a run follow \<open>Agps\<close>.
  \<open>Loc_Target\<close> (\<^verbatim>\<open>loc_target.cpp\<close>), \<open>Loc_Context\<close> (\<^verbatim>\<open>ContextBase.cpp\<close>, \<^verbatim>\<open>LocDualContext.cpp\<close>):
  the platform and the modem interfaces that it selects.
  \<open>Base_Modem\<close> (the default implementations of \<^verbatim>\<open>LocApiBase.cpp\<close>): the engine on the interface that a
  context falls back to; in no run does it reach the data service.
  \<open>Loc_Logging\<close> (\<^verbatim>\<open>log_util.h\<close>, \<^verbatim>\<open>loc_log.cpp\<close>, \<^verbatim>\<open>loc_core_log.cpp\<close>): levels, time stamps and names.
  \<open>Dmn_Conn\<close> (\<^verbatim>\<open>loc_eng_dmn_conn*.c/.cpp\<close>): messages on the pipes and the thread that serves them.
  \<open>Loc_Hal\<close> (\<^verbatim>\<open>loc.cpp\<close>): the interface of the framework, shown to drive the engine within the runs
  of \<open>Eng_Run\<close>, and the filters in front of the framework's callbacks.
  \<open>Dtb_Tool\<close>, \<open>Dtb_Image\<close>, \<open>Dtb_Search\<close> (\<^verbatim>\<open>dtbtool.c\<close>): the tool, its sorted list of chips, and
  the image it writes: a boot loader finds every chip in it.
  \<open>Thread_Helper\<close> (\<^verbatim>\<open>loc_eng_dmn_conn_thread_helper.c\<close>): the handshake of a launched thread with its
  launcher, at the granularity of the mutex; the launcher is never left waiting for a thread that has
  initialised itself, and a thread whose exit flag is set ends.  With a spurious wake-up, or a
  callback that fails, this is not so: both runs are shown.
  \<open>Timer_Handle\<close> (\<^verbatim>\<open>LocSharedLock.h\<close>, \<^verbatim>\<open>LocTimerWrapper\<close>, \<^verbatim>\<open>loc_timer_start\<close>, \<^verbatim>\<open>loc_timer_stop\<close>): the
  lock that a timer shares with its delegate and the handles of C clients; nothing is used after its
  release unless the client stops the timer while it expires, and the run where it does is shown.
  \<open>Timer_Container\<close> (\<^verbatim>\<open>LocTimerContainer::get\<close>): the containers and tasks that the first threads create; never
  more than one of each is alive, every call returns it when its descriptor could be made, and some caller
  always gets on.  When the descriptor is refused, a caller can be left with a deleted container.
  \<open>Loc_Base\<close> (\<^verbatim>\<open>gps.c\<close>, \<^verbatim>\<open>loc_get_extension\<close>, \<^verbatim>\<open>LocAdapterBase\<close>, \<^verbatim>\<open>LocAdapterProxyBase\<close>): the edges of the
  service; adapters that override nothing change neither the requests of the modem nor who answers.
  \<open>Control_Files\<close>: the control files of the kernel, as a store whose accesses may fail.
  \<open>Lights\<close> (\<^verbatim>\<open>lights.c\<close>): the shared LED shows the most important light that is lit after any
  sequence of calls; brightness and the text of the duty cycles stay within their bounds.
  \<open>Power_Module\<close> (\<^verbatim>\<open>power.c\<close>, \<^verbatim>\<open>util.c\<close>): reading and writing control files, waking by double tap.
  \<open>Camera\<close> (\<^verbatim>\<open>CameraWrapper.cpp\<close>): the corrections of the parameters, key by key, and the texts and
  devices on the heap in any session of opening, calls and closing.
  \<open>Cryptfs\<close> (\<^verbatim>\<open>cryptfs_hw.c\<close>): every call of the vendor's library in order, with the wipe of the user
  data that the last wrong password brings; passwords survive the padding that the library is given.

  Interfaces.  \<open>loc_rankable\<close> (a ranking whose strict part is a weak order) is met by the objects of the
  self test and by the delegates of timers.  \<open>fifo_store\<close> (what a queue may expect of the list) is met
  by the pointer list on every heap.  \<open>adapter_contract\<close> (an invariant that survives every operation of
  the adapter) is met by the session invariant and by the bounds of the messages.  \<open>machine_contract\<close>
  (an invariant of the AGPS machines) is met by their reachable states, and its extension
  \<open>restart_contract\<close> by the absence of the data service.  \<open>control_writer\<close> (a
  file that accepts a text holds it, and others keep theirs) is met by the writers of the lights and by
  both of the power module.  The lights that compete for the LED are a linear order of the library.

  Conventions.  Machine integers are words of their width where they can wrap, and integers with the
  wrap-around written out in \<^verbatim>\<open>int\<close> arithmetic of the C code; floating-point numbers are rationals.
  \<open>None\<close> as the result of an operation is behaviour that C leaves undefined (a NULL dereference, an
  access past an array, a write past a buffer); the error codes and early returns of the code are
  values.  What others decide (the modem, the framework, the kernel, the libraries of the vendor, the
  results of \<^verbatim>\<open>malloc\<close> and of system calls) is an argument of the definitions that meet it, and what is
  assumed of it is a named hypothesis.  Threads interleave at the granularity of their locks; an access
  outside every lock is a step of its own where a property depends on it.

  Loops and bounds.  A loop over data is structural recursion or a \<open>function\<close> with a measure.  Loops
  over pointers (\<^verbatim>\<open>linked_list_flush\<close>, \<^verbatim>\<open>linked_list_search\<close>, the insertion of a chip and the walk along
  the chips) are partial functions, since they do not end on a cyclic chain; on every chain that
  represents a sequence they are shown to return.  Threads are step relations; that they end, or that
  a request is answered, is shown with a measure that every step of theirs decreases.  No fuel is used.

  Not modelled.  The texts of log messages; the clock; the creation of pipes, descriptors and
  threads by the operating system; the test programs that
  are run by hand; the ATL calls of the geofence client, wake locks and the parsers of location
  extensions, which are calls into code that is not here; the destruction of the engine, which the code
  disables; memory exhaustion in the device tree tool; the shims (\<^verbatim>\<open>libshims\<close>), whose functions forward
  to symbols of other libraries; the settings application in Java; configuration, overlays and
  policies, which are data.
\<close>


end
